(* ===== verification/Prelude.thy ===== *)
theory Prelude
  imports "HOL-Library.Word" "HOL-Library.List_Lexorder"
begin

text \<open>
  Vocabulary shared by every component: the machine integers of the code, the values a fallible
  Rust operation can end with, checked slices and copies over byte vectors, little-endian byte
  arrays, and the interface \<open>codec\<close> that every on-disk structure provides.
\<close>

unbundle bit_operations_syntax

named_theorems layout_simps \<open>sizes and closed forms of on-disk byte sequences\<close>

type_synonym u8 = "8 word"
type_synonym u16 = "16 word"
type_synonym u32 = "32 word"
type_synonym u64 = "64 word"

lemma unat_lt: "unat (w :: 'a::len word) < 2 ^ LENGTH('a)"
  by (rule unsigned_less)

lemma unat_widen [simp]:
  "unat (ucast (a :: u32) :: u64) = unat a"
  "unat (ucast (b :: u16) :: u64) = unat b"
  "unat (ucast (b :: u16) :: u32) = unat b"
  "unat (ucast (c :: u8) :: u32) = unat c"
  "unat (ucast (c :: u8) :: u64) = unat c"
  using unat_lt [of a] unat_lt [of b] unat_lt [of c]
  by (simp_all add: unsigned_ucast_eq take_bit_nat_eq_self)

subsection \<open>Results\<close>

text \<open>
  A Rust function that returns \<^verbatim>\<open>Result\<close> or that can panic returns \<open>error + 'a\<close>. A panic is
  a constructor of its own, so that code that inspects an \<^verbatim>\<open>Err\<close> does not swallow it.
\<close>

datatype panic = SliceOutOfRange | AssertionFailed | DivisionByZero | CapacityOverflow

datatype error =
    UnexpectedEof | InvalidData | InvalidInput | NotFound
  | StatFailed | ReadDirFailed | ReadLinkFailed | OpenFailed | ReadFailed | WriteFailed
  | BadChunkSize | NotADirectory | SessionFailed
  | Errno nat
  | Panic panic
  | Diverged \<comment> \<open>a loop ran out of fuel; never reached, as the theorems about those loops show\<close>

definition and_then :: "error + 'a \<Rightarrow> ('a \<Rightarrow> error + 'b) \<Rightarrow> error + 'b" where
  \<comment> \<open>the \<^verbatim>\<open>?\<close> operator\<close>
  "and_then m f = (case m of Inl e \<Rightarrow> Inl e | Inr x \<Rightarrow> f x)"

lemma and_then_simps [simp]:
  "and_then (Inl e) f = Inl e"
  "and_then (Inr x) f = f x"
  by (simp_all add: and_then_def)

lemma and_then_Inr_iff: "and_then m f = Inr y \<longleftrightarrow> (\<exists>x. m = Inr x \<and> f x = Inr y)"
  by (simp add: and_then_def split: sum.split)

lemma and_then_InrE [elim!]:
  assumes "and_then m f = Inr y"
  obtains x where "m = Inr x" and "f x = Inr y"
  using assms by (auto simp: and_then_Inr_iff)

lemma and_then_assoc: "and_then (and_then m f) g = and_then m (\<lambda>x. and_then (f x) g)"
  by (simp add: and_then_def split: sum.split)

lemma and_then_cong [fundef_cong]:
  "m = m' \<Longrightarrow> (\<And>x. m' = Inr x \<Longrightarrow> f x = f' x) \<Longrightarrow> and_then m f = and_then m' f'"
  by (simp add: and_then_def split: sum.split)

fun map_result :: "('a \<Rightarrow> error + 'b) \<Rightarrow> 'a list \<Rightarrow> error + 'b list" where
  \<comment> \<open>an iterator chain whose closure can fail\<close>
  "map_result f [] = Inr []"
| "map_result f (x # xs) =
     and_then (f x) (\<lambda>y. and_then (map_result f xs) (\<lambda>ys. Inr (y # ys)))"

lemma map_result_Inr: "(\<And>x. x \<in> set xs \<Longrightarrow> f x = Inr (g x)) \<Longrightarrow> map_result f xs = Inr (map g xs)"
  by (induction xs) simp_all

definition is_ok :: "error + 'a \<Rightarrow> bool" where
  "is_ok m = (case m of Inl _ \<Rightarrow> False | Inr _ \<Rightarrow> True)"

lemma is_ok_simps [simp]: "is_ok (Inr x)" "\<not> is_ok (Inl e)"
  by (simp_all add: is_ok_def)

definition no_panic :: "error + 'a \<Rightarrow> bool" where
  "no_panic m = (case m of Inl (Panic _) \<Rightarrow> False | _ \<Rightarrow> True)"

lemma no_panic_Inr [simp]: "no_panic (Inr x)"
  by (simp add: no_panic_def)

lemma no_panic_and_then:
  "no_panic m \<Longrightarrow> (\<And>x. m = Inr x \<Longrightarrow> no_panic (f x)) \<Longrightarrow> no_panic (and_then m f)"
  by (auto simp: no_panic_def and_then_def split: sum.splits error.splits)

subsection \<open>Slices and copies\<close>

definition bytes_at :: "nat \<Rightarrow> nat \<Rightarrow> 'a list \<Rightarrow> 'a list" where
  "bytes_at off n xs = take n (drop off xs)"

lemma length_bytes_at [simp]: "length (bytes_at off n xs) = min n (length xs - off)"
  by (simp add: bytes_at_def min.commute)

lemma bytes_at_0 [simp]: "bytes_at 0 n xs = take n xs"
  by (simp add: bytes_at_def)

lemma bytes_at_append_exact:
  "length p = off \<Longrightarrow> length d = n \<Longrightarrow> bytes_at off n (p @ d @ r) = d"
  by (simp add: bytes_at_def)

lemma bytes_at_append_left:
  "off + n \<le> length xs \<Longrightarrow> bytes_at off n (xs @ ys) = bytes_at off n xs"
  by (simp add: bytes_at_def)

lemma bytes_at_append_right:
  "length xs \<le> off \<Longrightarrow> bytes_at off n (xs @ ys) = bytes_at (off - length xs) n ys"
  by (simp add: bytes_at_def)

lemma bytes_at_all: "length xs = n \<Longrightarrow> bytes_at 0 n xs = xs"
  by simp

lemma bytes_at_Cons: "0 < off \<Longrightarrow> bytes_at off n (x # xs) = bytes_at (off - 1) n xs"
  by (cases off) (simp_all add: bytes_at_def)

lemma bytes_at_bytes_at:
  "i + m \<le> n \<Longrightarrow> bytes_at i m (bytes_at off n xs) = bytes_at (off + i) m xs"
  by (simp add: bytes_at_def drop_take min_def add.commute)

lemma nth_bytes_at: "i < n \<Longrightarrow> off + i < length xs \<Longrightarrow> bytes_at off n xs ! i = xs ! (off + i)"
  by (simp add: bytes_at_def)

lemma bytes_at_split:
  "bytes_at off (m + n) xs = bytes_at off m xs @ bytes_at (off + m) n xs"
  by (simp add: bytes_at_def take_add add.commute)

lemma bytes_at_join:
  "j = i + m \<Longrightarrow> bytes_at i m xs @ bytes_at j n xs = bytes_at i (m + n) xs"
  "j = i + m \<Longrightarrow> bytes_at i m xs @ bytes_at j n xs @ r = bytes_at i (m + n) xs @ r"
  by (simp_all add: bytes_at_split)

lemma singleton_bytes_at: "i < length xs \<Longrightarrow> xs ! i # r = bytes_at i 1 xs @ r"
  by (simp add: bytes_at_def take_Suc_conv_app_nth hd_drop_conv_nth take_Suc)

definition slice_range :: "nat \<Rightarrow> nat \<Rightarrow> 'a list \<Rightarrow> error + 'a list" where
  \<comment> \<open>\<^verbatim>\<open>&xs[from..to]\<close>\<close>
  "slice_range from to xs =
     (if from \<le> to \<and> to \<le> length xs then Inr (bytes_at from (to - from) xs)
      else Inl (Panic SliceOutOfRange))"

definition index_at :: "'a list \<Rightarrow> nat \<Rightarrow> error + 'a" where
  \<comment> \<open>\<^verbatim>\<open>xs[i]\<close>\<close>
  "index_at xs i = (if i < length xs then Inr (xs ! i) else Inl (Panic SliceOutOfRange))"

definition copy_at :: "nat \<Rightarrow> 'a list \<Rightarrow> 'a list \<Rightarrow> error + 'a list" where
  \<comment> \<open>\<^verbatim>\<open>buf[off..off + data.len()].copy_from_slice(data)\<close>\<close>
  "copy_at off data buf =
     (if off + length data \<le> length buf
      then Inr (take off buf @ data @ drop (off + length data) buf)
      else Inl (Panic SliceOutOfRange))"

lemma copy_at_append [simp]:
  assumes "length p = off" and "length m = length d"
  shows "copy_at off d (p @ m @ r) = Inr (p @ d @ r)"
  using assms by (simp add: copy_at_def)

lemma length_copy_at: "copy_at off d buf = Inr buf' \<Longrightarrow> length buf' = length buf"
  by (auto simp: copy_at_def split: if_splits)

lemma copy_at_ok: "off + length d \<le> length buf \<Longrightarrow> is_ok (copy_at off d buf)"
  by (simp add: copy_at_def)

lemma copy_at_same:
  "copy_at off d buf = Inr buf' \<Longrightarrow> bytes_at off (length d) buf' = d"
  by (auto simp: copy_at_def bytes_at_def split: if_splits)

lemma copy_at_other:
  assumes "copy_at off d buf = Inr buf'" and "i + n \<le> off \<or> off + length d \<le> i"
  shows "bytes_at i n buf' = bytes_at i n buf"
proof -
  from assms(1) have le: "off + length d \<le> length buf"
    and buf': "buf' = take off buf @ d @ drop (off + length d) buf"
    by (auto simp: copy_at_def split: if_splits)
  from assms(2) show ?thesis
  proof
    assume "i + n \<le> off"
    then have "bytes_at i n buf' = bytes_at i n (bytes_at 0 off buf)"
      using le by (simp add: buf' bytes_at_append_left)
    then show ?thesis
      using \<open>i + n \<le> off\<close> by (simp add: bytes_at_bytes_at del: bytes_at_0)
  next
    assume "off + length d \<le> i"
    then show ?thesis
      using le by (simp add: buf' bytes_at_def)
  qed
qed

subsection \<open>Output sinks\<close>

text \<open>
  A \<^verbatim>\<open>Write\<close> target: what has been written and how much it still takes. \<^verbatim>\<open>write_all\<close> fails when the
  target is full (a full disk, or the reply buffer of a request).
\<close>

record sink =
  sink_data :: "u8 list"
  sink_room :: nat

definition write_all :: "u8 list \<Rightarrow> sink \<Rightarrow> error + sink" where
  "write_all bs w =
     (if length bs \<le> sink_room w
      then Inr (w\<lparr>sink_data := sink_data w @ bs, sink_room := sink_room w - length bs\<rparr>)
      else Inl WriteFailed)"

definition sink_capacity :: "sink \<Rightarrow> nat" where
  "sink_capacity w = length (sink_data w) + sink_room w"

lemma write_all_Inr:
  "write_all bs w = Inr w' \<Longrightarrow>
     sink_data w' = sink_data w @ bs \<and> sink_capacity w' = sink_capacity w"
  by (auto simp: write_all_def sink_capacity_def split: if_splits)

lemma write_all_ok:
  "length bs \<le> sink_room w \<Longrightarrow>
     write_all bs w = Inr (w\<lparr>sink_data := sink_data w @ bs, sink_room := sink_room w - length bs\<rparr>)"
  by (simp add: write_all_def)

subsection \<open>Rounding up to a power of two\<close>

text \<open>
  \<^verbatim>\<open>(val + align - 1) & !(align - 1)\<close> on a 64-bit \<^verbatim>\<open>usize\<close>. Values of type \<^verbatim>\<open>usize\<close> that are
  lengths of, or positions in, vectors held in memory are \<^typ>\<open>nat\<close> in this development; the
  mask below is the 64-bit complement of \<^verbatim>\<open>align - 1\<close>, so the result is also what the machine
  word arithmetic gives when the sum wraps around.
\<close>

definition round_up :: "nat \<Rightarrow> nat \<Rightarrow> nat" where
  "round_up val align = (val + align - 1) AND (2 ^ 64 - 1 - (align - 1))"

lemma and_high_mask:
  fixes x :: nat
  assumes "x < 2 ^ 64" and "k \<le> 64"
  shows "x AND (2 ^ 64 - 2 ^ k) = x div 2 ^ k * 2 ^ k"
proof (rule bit_eqI)
  fix n
  have m: "(2 ^ 64 - 2 ^ k :: nat) = push_bit k (mask (64 - k))"
    using assms(2)
    by (simp add: push_bit_eq_mult mask_eq_exp_minus_1 diff_mult_distrib flip: power_add)
  have hi: "bit x n \<Longrightarrow> n < 64"
    using assms(1) by (metis bit_take_bit_iff take_bit_nat_eq_self)
  have d: "x div 2 ^ k * 2 ^ k = push_bit k (drop_bit k x)"
    by (simp add: push_bit_eq_mult drop_bit_eq_div)
  show "bit (x AND (2 ^ 64 - 2 ^ k)) n \<longleftrightarrow> bit (x div 2 ^ k * 2 ^ k) n"
    unfolding m d
    using hi by (auto simp: bit_and_iff bit_push_bit_iff bit_mask_iff bit_drop_bit_eq)
qed

lemma round_up_eq:
  assumes "k \<le> 64" and "val + 2 ^ k \<le> 2 ^ 64"
  shows "round_up val (2 ^ k) = (val + 2 ^ k - 1) div 2 ^ k * 2 ^ k"
proof -
  have pos: "(0 :: nat) < 2 ^ k" by simp
  then have "(2 ^ 64 - 1 - (2 ^ k - 1) :: nat) = 2 ^ 64 - 2 ^ k"
    by linarith
  moreover from pos assms(2) have "val + 2 ^ k - 1 < 2 ^ 64"
    by linarith
  ultimately show ?thesis
    unfolding round_up_def using assms(1) by (simp only: and_high_mask)
qed

definition pad_len :: "nat \<Rightarrow> nat \<Rightarrow> nat" where
  \<comment> \<open>the distance from \<open>n\<close> to the next multiple of \<open>a\<close>\<close>
  "pad_len n a = (a - n mod a) mod a"

lemma div_round_up:
  assumes "0 < (a :: nat)"
  shows "(n + a - 1) div a * a = n + pad_len n a"
proof (cases "n mod a = 0")
  case True
  then have n: "n = n div a * a" using div_mult_mod_eq [of n a] by simp
  define q where "q = n div a"
  note n = n [folded q_def]
  have "(n + a - 1) div a = q"
    using assms by (subst n, intro div_nat_eqI) (auto simp: mult.commute)
  then show ?thesis using True n by (simp add: pad_len_def)
next
  case False
  define q r where "q = n div a" and "r = n mod a"
  have n: "n = q * a + r" and r: "0 < r" "r < a"
    using False assms by (simp_all add: q_def r_def)
  have "(n + a - 1) div a = q + 1"
    using r by (intro div_nat_eqI) (auto simp: n mult.commute)
  moreover have "pad_len n a = a - r"
    using r False by (simp add: pad_len_def r_def)
  ultimately show ?thesis
    using r by (simp add: n)
qed

lemma pad_len_less: "0 < a \<Longrightarrow> pad_len n a < a"
  by (simp add: pad_len_def)

lemma round_up_pad:
  "k \<le> 64 \<Longrightarrow> val + 2 ^ k \<le> 2 ^ 64 \<Longrightarrow> round_up val (2 ^ k) = val + pad_len val (2 ^ k)"
  by (simp only: round_up_eq div_round_up zero_less_power zero_less_numeral)

lemma round_up_4: "val \<le> 2 ^ 63 \<Longrightarrow> round_up val 4 = val + pad_len val 4"
  using round_up_pad [of 2 val] by simp

lemma round_up_32: "val \<le> 2 ^ 63 \<Longrightarrow> round_up val 32 = val + pad_len val 32"
  using round_up_pad [of 5 val] by simp

lemma round_up_4096: "val \<le> 2 ^ 63 \<Longrightarrow> round_up val 4096 = val + pad_len val 4096"
  using round_up_pad [of 12 val] by simp

lemma dvd_add_pad: "0 < a \<Longrightarrow> a dvd n + pad_len n a"
  by (metis div_round_up dvd_triv_right)

lemma pad_len_eq_0: "a dvd n \<Longrightarrow> pad_len n a = 0"
  by (auto simp: pad_len_def)

subsection \<open>Little-endian byte arrays\<close>

fun from_le_bytes :: "u8 list \<Rightarrow> 'a::len word" where
  "from_le_bytes [] = 0"
| "from_le_bytes (b # bs) = ucast b OR push_bit 8 (from_le_bytes bs)"

fun to_le_bytes :: "nat \<Rightarrow> 'a::len word \<Rightarrow> u8 list" where
  "to_le_bytes 0 w = []"
| "to_le_bytes (Suc n) w = ucast w # to_le_bytes n (drop_bit 8 w)"

lemma length_to_le_bytes [simp]: "length (to_le_bytes n w) = n"
  by (induction n arbitrary: w) auto

lemma from_to_le_bytes: "from_le_bytes (to_le_bytes n w) = take_bit (8 * n) (w :: 'a::len word)"
proof (induction n arbitrary: w)
  case 0
  show ?case by simp
next
  case (Suc n)
  show ?case
    unfolding to_le_bytes.simps from_le_bytes.simps Suc
    by (rule bit_word_eqI)
      (auto simp: bit_simps less_diff_conv2 dest: bit_imp_le_length)
qed

lemma bit_from_le_bytes:
  "bit (from_le_bytes bs :: 'a::len word) n \<longleftrightarrow>
     n < LENGTH('a) \<and> n < 8 * length bs \<and> bit (bs ! (n div 8)) (n mod 8)"
proof (induction bs arbitrary: n)
  case Nil
  show ?case by simp
next
  case (Cons b bs)
  show ?case
  proof (cases "n < 8")
    case True
    then show ?thesis by (auto simp: bit_simps dest: bit_imp_le_length)
  next
    case False
    then have "n div 8 = Suc ((n - 8) div 8)" and "n mod 8 = (n - 8) mod 8"
      by (simp_all add: le_div_geq le_mod_geq)
    then show ?thesis
      using False by (auto simp: bit_simps Cons dest: bit_imp_le_length)
  qed
qed

lemma nth_to_le_bytes: "i < n \<Longrightarrow> to_le_bytes n w ! i = ucast (drop_bit (8 * i) w)"
proof (induction n arbitrary: w i)
  case 0
  then show ?case by simp
next
  case (Suc n)
  then show ?case by (cases i) (simp_all add: add.commute)
qed

lemma to_from_le_bytes:
  assumes "length bs = n" and "8 * n \<le> LENGTH('a)"
  shows "to_le_bytes n (from_le_bytes bs :: 'a::len word) = bs"
proof (rule nth_equalityI)
  show "length (to_le_bytes n (from_le_bytes bs :: 'a word)) = length bs"
    using assms by simp
next
  fix i
  assume "i < length (to_le_bytes n (from_le_bytes bs :: 'a word))"
  then have i: "i < n" by simp
  have "bit (to_le_bytes n (from_le_bytes bs :: 'a word) ! i) k \<longleftrightarrow> bit (bs ! i) k" if "k < 8" for k
    using that i assms
    by (simp add: nth_to_le_bytes bit_simps bit_from_le_bytes div_add1_eq mod_add_left_eq)
  then show "to_le_bytes n (from_le_bytes bs :: 'a word) ! i = bs ! i"
    by (intro bit_word_eqI) simp
qed

text \<open>The helpers \<^verbatim>\<open>get_u16\<close> to \<^verbatim>\<open>set_u64\<close>; a setter returns the array it stores.\<close>

definition get_u16 :: "u8 list \<Rightarrow> u16" where "get_u16 b = from_le_bytes b"
definition get_u32 :: "u8 list \<Rightarrow> u32" where "get_u32 b = from_le_bytes b"
definition get_u64 :: "u8 list \<Rightarrow> u64" where "get_u64 b = from_le_bytes b"
definition set_u16 :: "u16 \<Rightarrow> u8 list" where "set_u16 v = to_le_bytes 2 v"
definition set_u32 :: "u32 \<Rightarrow> u8 list" where "set_u32 v = to_le_bytes 4 v"
definition set_u64 :: "u64 \<Rightarrow> u8 list" where "set_u64 v = to_le_bytes 8 v"

lemma length_set_uN [simp, layout_simps]:
  "length (set_u16 v) = 2" "length (set_u32 w) = 4" "length (set_u64 x) = 8"
  by (simp_all add: set_u16_def set_u32_def set_u64_def)

lemma get_set_uN [simp]:
  "get_u16 (set_u16 v) = v" "get_u32 (set_u32 w) = w" "get_u64 (set_u64 x) = x"
  by (simp_all add: get_u16_def get_u32_def get_u64_def set_u16_def set_u32_def set_u64_def
      from_to_le_bytes take_bit_word_eq_self)

lemma set_get_uN:
  "length b = 2 \<Longrightarrow> set_u16 (get_u16 b) = b"
  "length b = 4 \<Longrightarrow> set_u32 (get_u32 b) = b"
  "length b = 8 \<Longrightarrow> set_u64 (get_u64 b) = b"
  by (simp_all add: get_u16_def get_u32_def get_u64_def set_u16_def set_u32_def set_u64_def
      to_from_le_bytes)

lemma get_replicate_0 [simp]:
  "get_u16 (replicate n 0) = 0" "get_u32 (replicate n 0) = 0" "get_u64 (replicate n 0) = 0"
proof -
  have "from_le_bytes (replicate n 0) = (0 :: 'a::len word)"
    by (induction n) auto
  then show "get_u16 (replicate n 0) = 0" "get_u32 (replicate n 0) = 0" "get_u64 (replicate n 0) = 0"
    by (simp_all add: get_u16_def get_u32_def get_u64_def)
qed

subsection \<open>Views of packed structures\<close>

definition cast_ref :: "nat \<Rightarrow> (u8 list \<Rightarrow> 'a) \<Rightarrow> u8 list \<Rightarrow> error + 'a" where
  \<comment> \<open>\<open>n\<close> is \<^verbatim>\<open>mem::size_of::<T>()\<close> and \<open>view\<close> reads the fields of \<^verbatim>\<open>T\<close> off the bytes\<close>
  "cast_ref n view data =
     (if n \<le> length data then Inr (view data) else Inl (Panic AssertionFailed))"

text \<open>
  What every packed structure provides: its bytes (\<^verbatim>\<open>as_bytes\<close>), the view \<^verbatim>\<open>cast_ref\<close> gives of
  bytes, and its size. The view of a structure's own bytes, whatever follows them, is the
  structure.
\<close>

locale codec =
  fixes enc :: "'a \<Rightarrow> u8 list"
    and view :: "u8 list \<Rightarrow> 'a"
    and width :: nat
    and valid :: "'a \<Rightarrow> bool"
  assumes enc_length: "valid x \<Longrightarrow> length (enc x) = width"
    and view_enc: "valid x \<Longrightarrow> view (enc x @ rest) = x"
begin

lemma cast_enc: "valid x \<Longrightarrow> cast_ref width view (enc x @ rest) = Inr x"
  by (simp add: cast_ref_def enc_length view_enc)

lemma cast_enc_exact: "valid x \<Longrightarrow> cast_ref width view (enc x) = Inr x"
  using cast_enc [of x "[]"] by simp

lemma enc_inj: "valid x \<Longrightarrow> valid y \<Longrightarrow> enc x = enc y \<Longrightarrow> x = y"
  by (metis append_Nil2 view_enc)

lemma length_concat_enc: "\<forall>x \<in> set xs. valid x \<Longrightarrow> length (concat (map enc xs)) = width * length xs"
  by (induction xs) (auto simp: enc_length)

lemma drop_concat_enc:
  assumes "\<forall>x \<in> set xs. valid x" and "i \<le> length xs"
  shows "drop (i * width) (concat (map enc xs) @ rest) = concat (map enc (drop i xs)) @ rest"
  using assms
proof (induction xs arbitrary: i)
  case Nil
  then show ?case by simp
next
  case (Cons x xs)
  then show ?case by (cases i) (simp_all add: enc_length)
qed

text \<open>Element \<open>i\<close> of a packed array of structures, read in place.\<close>

lemma cast_nth:
  assumes "\<forall>x \<in> set xs. valid x" and "i < length xs"
  shows "cast_ref width view (drop (i * width) (concat (map enc xs) @ rest)) = Inr (xs ! i)"
proof -
  have "drop i xs = xs ! i # drop (Suc i) xs"
    using assms(2) by (simp add: Cons_nth_drop_Suc)
  then have "drop (i * width) (concat (map enc xs) @ rest)
      = enc (xs ! i) @ concat (map enc (drop (Suc i) xs)) @ rest"
    using assms by (subst drop_concat_enc) simp_all
  then show ?thesis using assms by (simp add: cast_enc)
qed

end

text \<open>A structure without padding loses nothing either way.\<close>

locale exact_codec = codec +
  assumes enc_view: "length bs = width \<Longrightarrow> enc (view bs) = bs"
    and valid_view: "width \<le> length bs \<Longrightarrow> valid (view bs)"
begin

lemma cast_ok: "width \<le> length bs \<Longrightarrow> \<exists>x. cast_ref width view bs = Inr x \<and> valid x"
  by (simp add: cast_ref_def valid_view)

lemma view_take: "width \<le> length bs \<Longrightarrow> view (take width bs) = view bs"
proof -
  assume le: "width \<le> length bs"
  have "bs = enc (view (take width bs)) @ drop width bs"
    using le by (simp add: enc_view)
  then show ?thesis
    using le by (metis length_take min.absorb2 order_refl valid_view view_enc)
qed

lemma view_eq_iff:
  "width \<le> length bs \<Longrightarrow> width \<le> length cs \<Longrightarrow>
     view bs = view cs \<longleftrightarrow> take width bs = take width cs"
  by (metis enc_view length_take min.absorb2 view_take)

end

end
