(* ===== verification/Metadata.thy ===== *)
theory Metadata
  imports Prelude
begin

text \<open>
  \<^verbatim>\<open>src/metadata/mod.rs\<close>: the constants of the format, the table of extended-attribute name
  prefixes, and the size arithmetic of the inline attribute area of an inode.
\<close>

subsection \<open>Constants\<close>

definition EROFS_SUPER_MAGIC_V1 :: u32 where [simp]: "EROFS_SUPER_MAGIC_V1 = 0xE0F5E1E2"
definition EROFS_SUPER_OFFSET :: nat where [simp]: "EROFS_SUPER_OFFSET = 1024"
definition EROFS_BLOCK_SIZE :: nat where [simp]: "EROFS_BLOCK_SIZE = 4096"
definition EROFS_BLKSZBITS :: u8 where [simp]: "EROFS_BLKSZBITS = 12"
definition EROFS_SLOTSIZE :: nat where [simp]: "EROFS_SLOTSIZE = 32"

definition EROFS_FEATURE_COMPAT_SB_CHKSUM :: u32 where [simp]: "EROFS_FEATURE_COMPAT_SB_CHKSUM = 1"
definition EROFS_FEATURE_COMPAT_MTIME :: u32 where [simp]: "EROFS_FEATURE_COMPAT_MTIME = 2"
definition EROFS_FEATURE_INCOMPAT_CHUNKED_FILE :: u32
  where [simp]: "EROFS_FEATURE_INCOMPAT_CHUNKED_FILE = 4"
definition EROFS_FEATURE_INCOMPAT_DEVICE_TABLE :: u32
  where [simp]: "EROFS_FEATURE_INCOMPAT_DEVICE_TABLE = 8"

definition EROFS_INODE_FLAT_PLAIN :: u16 where [simp]: "EROFS_INODE_FLAT_PLAIN = 0"
definition EROFS_INODE_FLAT_INLINE :: u16 where [simp]: "EROFS_INODE_FLAT_INLINE = 2"
definition EROFS_INODE_CHUNK_BASED :: u16 where [simp]: "EROFS_INODE_CHUNK_BASED = 4"

definition EROFS_INODE_LAYOUT_COMPACT :: u16 where [simp]: "EROFS_INODE_LAYOUT_COMPACT = 0"
definition EROFS_INODE_LAYOUT_EXTENDED :: u16 where [simp]: "EROFS_INODE_LAYOUT_EXTENDED = 1"
definition EROFS_I_VERSION_BIT :: nat where [simp]: "EROFS_I_VERSION_BIT = 0"
definition EROFS_I_DATALAYOUT_BIT :: nat where [simp]: "EROFS_I_DATALAYOUT_BIT = 1"
definition EROFS_I_NLINK_1_BIT :: nat where [simp]: "EROFS_I_NLINK_1_BIT = 4"

definition EROFS_CHUNK_FORMAT_INDEXES :: u16 where [simp]: "EROFS_CHUNK_FORMAT_INDEXES = 0x20"

definition EROFS_FT_REG_FILE :: u8 where [simp]: "EROFS_FT_REG_FILE = 1"
definition EROFS_FT_DIR :: u8 where [simp]: "EROFS_FT_DIR = 2"
definition EROFS_FT_CHRDEV :: u8 where [simp]: "EROFS_FT_CHRDEV = 3"
definition EROFS_FT_BLKDEV :: u8 where [simp]: "EROFS_FT_BLKDEV = 4"
definition EROFS_FT_FIFO :: u8 where [simp]: "EROFS_FT_FIFO = 5"
definition EROFS_FT_SOCK :: u8 where [simp]: "EROFS_FT_SOCK = 6"
definition EROFS_FT_SYMLINK :: u8 where [simp]: "EROFS_FT_SYMLINK = 7"

definition EROFS_NULL_ADDR :: u64 where [simp]: "EROFS_NULL_ADDR = - 1"

definition EROFS_XATTR_INDEX_USER :: u8 where [simp]: "EROFS_XATTR_INDEX_USER = 1"
definition EROFS_XATTR_INDEX_POSIX_ACL_ACCESS :: u8
  where [simp]: "EROFS_XATTR_INDEX_POSIX_ACL_ACCESS = 2"
definition EROFS_XATTR_INDEX_POSIX_ACL_DEFAULT :: u8
  where [simp]: "EROFS_XATTR_INDEX_POSIX_ACL_DEFAULT = 3"
definition EROFS_XATTR_INDEX_TRUSTED :: u8 where [simp]: "EROFS_XATTR_INDEX_TRUSTED = 4"
definition EROFS_XATTR_INDEX_LUSTRE :: u8 where [simp]: "EROFS_XATTR_INDEX_LUSTRE = 5"
definition EROFS_XATTR_INDEX_SECURITY :: u8 where [simp]: "EROFS_XATTR_INDEX_SECURITY = 6"

definition EROFS_XATTR_IBODY_HEADER_SIZE :: nat where [simp]: "EROFS_XATTR_IBODY_HEADER_SIZE = 12"
definition EROFS_XATTR_ENTRY_HEADER_SIZE :: nat where [simp]: "EROFS_XATTR_ENTRY_HEADER_SIZE = 4"

definition EROFS_SB_BASE_SIZE :: nat where [simp]: "EROFS_SB_BASE_SIZE = 128"
definition EROFS_INODE_COMPACT_SIZE :: nat where [simp]: "EROFS_INODE_COMPACT_SIZE = 32"
definition EROFS_INODE_EXTENDED_SIZE :: nat where [simp]: "EROFS_INODE_EXTENDED_SIZE = 64"
definition EROFS_CHUNK_INDEX_SIZE :: nat where [simp]: "EROFS_CHUNK_INDEX_SIZE = 8"
definition EROFS_DIRENT_SIZE :: nat where [simp]: "EROFS_DIRENT_SIZE = 12"
definition EROFS_DEVICESLOT_SIZE :: nat where [simp]: "EROFS_DEVICESLOT_SIZE = 128"

subsection \<open>Names of extended attributes\<close>

definition bytes :: "string \<Rightarrow> u8 list" where
  \<comment> \<open>a byte-string literal \<^verbatim>\<open>b"..."\<close>\<close>
  "bytes s = map of_char s"

lemma length_bytes [simp]: "length (bytes s) = length s"
  by (simp add: bytes_def)

definition erofs_xattr_prefix :: "u8 \<Rightarrow> u8 list option" where
  "erofs_xattr_prefix index =
     (if index = EROFS_XATTR_INDEX_USER then Some (bytes ''user.'')
      else if index = EROFS_XATTR_INDEX_POSIX_ACL_ACCESS
        then Some (bytes ''system.posix_acl_access'')
      else if index = EROFS_XATTR_INDEX_POSIX_ACL_DEFAULT
        then Some (bytes ''system.posix_acl_default'')
      else if index = EROFS_XATTR_INDEX_TRUSTED then Some (bytes ''trusted.'')
      else if index = EROFS_XATTR_INDEX_LUSTRE then Some (bytes ''lustre.'')
      else if index = EROFS_XATTR_INDEX_SECURITY then Some (bytes ''security.'')
      else None)"

fun strip_prefix :: "'a list \<Rightarrow> 'a list \<Rightarrow> 'a list option" where
  \<comment> \<open>\<^verbatim>\<open>name.strip_prefix(p)\<close>, the prefix first\<close>
  "strip_prefix [] name = Some name"
| "strip_prefix (p # ps) [] = None"
| "strip_prefix (p # ps) (c # cs) = (if p = c then strip_prefix ps cs else None)"

lemma strip_prefix_iff: "strip_prefix p name = Some suffix \<longleftrightarrow> name = p @ suffix"
  by (induction p name rule: strip_prefix.induct) auto

definition erofs_xattr_name_split :: "u8 list \<Rightarrow> (u8 \<times> u8 list) option" where
  "erofs_xattr_name_split name =
     (case strip_prefix (bytes ''security.'') name of
        Some suffix \<Rightarrow> Some (EROFS_XATTR_INDEX_SECURITY, suffix)
      | None \<Rightarrow>
     (case strip_prefix (bytes ''trusted.'') name of
        Some suffix \<Rightarrow> Some (EROFS_XATTR_INDEX_TRUSTED, suffix)
      | None \<Rightarrow>
     (case strip_prefix (bytes ''user.'') name of
        Some suffix \<Rightarrow> Some (EROFS_XATTR_INDEX_USER, suffix)
      | None \<Rightarrow>
     (case strip_prefix (bytes ''system.posix_acl_access'') name of
        Some suffix \<Rightarrow> Some (EROFS_XATTR_INDEX_POSIX_ACL_ACCESS, suffix)
      | None \<Rightarrow>
     (case strip_prefix (bytes ''system.posix_acl_default'') name of
        Some suffix \<Rightarrow> Some (EROFS_XATTR_INDEX_POSIX_ACL_DEFAULT, suffix)
      | None \<Rightarrow>
     (case strip_prefix (bytes ''lustre.'') name of
        Some suffix \<Rightarrow> Some (EROFS_XATTR_INDEX_LUSTRE, suffix)
      | None \<Rightarrow> None))))))"

lemma strip_prefix_None: "strip_prefix p name = None \<longleftrightarrow> (\<forall>suffix. name \<noteq> p @ suffix)"
  by (metis not_None_eq strip_prefix_iff option.distinct(1))

lemma name_split_sound:
  "erofs_xattr_name_split name = Some (i, suffix) \<Longrightarrow>
     \<exists>p. erofs_xattr_prefix i = Some p \<and> name = p @ suffix"
  by (auto simp: erofs_xattr_name_split_def erofs_xattr_prefix_def strip_prefix_iff
      split: option.splits)

lemma name_split_complete:
  "erofs_xattr_prefix i = Some p \<Longrightarrow> erofs_xattr_name_split (p @ suffix) = Some (i, suffix)"
  unfolding erofs_xattr_prefix_def
  by (auto simp: erofs_xattr_name_split_def bytes_def split: if_splits)

definition xattr_full_name :: "u8 \<Rightarrow> u8 list \<Rightarrow> u8 list" where
  \<comment> \<open>the name the reader gives an entry: prefix and suffix, or the bare suffix when the index
    is unknown\<close>
  "xattr_full_name i suffix =
     (case erofs_xattr_prefix i of Some p \<Rightarrow> p @ suffix | None \<Rightarrow> suffix)"

lemma full_name_split:
  "erofs_xattr_name_split name = Some (i, suffix) \<Longrightarrow> xattr_full_name i suffix = name"
  using name_split_sound by (force simp: xattr_full_name_def)

subsection \<open>Size of the inline attribute area\<close>

type_synonym xattr = "u8 \<times> u8 list \<times> u8 list"

definition xattr_entry_size :: "xattr \<Rightarrow> nat" where
  "xattr_entry_size = (\<lambda>(_, suffix, val). EROFS_XATTR_ENTRY_HEADER_SIZE + length suffix + length val)"

definition xattr_ibody_size :: "xattr list \<Rightarrow> nat" where
  "xattr_ibody_size xattrs =
     (if xattrs = [] then 0
      else foldl (\<lambda>sz x. sz + round_up (xattr_entry_size x) 4) EROFS_XATTR_IBODY_HEADER_SIZE xattrs)"

definition xattr_icount :: "nat \<Rightarrow> u16" where
  "xattr_icount ibody =
     (if ibody = 0 then 0
      else let aligned = round_up ibody 4
           in word_of_nat ((aligned + (2 ^ 64 - 8)) mod 2 ^ 64 div 4))"

text \<open>Attribute lengths the on-disk entry header can hold: 8 and 16 bits.\<close>

definition xattr_fits :: "xattr \<Rightarrow> bool" where
  "xattr_fits = (\<lambda>(_, suffix, val). length suffix < 2 ^ 8 \<and> length val < 2 ^ 16)"

text \<open>Every attribute that exists in memory is this small.\<close>

definition xattr_small :: "xattr \<Rightarrow> bool" where
  "xattr_small x \<longleftrightarrow> xattr_entry_size x \<le> 2 ^ 63"

lemma fits_small: "xattr_fits x \<Longrightarrow> xattr_small x"
  by (auto simp: xattr_fits_def xattr_small_def xattr_entry_size_def)

definition entry_span :: "xattr \<Rightarrow> nat" where
  "entry_span x = xattr_entry_size x + pad_len (xattr_entry_size x) 4"

lemma round_up_entry: "xattr_small x \<Longrightarrow> round_up (xattr_entry_size x) 4 = entry_span x"
  by (simp add: entry_span_def xattr_small_def round_up_4)

lemma entry_span_dvd: "4 dvd entry_span x"
  by (simp add: entry_span_def dvd_add_pad)

lemma entry_span_ge: "4 \<le> entry_span x"
  by (auto simp: entry_span_def xattr_entry_size_def split: prod.split)

lemma xattr_ibody_size_eq:
  assumes "\<forall>x \<in> set xs. xattr_small x"
  shows "xattr_ibody_size xs = (if xs = [] then 0 else 12 + sum_list (map entry_span xs))"
proof -
  have "foldl (\<lambda>sz x. sz + round_up (xattr_entry_size x) 4) n xs = n + sum_list (map entry_span xs)" for n
    using assms by (induction xs arbitrary: n) (auto simp: round_up_entry)
  then show ?thesis by (simp add: xattr_ibody_size_def)
qed

lemma sum_spans_dvd: "4 dvd sum_list (map entry_span xs)"
  by (induction xs) (auto intro: dvd_add entry_span_dvd)

lemma xattr_ibody_size_dvd: "\<forall>x \<in> set xs. xattr_small x \<Longrightarrow> 4 dvd xattr_ibody_size xs"
  by (auto simp: xattr_ibody_size_eq intro!: dvd_add sum_spans_dvd)

lemma xattr_ibody_size_ge:
  "\<forall>x \<in> set xs. xattr_small x \<Longrightarrow> xs \<noteq> [] \<Longrightarrow> 12 + 4 * length xs \<le> xattr_ibody_size xs"
proof -
  have "4 * length xs \<le> sum_list (map entry_span xs)"
    by (induction xs) (auto intro: add_mono entry_span_ge)
  then show "\<forall>x \<in> set xs. xattr_small x \<Longrightarrow> xs \<noteq> [] \<Longrightarrow> 12 + 4 * length xs \<le> xattr_ibody_size xs"
    by (simp add: xattr_ibody_size_eq)
qed

text \<open>
  The count field is 16 bits wide, so it describes attribute areas of at most
  \<open>4 * 65535 + 8\<close> bytes.
\<close>

definition max_xattr_area :: nat where "max_xattr_area = 262148"

lemma xattr_icount_inverse:
  assumes "4 dvd n" and "12 \<le> n" and "n \<le> max_xattr_area"
  shows "4 * unat (xattr_icount n) + 8 = n"
proof -
  obtain m where n: "n = 4 * m" using assms(1) by (rule dvdE)
  have "round_up n 4 = n"
    using assms by (simp add: round_up_4 pad_len_eq_0 max_xattr_area_def)
  moreover have "(4 * m + (2 ^ 64 - 8)) mod 2 ^ 64 = 4 * m - 8"
    using assms n by (simp add: max_xattr_area_def mod_if)
  ultimately have "xattr_icount n = word_of_nat ((4 * m - 8) div 4)"
    using assms n by (simp add: xattr_icount_def)
  moreover have "(4 * m - 8) div 4 = m - 2"
    by presburger
  moreover have "unat (word_of_nat (m - 2) :: u16) = m - 2"
    using assms n by (simp add: unat_of_nat max_xattr_area_def del: of_nat_diff)
  ultimately show ?thesis
    using assms n by simp
qed

lemma xattr_icount_0_iff:
  assumes "4 dvd n" and "12 \<le> n" and "n \<le> max_xattr_area"
  shows "xattr_icount n \<noteq> 0"
  using xattr_icount_inverse [OF assms] assms(2) by auto

subsection \<open>Properties\<close>

text \<open>C36: Attribute names split and join. Splitting a name succeeds exactly when it starts with one of
  the six supported prefixes; the index and suffix it gives name the same attribute again, and
  joining a supported prefix and a suffix splits into them.\<close>

theorem xattr_names_roundtrip:
  "(erofs_xattr_name_split name = Some (i, suffix) \<longleftrightarrow>
      (\<exists>p. erofs_xattr_prefix i = Some p \<and> name = p @ suffix)) \<and>
   map_option (\<lambda>(i, suffix). xattr_full_name i suffix) (erofs_xattr_name_split name) \<in> {None, Some name}"
  using name_split_sound name_split_complete full_name_split
  by (cases "erofs_xattr_name_split name") auto

end
