(* ===== verification/Inode_Format.thy ===== *)
theory Inode_Format
  imports Metadata
begin

text \<open>
  \<^verbatim>\<open>src/metadata/inode.rs\<close>: the compact (32 bytes) and extended (64 bytes) on-disk inode, their
  constructors, the tagged view \<^verbatim>\<open>ErofsInode\<close> with its accessors, and the format word.
\<close>

unbundle bit_operations_syntax

subsection \<open>Compact inodes\<close>

record erofs_inode_compact =
  ci_format :: "u8 list"
  ci_xattr_icount :: "u8 list"
  ci_mode :: "u8 list"
  ci_nb :: "u8 list"
  ci_size :: "u8 list"
  ci_mtime :: "u8 list"
  ci_u :: "u8 list"
  ci_ino :: "u8 list"
  ci_uid :: "u8 list"
  ci_gid :: "u8 list"
  ci_reserved :: "u8 list"

definition inode_compact_ok :: "erofs_inode_compact \<Rightarrow> bool" where
  \<comment> \<open>every field is an array of its declared size\<close>
  "inode_compact_ok s \<longleftrightarrow>
     length (ci_format s) = 2 \<and> length (ci_xattr_icount s) = 2 \<and> length (ci_mode s) = 2 \<and>
     length (ci_nb s) = 2 \<and> length (ci_size s) = 4 \<and> length (ci_mtime s) = 4 \<and>
     length (ci_u s) = 4 \<and> length (ci_ino s) = 4 \<and> length (ci_uid s) = 2 \<and>
     length (ci_gid s) = 2 \<and> length (ci_reserved s) = 4"

definition inode_compact_as_bytes :: "erofs_inode_compact \<Rightarrow> u8 list" where
  "inode_compact_as_bytes s =
     ci_format s @ ci_xattr_icount s @ ci_mode s @ ci_nb s @
     ci_size s @ ci_mtime s @ ci_u s @ ci_ino s @
     ci_uid s @ ci_gid s @ ci_reserved s"

definition inode_compact_view :: "u8 list \<Rightarrow> erofs_inode_compact" where
  "inode_compact_view bs =
     \<lparr>ci_format = bytes_at 0 2 bs, ci_xattr_icount = bytes_at 2 2 bs, ci_mode = bytes_at 4 2 bs,
      ci_nb = bytes_at 6 2 bs, ci_size = bytes_at 8 4 bs, ci_mtime = bytes_at 12 4 bs,
      ci_u = bytes_at 16 4 bs, ci_ino = bytes_at 20 4 bs, ci_uid = bytes_at 24 2 bs,
      ci_gid = bytes_at 26 2 bs, ci_reserved = bytes_at 28 4 bs\<rparr>"

definition inode_compact_zeroed :: erofs_inode_compact where
  \<comment> \<open>\<^verbatim>\<open>mem::zeroed()\<close>\<close>
  "inode_compact_zeroed =
     \<lparr>ci_format = replicate 2 0, ci_xattr_icount = replicate 2 0, ci_mode = replicate 2 0,
      ci_nb = replicate 2 0, ci_size = replicate 4 0, ci_mtime = replicate 4 0,
      ci_u = replicate 4 0, ci_ino = replicate 4 0, ci_uid = replicate 2 0,
      ci_gid = replicate 2 0, ci_reserved = replicate 4 0\<rparr>"

interpretation inode_compact_codec:
  exact_codec inode_compact_as_bytes inode_compact_view EROFS_INODE_COMPACT_SIZE inode_compact_ok
proof
  fix x rest
  assume ok: "inode_compact_ok x"
  then show "length (inode_compact_as_bytes x) = EROFS_INODE_COMPACT_SIZE"
    by (simp add: inode_compact_ok_def inode_compact_as_bytes_def)
  from ok show "inode_compact_view (inode_compact_as_bytes x @ rest) = x"
    by (cases x) (simp add: inode_compact_ok_def inode_compact_as_bytes_def inode_compact_view_def
        bytes_at_append_right bytes_at_Cons nth_append)
next
  fix bs :: "u8 list"
  show "inode_compact_as_bytes (inode_compact_view bs) = bs" if "length bs = EROFS_INODE_COMPACT_SIZE"
    using that
    by (simp add: inode_compact_as_bytes_def inode_compact_view_def singleton_bytes_at bytes_at_join
        bytes_at_all del: bytes_at_0)
  show "inode_compact_ok (inode_compact_view bs)" if "EROFS_INODE_COMPACT_SIZE \<le> length bs"
    using that by (simp add: inode_compact_ok_def inode_compact_view_def)
qed

definition inode_compact_new ::
  "u16 \<Rightarrow> u16 \<Rightarrow> u16 \<Rightarrow> u32 \<Rightarrow> u32 \<Rightarrow> u32 \<Rightarrow> u32 \<Rightarrow> u16 \<Rightarrow> u16 \<Rightarrow> erofs_inode_compact" where
  "inode_compact_new i_format i_mode i_nb i_size i_mtime i_u i_ino i_uid i_gid =
     inode_compact_zeroed
       \<lparr>ci_format := set_u16 i_format,
        ci_mode := set_u16 i_mode,
        ci_nb := set_u16 i_nb,
        ci_size := set_u32 i_size,
        ci_mtime := set_u32 i_mtime,
        ci_u := set_u32 i_u,
        ci_ino := set_u32 i_ino,
        ci_uid := set_u16 i_uid,
        ci_gid := set_u16 i_gid\<rparr>"

lemma inode_compact_new_ok [simp]: "inode_compact_ok (inode_compact_new f m nb s t u i ui gi)"
  by (simp add: inode_compact_ok_def inode_compact_new_def inode_compact_zeroed_def)

subsection \<open>Extended inodes\<close>

record erofs_inode_extended =
  ei_format :: "u8 list"
  ei_xattr_icount :: "u8 list"
  ei_mode :: "u8 list"
  ei_nb :: "u8 list"
  ei_size :: "u8 list"
  ei_u :: "u8 list"
  ei_ino :: "u8 list"
  ei_uid :: "u8 list"
  ei_gid :: "u8 list"
  ei_mtime :: "u8 list"
  ei_mtime_nsec :: "u8 list"
  ei_nlink :: "u8 list"
  ei_reserved2 :: "u8 list"

definition inode_extended_ok :: "erofs_inode_extended \<Rightarrow> bool" where
  \<comment> \<open>every field is an array of its declared size\<close>
  "inode_extended_ok s \<longleftrightarrow>
     length (ei_format s) = 2 \<and> length (ei_xattr_icount s) = 2 \<and> length (ei_mode s) = 2 \<and>
     length (ei_nb s) = 2 \<and> length (ei_size s) = 8 \<and> length (ei_u s) = 4 \<and>
     length (ei_ino s) = 4 \<and> length (ei_uid s) = 4 \<and> length (ei_gid s) = 4 \<and>
     length (ei_mtime s) = 8 \<and> length (ei_mtime_nsec s) = 4 \<and> length (ei_nlink s) = 4 \<and>
     length (ei_reserved2 s) = 16"

definition inode_extended_as_bytes :: "erofs_inode_extended \<Rightarrow> u8 list" where
  "inode_extended_as_bytes s =
     ei_format s @ ei_xattr_icount s @ ei_mode s @ ei_nb s @
     ei_size s @ ei_u s @ ei_ino s @ ei_uid s @
     ei_gid s @ ei_mtime s @ ei_mtime_nsec s @ ei_nlink s @
     ei_reserved2 s"

definition inode_extended_view :: "u8 list \<Rightarrow> erofs_inode_extended" where
  "inode_extended_view bs =
     \<lparr>ei_format = bytes_at 0 2 bs, ei_xattr_icount = bytes_at 2 2 bs, ei_mode = bytes_at 4 2 bs,
      ei_nb = bytes_at 6 2 bs, ei_size = bytes_at 8 8 bs, ei_u = bytes_at 16 4 bs,
      ei_ino = bytes_at 20 4 bs, ei_uid = bytes_at 24 4 bs, ei_gid = bytes_at 28 4 bs,
      ei_mtime = bytes_at 32 8 bs, ei_mtime_nsec = bytes_at 40 4 bs, ei_nlink = bytes_at 44 4 bs,
      ei_reserved2 = bytes_at 48 16 bs\<rparr>"

definition inode_extended_zeroed :: erofs_inode_extended where
  \<comment> \<open>\<^verbatim>\<open>mem::zeroed()\<close>\<close>
  "inode_extended_zeroed =
     \<lparr>ei_format = replicate 2 0, ei_xattr_icount = replicate 2 0, ei_mode = replicate 2 0,
      ei_nb = replicate 2 0, ei_size = replicate 8 0, ei_u = replicate 4 0,
      ei_ino = replicate 4 0, ei_uid = replicate 4 0, ei_gid = replicate 4 0,
      ei_mtime = replicate 8 0, ei_mtime_nsec = replicate 4 0, ei_nlink = replicate 4 0,
      ei_reserved2 = replicate 16 0\<rparr>"

interpretation inode_extended_codec:
  exact_codec inode_extended_as_bytes inode_extended_view EROFS_INODE_EXTENDED_SIZE inode_extended_ok
proof
  fix x rest
  assume ok: "inode_extended_ok x"
  then show "length (inode_extended_as_bytes x) = EROFS_INODE_EXTENDED_SIZE"
    by (simp add: inode_extended_ok_def inode_extended_as_bytes_def)
  from ok show "inode_extended_view (inode_extended_as_bytes x @ rest) = x"
    by (cases x) (simp add: inode_extended_ok_def inode_extended_as_bytes_def inode_extended_view_def
        bytes_at_append_right bytes_at_Cons nth_append)
next
  fix bs :: "u8 list"
  show "inode_extended_as_bytes (inode_extended_view bs) = bs" if "length bs = EROFS_INODE_EXTENDED_SIZE"
    using that
    by (simp add: inode_extended_as_bytes_def inode_extended_view_def singleton_bytes_at bytes_at_join
        bytes_at_all del: bytes_at_0)
  show "inode_extended_ok (inode_extended_view bs)" if "EROFS_INODE_EXTENDED_SIZE \<le> length bs"
    using that by (simp add: inode_extended_ok_def inode_extended_view_def)
qed

definition inode_extended_new ::
  "u16 \<Rightarrow> u16 \<Rightarrow> u16 \<Rightarrow> u64 \<Rightarrow> u32 \<Rightarrow> u32 \<Rightarrow> u32 \<Rightarrow> u32 \<Rightarrow> u64 \<Rightarrow> u32 \<Rightarrow> u32 \<Rightarrow> erofs_inode_extended" where
  "inode_extended_new i_format i_mode i_nb i_size i_u i_ino i_uid i_gid i_mtime i_mtime_nsec
     i_nlink =
     inode_extended_zeroed
       \<lparr>ei_format := set_u16 i_format,
        ei_mode := set_u16 i_mode,
        ei_nb := set_u16 i_nb,
        ei_size := set_u64 i_size,
        ei_u := set_u32 i_u,
        ei_ino := set_u32 i_ino,
        ei_uid := set_u32 i_uid,
        ei_gid := set_u32 i_gid,
        ei_mtime := set_u64 i_mtime,
        ei_mtime_nsec := set_u32 i_mtime_nsec,
        ei_nlink := set_u32 i_nlink\<rparr>"

lemma inode_extended_new_ok [simp]:
  "inode_extended_ok (inode_extended_new f m nb s u i ui gi t tn nl)"
  by (simp add: inode_extended_ok_def inode_extended_new_def inode_extended_zeroed_def)

subsection \<open>Accessors\<close>

text \<open>The accessors unfold: what holds of an accessor is stated of its field.\<close>

definition compact_format :: "erofs_inode_compact \<Rightarrow> u16" where [simp]: "compact_format c = get_u16 (ci_format c)"
definition compact_xattr_icount :: "erofs_inode_compact \<Rightarrow> u16" where [simp]: "compact_xattr_icount c = get_u16 (ci_xattr_icount c)"
definition compact_mode :: "erofs_inode_compact \<Rightarrow> u16" where [simp]: "compact_mode c = get_u16 (ci_mode c)"
definition compact_nb :: "erofs_inode_compact \<Rightarrow> u16" where [simp]: "compact_nb c = get_u16 (ci_nb c)"
definition compact_size :: "erofs_inode_compact \<Rightarrow> u64" where [simp]: "compact_size c = ucast (get_u32 (ci_size c))"
definition compact_mtime_delta :: "erofs_inode_compact \<Rightarrow> u32" where [simp]: "compact_mtime_delta c = get_u32 (ci_mtime c)"
definition compact_i_u :: "erofs_inode_compact \<Rightarrow> u32" where [simp]: "compact_i_u c = get_u32 (ci_u c)"
definition compact_ino :: "erofs_inode_compact \<Rightarrow> u32" where [simp]: "compact_ino c = get_u32 (ci_ino c)"
definition compact_uid :: "erofs_inode_compact \<Rightarrow> u32" where [simp]: "compact_uid c = ucast (get_u16 (ci_uid c))"
definition compact_gid :: "erofs_inode_compact \<Rightarrow> u32" where [simp]: "compact_gid c = ucast (get_u16 (ci_gid c))"

definition extended_format :: "erofs_inode_extended \<Rightarrow> u16" where [simp]: "extended_format e = get_u16 (ei_format e)"
definition extended_xattr_icount :: "erofs_inode_extended \<Rightarrow> u16" where [simp]: "extended_xattr_icount e = get_u16 (ei_xattr_icount e)"
definition extended_mode :: "erofs_inode_extended \<Rightarrow> u16" where [simp]: "extended_mode e = get_u16 (ei_mode e)"
definition extended_nb :: "erofs_inode_extended \<Rightarrow> u16" where [simp]: "extended_nb e = get_u16 (ei_nb e)"
definition extended_size :: "erofs_inode_extended \<Rightarrow> u64" where [simp]: "extended_size e = get_u64 (ei_size e)"
definition extended_i_u :: "erofs_inode_extended \<Rightarrow> u32" where [simp]: "extended_i_u e = get_u32 (ei_u e)"
definition extended_ino :: "erofs_inode_extended \<Rightarrow> u32" where [simp]: "extended_ino e = get_u32 (ei_ino e)"
definition extended_uid :: "erofs_inode_extended \<Rightarrow> u32" where [simp]: "extended_uid e = get_u32 (ei_uid e)"
definition extended_gid :: "erofs_inode_extended \<Rightarrow> u32" where [simp]: "extended_gid e = get_u32 (ei_gid e)"
definition extended_mtime :: "erofs_inode_extended \<Rightarrow> u64" where [simp]: "extended_mtime e = get_u64 (ei_mtime e)"
definition extended_mtime_nsec :: "erofs_inode_extended \<Rightarrow> u32" where [simp]: "extended_mtime_nsec e = get_u32 (ei_mtime_nsec e)"
definition extended_nlink :: "erofs_inode_extended \<Rightarrow> u32" where [simp]: "extended_nlink e = get_u32 (ei_nlink e)"

subsection \<open>The unified view\<close>

datatype erofs_inode = Compact erofs_inode_compact | Extended erofs_inode_extended

definition inode_cast :: "u8 list \<Rightarrow> error + erofs_inode" where
  "inode_cast data =
     (if length data < 2 then Inl UnexpectedEof
      else
        let i_format = get_u16 [data ! 0, data ! 1];
            is_compact = ((drop_bit EROFS_I_VERSION_BIT i_format) AND 1 = EROFS_INODE_LAYOUT_COMPACT)
        in if is_compact then
             (if length data < EROFS_INODE_COMPACT_SIZE then Inl UnexpectedEof
              else and_then (cast_ref EROFS_INODE_COMPACT_SIZE inode_compact_view data)
                     (\<lambda>c. Inr (Compact c)))
           else
             (if length data < EROFS_INODE_EXTENDED_SIZE then Inl UnexpectedEof
              else and_then (cast_ref EROFS_INODE_EXTENDED_SIZE inode_extended_view data)
                     (\<lambda>e. Inr (Extended e))))"

fun inode_format :: "erofs_inode \<Rightarrow> u16" where
  "inode_format (Compact c) = compact_format c"
| "inode_format (Extended e) = extended_format e"

definition inode_data_layout :: "erofs_inode \<Rightarrow> u16" where
  "inode_data_layout i = (drop_bit EROFS_I_DATALAYOUT_BIT (inode_format i)) AND 7"

fun inode_is_compact :: "erofs_inode \<Rightarrow> bool" where
  "inode_is_compact (Compact _) = True"
| "inode_is_compact (Extended _) = False"

fun inode_header_size :: "erofs_inode \<Rightarrow> nat" where
  "inode_header_size (Compact _) = EROFS_INODE_COMPACT_SIZE"
| "inode_header_size (Extended _) = EROFS_INODE_EXTENDED_SIZE"

fun inode_xattr_icount :: "erofs_inode \<Rightarrow> u16" where
  "inode_xattr_icount (Compact c) = compact_xattr_icount c"
| "inode_xattr_icount (Extended e) = extended_xattr_icount e"

definition inode_xattr_size :: "erofs_inode \<Rightarrow> nat" where
  "inode_xattr_size i =
     (let cnt = inode_xattr_icount i in if cnt = 0 then 0 else unat cnt * 4 + 8)"

fun inode_mode :: "erofs_inode \<Rightarrow> u16" where
  "inode_mode (Compact c) = compact_mode c"
| "inode_mode (Extended e) = extended_mode e"

fun inode_size :: "erofs_inode \<Rightarrow> u64" where
  "inode_size (Compact c) = compact_size c"
| "inode_size (Extended e) = extended_size e"

fun inode_mtime :: "erofs_inode \<Rightarrow> u64 \<Rightarrow> u64" where
  "inode_mtime (Compact c) epoch = epoch + ucast (compact_mtime_delta c)"
| "inode_mtime (Extended e) epoch = extended_mtime e"

fun inode_mtime_nsec :: "erofs_inode \<Rightarrow> u32" where
  "inode_mtime_nsec (Compact _) = 0"
| "inode_mtime_nsec (Extended e) = extended_mtime_nsec e"

fun inode_nlink :: "erofs_inode \<Rightarrow> u32" where
  "inode_nlink (Compact _) = 1"
| "inode_nlink (Extended e) = extended_nlink e"

fun inode_uid :: "erofs_inode \<Rightarrow> u32" where
  "inode_uid (Compact c) = compact_uid c"
| "inode_uid (Extended e) = extended_uid e"

fun inode_gid :: "erofs_inode \<Rightarrow> u32" where
  "inode_gid (Compact c) = compact_gid c"
| "inode_gid (Extended e) = extended_gid e"

fun inode_ino :: "erofs_inode \<Rightarrow> u32" where
  "inode_ino (Compact c) = compact_ino c"
| "inode_ino (Extended e) = extended_ino e"

fun inode_i_u :: "erofs_inode \<Rightarrow> u32" where
  "inode_i_u (Compact c) = compact_i_u c"
| "inode_i_u (Extended e) = extended_i_u e"

fun inode_nb :: "erofs_inode \<Rightarrow> u16" where
  "inode_nb (Compact c) = compact_nb c"
| "inode_nb (Extended e) = extended_nb e"

definition inode_rdev :: "erofs_inode \<Rightarrow> u32" where
  "inode_rdev i = inode_i_u i"

definition inode_chunk_format :: "erofs_inode \<Rightarrow> u16" where
  "inode_chunk_format i = ucast (inode_i_u i)"

definition inode_startblk :: "erofs_inode \<Rightarrow> u64" where
  "inode_startblk i = (push_bit 32 (ucast (inode_nb i))) OR ucast (inode_i_u i)"

subsection \<open>The format word\<close>

definition compact_i_format :: "u16 \<Rightarrow> bool \<Rightarrow> u16" where
  "compact_i_format datalayout nlink_1 =
     (let fmt = (push_bit EROFS_I_VERSION_BIT EROFS_INODE_LAYOUT_COMPACT)
                OR (push_bit EROFS_I_DATALAYOUT_BIT datalayout)
      in if nlink_1 then fmt OR (push_bit EROFS_I_NLINK_1_BIT 1) else fmt)"

definition extended_i_format :: "u16 \<Rightarrow> u16" where
  "extended_i_format datalayout =
     (push_bit EROFS_I_VERSION_BIT EROFS_INODE_LAYOUT_EXTENDED)
     OR (push_bit EROFS_I_DATALAYOUT_BIT datalayout)"

subsection \<open>Reading back what was written\<close>

lemma take_2_eq: "2 \<le> length xs \<Longrightarrow> [xs ! 0, xs ! 1] = take 2 xs"
  by (cases xs; cases "tl xs") auto

lemma no_panic_inode_cast: "no_panic (inode_cast data)"
  by (simp add: inode_cast_def no_panic_def cast_ref_def Let_def)

lemma inode_cast_compact:
  assumes "inode_compact_ok c" and "\<not> bit (get_u16 (ci_format c)) 0"
  shows "inode_cast (inode_compact_as_bytes c @ rest) = Inr (Compact c)"
proof -
  let ?d = "inode_compact_as_bytes c @ rest"
  have len: "32 \<le> length ?d"
    using inode_compact_codec.enc_length [OF assms(1)] by simp
  then have "[?d ! 0, ?d ! 1] = take 2 ?d"
    by (intro take_2_eq) simp
  also have "\<dots> = ci_format c"
    using assms(1) by (simp add: inode_compact_as_bytes_def inode_compact_ok_def)
  finally have "[?d ! 0, ?d ! 1] = ci_format c" .
  then show ?thesis
    using len assms inode_compact_codec.cast_enc [OF assms(1), of rest]
    by (simp add: inode_cast_def Let_def and_one_eq even_iff_mod_2_eq_zero bit_0 del: One_nat_def)
qed

lemma inode_cast_extended:
  assumes "inode_extended_ok e" and "bit (get_u16 (ei_format e)) 0"
  shows "inode_cast (inode_extended_as_bytes e @ rest) = Inr (Extended e)"
proof -
  let ?d = "inode_extended_as_bytes e @ rest"
  have len: "64 \<le> length ?d"
    using inode_extended_codec.enc_length [OF assms(1)] by simp
  then have "[?d ! 0, ?d ! 1] = take 2 ?d"
    by (intro take_2_eq) simp
  also have "\<dots> = ei_format e"
    using assms(1) by (simp add: inode_extended_as_bytes_def inode_extended_ok_def)
  finally have "[?d ! 0, ?d ! 1] = ei_format e" .
  then show ?thesis
    using len assms inode_extended_codec.cast_enc [OF assms(1), of rest]
    by (simp add: inode_cast_def Let_def and_one_eq mod_2_eq_odd bit_0 del: One_nat_def)
qed

lemma inode_cast_header_size:
  "inode_cast data = Inr i \<Longrightarrow> inode_header_size i \<le> length data"
  by (auto simp: inode_cast_def Let_def cast_ref_def split: if_splits)

text \<open>A layout number has three bits; the version and link bits never disturb it.\<close>

lemma compact_i_format_bits:
  assumes "dl < 8"
  shows "\<not> bit (compact_i_format dl n) 0"
    and "(drop_bit 1 (compact_i_format dl n)) AND 7 = dl"
    and "bit (compact_i_format dl n) 4 \<longleftrightarrow> n"
proof -
  have "dl \<in> set (map word_of_nat [0 ..< 8])"
  proof -
    have "unat dl < 8" using assms by (simp add: word_less_nat_alt)
    then show ?thesis by (auto intro!: image_eqI [of _ _ "unat dl"])
  qed
  then show "\<not> bit (compact_i_format dl n) 0"
    and "(drop_bit 1 (compact_i_format dl n)) AND 7 = dl"
    and "bit (compact_i_format dl n) 4 \<longleftrightarrow> n"
    by (auto simp: compact_i_format_def upt_rec split: if_splits)
qed

lemma extended_i_format_bits:
  assumes "dl < 8"
  shows "bit (extended_i_format dl) 0"
    and "(drop_bit 1 (extended_i_format dl)) AND 7 = dl"
proof -
  have "dl \<in> set (map word_of_nat [0 ..< 8])"
  proof -
    have "unat dl < 8" using assms by (simp add: word_less_nat_alt)
    then show ?thesis by (auto intro!: image_eqI [of _ _ "unat dl"])
  qed
  then show "bit (extended_i_format dl) 0"
    and "(drop_bit 1 (extended_i_format dl)) AND 7 = dl"
    by (auto simp: extended_i_format_def upt_rec)
qed

lemma startblk_split:
  assumes "inode_nb i = ucast (drop_bit 32 b)" and "inode_i_u i = ucast b"
  shows "inode_startblk i = take_bit 48 b"
  unfolding inode_startblk_def assms
  by (rule bit_word_eqI) (auto simp: bit_simps)

end
