(* ===== verification/Chunk_Format.thy ===== *)
theory Chunk_Format
  imports Metadata
begin

text \<open>
  \<^verbatim>\<open>src/metadata/chunk.rs\<close>: the 8-byte chunk index and the 128-byte device slot.
\<close>

unbundle bit_operations_syntax

subsection \<open>Chunk indexes\<close>

record erofs_chunk_index =
  cx_startblk_hi :: "u8 list"
  cx_device_id :: "u8 list"
  cx_startblk_lo :: "u8 list"

definition chunk_index_ok :: "erofs_chunk_index \<Rightarrow> bool" where
  \<comment> \<open>every field is an array of its declared size\<close>
  "chunk_index_ok s \<longleftrightarrow>
     length (cx_startblk_hi s) = 2 \<and> length (cx_device_id s) = 2 \<and> length (cx_startblk_lo s) = 4"

definition chunk_index_as_bytes :: "erofs_chunk_index \<Rightarrow> u8 list" where
  "chunk_index_as_bytes s =
     cx_startblk_hi s @ cx_device_id s @ cx_startblk_lo s"

definition chunk_index_view :: "u8 list \<Rightarrow> erofs_chunk_index" where
  "chunk_index_view bs =
     \<lparr>cx_startblk_hi = bytes_at 0 2 bs, cx_device_id = bytes_at 2 2 bs, cx_startblk_lo = bytes_at 4 4 bs\<rparr>"

definition chunk_index_zeroed :: erofs_chunk_index where
  \<comment> \<open>\<^verbatim>\<open>mem::zeroed()\<close>\<close>
  "chunk_index_zeroed =
     \<lparr>cx_startblk_hi = replicate 2 0, cx_device_id = replicate 2 0, cx_startblk_lo = replicate 4 0\<rparr>"

interpretation chunk_index_codec:
  exact_codec chunk_index_as_bytes chunk_index_view EROFS_CHUNK_INDEX_SIZE chunk_index_ok
proof
  fix x rest
  assume ok: "chunk_index_ok x"
  then show "length (chunk_index_as_bytes x) = EROFS_CHUNK_INDEX_SIZE"
    by (simp add: chunk_index_ok_def chunk_index_as_bytes_def)
  from ok show "chunk_index_view (chunk_index_as_bytes x @ rest) = x"
    by (cases x) (simp add: chunk_index_ok_def chunk_index_as_bytes_def chunk_index_view_def
        bytes_at_append_right bytes_at_Cons nth_append)
next
  fix bs :: "u8 list"
  show "chunk_index_as_bytes (chunk_index_view bs) = bs" if "length bs = EROFS_CHUNK_INDEX_SIZE"
    using that
    by (simp add: chunk_index_as_bytes_def chunk_index_view_def singleton_bytes_at bytes_at_join
        bytes_at_all del: bytes_at_0)
  show "chunk_index_ok (chunk_index_view bs)" if "EROFS_CHUNK_INDEX_SIZE \<le> length bs"
    using that by (simp add: chunk_index_ok_def chunk_index_view_def)
qed

definition chunk_index_blkaddr :: "erofs_chunk_index \<Rightarrow> u64" where
  "chunk_index_blkaddr c =
     (let hi = ucast (get_u16 (cx_startblk_hi c));
          lo = ucast (get_u32 (cx_startblk_lo c))
      in push_bit 32 hi OR lo)"

definition chunk_index_device_id :: "erofs_chunk_index \<Rightarrow> u16" where
  "chunk_index_device_id c = get_u16 (cx_device_id c)"

definition chunk_index_new :: "u64 \<Rightarrow> u16 \<Rightarrow> erofs_chunk_index" where
  "chunk_index_new blkaddr device_id =
     (if blkaddr = EROFS_NULL_ADDR then
        chunk_index_zeroed
          \<lparr>cx_startblk_hi := replicate 2 0xFF,
           cx_device_id := replicate 2 0xFF,
           cx_startblk_lo := replicate 4 0xFF\<rparr>
      else
        chunk_index_zeroed
          \<lparr>cx_startblk_hi := set_u16 (ucast (drop_bit 32 blkaddr)),
           cx_device_id := set_u16 device_id,
           cx_startblk_lo := set_u32 (ucast blkaddr)\<rparr>)"

lemma chunk_index_new_ok [simp]: "chunk_index_ok (chunk_index_new b d)"
  by (simp add: chunk_index_ok_def chunk_index_new_def chunk_index_zeroed_def)

lemma length_chunk_index_bytes [simp, layout_simps]:
  "length (chunk_index_as_bytes (chunk_index_new b d)) = 8"
  using chunk_index_codec.enc_length [OF chunk_index_new_ok] by simp

lemma blkaddr_lt: "unat (chunk_index_blkaddr c) < 2 ^ 48"
proof -
  have "take_bit 48 (chunk_index_blkaddr c) = chunk_index_blkaddr c"
    by (rule bit_word_eqI)
      (auto simp: chunk_index_blkaddr_def Let_def bit_simps dest: bit_imp_le_length)
  then have "unat (chunk_index_blkaddr c) = take_bit 48 (unat (chunk_index_blkaddr c))"
    by (metis unsigned_take_bit_eq)
  then show ?thesis by (metis take_bit_nat_less_exp)
qed

lemma blkaddr_new:
  assumes "unat b < 2 ^ 48"
  shows "chunk_index_blkaddr (chunk_index_new b d) = b"
    and "chunk_index_device_id (chunk_index_new b d) = d"
proof -
  have "unat EROFS_NULL_ADDR = 2 ^ 64 - 1"
    by (simp add: unsigned_minus_1_eq_mask mask_eq_exp_minus_1)
  then have ne: "b \<noteq> EROFS_NULL_ADDR" using assms by auto
  have "take_bit 48 b = b"
    using assms by (simp add: word_unat_eq_iff unsigned_take_bit_eq take_bit_nat_eq_self)
  then have "bit b n \<Longrightarrow> n < 48" for n
    by (metis bit_take_bit_iff)
  then have "bit b n \<Longrightarrow> n - 32 < 16" for n
    by fastforce
  then have "push_bit 32 (ucast (ucast (drop_bit 32 b) :: u16)) OR ucast (ucast b :: u32) = b"
    by (intro bit_word_eqI) (auto simp: bit_simps)
  then show "chunk_index_blkaddr (chunk_index_new b d) = b"
    using ne by (simp add: chunk_index_blkaddr_def chunk_index_new_def)
  show "chunk_index_device_id (chunk_index_new b d) = d"
    using ne by (simp add: chunk_index_device_id_def chunk_index_new_def)
qed

subsection \<open>Device slots\<close>

record erofs_device_slot =
  ds_tag :: "u8 list"
  ds_blocks_lo :: "u8 list"
  ds_uniaddr_lo :: "u8 list"
  ds_blocks_hi :: "u8 list"
  ds_uniaddr_hi :: "u8 list"
  ds_reserved :: "u8 list"

definition device_slot_ok :: "erofs_device_slot \<Rightarrow> bool" where
  \<comment> \<open>every field is an array of its declared size\<close>
  "device_slot_ok s \<longleftrightarrow>
     length (ds_tag s) = 64 \<and> length (ds_blocks_lo s) = 4 \<and> length (ds_uniaddr_lo s) = 4 \<and>
     length (ds_blocks_hi s) = 4 \<and> length (ds_uniaddr_hi s) = 2 \<and> length (ds_reserved s) = 50"

definition device_slot_as_bytes :: "erofs_device_slot \<Rightarrow> u8 list" where
  "device_slot_as_bytes s =
     ds_tag s @ ds_blocks_lo s @ ds_uniaddr_lo s @ ds_blocks_hi s @
     ds_uniaddr_hi s @ ds_reserved s"

definition device_slot_view :: "u8 list \<Rightarrow> erofs_device_slot" where
  "device_slot_view bs =
     \<lparr>ds_tag = bytes_at 0 64 bs, ds_blocks_lo = bytes_at 64 4 bs, ds_uniaddr_lo = bytes_at 68 4 bs,
      ds_blocks_hi = bytes_at 72 4 bs, ds_uniaddr_hi = bytes_at 76 2 bs, ds_reserved = bytes_at 78 50 bs\<rparr>"

definition device_slot_zeroed :: erofs_device_slot where
  \<comment> \<open>\<^verbatim>\<open>mem::zeroed()\<close>\<close>
  "device_slot_zeroed =
     \<lparr>ds_tag = replicate 64 0, ds_blocks_lo = replicate 4 0, ds_uniaddr_lo = replicate 4 0,
      ds_blocks_hi = replicate 4 0, ds_uniaddr_hi = replicate 2 0, ds_reserved = replicate 50 0\<rparr>"

interpretation device_slot_codec:
  exact_codec device_slot_as_bytes device_slot_view EROFS_DEVICESLOT_SIZE device_slot_ok
proof
  fix x rest
  assume ok: "device_slot_ok x"
  then show "length (device_slot_as_bytes x) = EROFS_DEVICESLOT_SIZE"
    by (simp add: device_slot_ok_def device_slot_as_bytes_def)
  from ok show "device_slot_view (device_slot_as_bytes x @ rest) = x"
    by (cases x) (simp add: device_slot_ok_def device_slot_as_bytes_def device_slot_view_def
        bytes_at_append_right bytes_at_Cons nth_append)
next
  fix bs :: "u8 list"
  show "device_slot_as_bytes (device_slot_view bs) = bs" if "length bs = EROFS_DEVICESLOT_SIZE"
    using that
    by (simp add: device_slot_as_bytes_def device_slot_view_def singleton_bytes_at bytes_at_join
        bytes_at_all del: bytes_at_0)
  show "device_slot_ok (device_slot_view bs)" if "EROFS_DEVICESLOT_SIZE \<le> length bs"
    using that by (simp add: device_slot_ok_def device_slot_view_def)
qed

definition device_slot_new :: "u64 \<Rightarrow> erofs_device_slot" where
  "device_slot_new blocks =
     device_slot_zeroed
       \<lparr>ds_blocks_lo := set_u32 (ucast blocks),
        ds_blocks_hi := set_u32 (ucast (drop_bit 32 blocks))\<rparr>"

lemma device_slot_new_ok [simp]: "device_slot_ok (device_slot_new b)"
  by (simp add: device_slot_ok_def device_slot_new_def device_slot_zeroed_def)

lemma device_slot_blocks:
  "push_bit 32 (ucast (get_u32 (ds_blocks_hi (device_slot_new b)))) OR
     ucast (get_u32 (ds_blocks_lo (device_slot_new b))) = (b :: u64)"
  by (rule bit_word_eqI) (auto simp: device_slot_new_def bit_simps)

end
