(* ===== verification/Blob_Writer.thy ===== *)
theory Blob_Writer
  imports Metadata
begin

text \<open>
  \<^verbatim>\<open>src/build/blobchunk.rs\<close>: the writer of the blob device, which stores each distinct chunk once.
  The hash function (BLAKE3, a third-party crate) is the parameter \<open>hash\<close>; what the code relies on,
  that it has no collision among the chunks it is given, is \<open>inj_on hash C\<close> for the set \<open>C\<close> of those
  chunks. The interface \<open>content_store\<close> states the promise of the writer: what was stored can be
  fetched at the returned address, now and after every later store.
\<close>

record chunk_ref =
  ck_blkaddr :: u64
  ck_device_id :: u16

record 'h blob_writer =
  bw_file :: sink
  bw_chunksize :: u32
  bw_next_blkaddr :: u64
  bw_dedup :: "'h \<Rightarrow> u64 option"
  bw_saved_by_dedup :: u64

definition blob_writer_new :: "nat \<Rightarrow> u32 \<Rightarrow> 'h blob_writer" where
  \<comment> \<open>a created, empty file on a device of \<open>room\<close> bytes\<close>
  "blob_writer_new room chunksize =
     \<lparr>bw_file = \<lparr>sink_data = [], sink_room = room\<rparr>,
      bw_chunksize = chunksize,
      bw_next_blkaddr = 0,
      bw_dedup = (\<lambda>_. None),
      bw_saved_by_dedup = 0\<rparr>"

definition bw_total_blocks :: "'h blob_writer \<Rightarrow> u64" where
  "bw_total_blocks bw = bw_next_blkaddr bw"

definition div_ceil :: "nat \<Rightarrow> nat \<Rightarrow> nat" where
  "div_ceil a b = (if a mod b = 0 then a div b else a div b + 1)"

definition div_ceil_u64 :: "u64 \<Rightarrow> u64 \<Rightarrow> u64" where
  "div_ceil_u64 a b = (if a mod b = 0 then a div b else a div b + 1)"

text \<open>The part of the loop body that hashes a chunk and stores it or finds it.\<close>

definition store_chunk ::
  "(u8 list \<Rightarrow> 'h) \<Rightarrow> 'h blob_writer \<Rightarrow> u8 list \<Rightarrow> error + (u64 \<times> 'h blob_writer)" where
  "store_chunk hash bw chunk =
     (let to_read = length chunk;
          digest = hash chunk;
          write_len = div_ceil to_read EROFS_BLOCK_SIZE * EROFS_BLOCK_SIZE;
          nblocks = word_of_nat (write_len div EROFS_BLOCK_SIZE)
      in case bw_dedup bw digest of
           Some blkaddr \<Rightarrow>
             Inr (blkaddr, bw\<lparr>bw_saved_by_dedup := bw_saved_by_dedup bw + word_of_nat write_len\<rparr>)
         | None \<Rightarrow>
             let addr = bw_next_blkaddr bw in
             and_then (write_all chunk (bw_file bw)) (\<lambda>file.
             and_then (if write_len > to_read then write_all (replicate (write_len - to_read) 0) file
                       else Inr file) (\<lambda>file.
             Inr (addr, bw\<lparr>bw_file := file,
                           bw_next_blkaddr := bw_next_blkaddr bw + nblocks,
                           bw_dedup := (bw_dedup bw)(digest \<mapsto> addr)\<rparr>))))"

fun chunk_loop ::
  "(u8 list \<Rightarrow> 'h) \<Rightarrow> u64 \<Rightarrow> nat list \<Rightarrow> u8 list \<Rightarrow> 'h blob_writer \<Rightarrow> chunk_ref list \<Rightarrow>
     error + (chunk_ref list \<times> 'h blob_writer)" where
  \<comment> \<open>the loop over \<open>i\<close>; \<open>f\<close> is what is left to read of the file\<close>
  "chunk_loop hash file_size [] f bw indexes = Inr (indexes, bw)"
| "chunk_loop hash file_size (i # is) f bw indexes =
     (let cs = ucast (bw_chunksize bw);
          remaining = file_size - word_of_nat i * cs;
          to_read = unat (min remaining cs)
      in if length f < to_read then Inl ReadFailed
         else
           and_then (store_chunk hash bw (take to_read f)) (\<lambda>(blkaddr, bw).
           chunk_loop hash file_size is (drop to_read f) bw
             (indexes @ [\<lparr>ck_blkaddr = blkaddr, ck_device_id = 1\<rparr>])))"

definition write_file_chunks ::
  "(u8 list \<Rightarrow> 'h) \<Rightarrow> 'h blob_writer \<Rightarrow> u8 list option \<Rightarrow> u64 \<Rightarrow>
     error + (chunk_ref list \<times> 'h blob_writer)" where
  \<comment> \<open>\<open>content\<close> is what the file at \<^verbatim>\<open>path\<close> holds, \<^const>\<open>None\<close> when it cannot be opened\<close>
  "write_file_chunks hash bw content file_size =
     (if file_size = 0 then Inr ([], bw)
      else case content of
        None \<Rightarrow> Inl OpenFailed
      | Some f \<Rightarrow>
          let cs = ucast (bw_chunksize bw) in
          if cs = 0 then Inl (Panic DivisionByZero)
          else chunk_loop hash file_size [0 ..< unat (div_ceil_u64 file_size cs)] f bw [])"

subsection \<open>The interface of a content store\<close>

fun store_seq :: "('s \<Rightarrow> u8 list \<Rightarrow> error + ('a \<times> 's)) \<Rightarrow> 's \<Rightarrow> u8 list list \<Rightarrow> error + ('a list \<times> 's)" where
  "store_seq store s [] = Inr ([], s)"
| "store_seq store s (c # cs) =
     and_then (store s c) (\<lambda>(a, s).
     and_then (store_seq store s cs) (\<lambda>(as, s). Inr (a # as, s)))"

locale content_store =
  fixes store :: "'s \<Rightarrow> u8 list \<Rightarrow> error + ('a \<times> 's)"
    and fetch :: "'s \<Rightarrow> 'a \<Rightarrow> nat \<Rightarrow> u8 list option"
    and inv :: "'s \<Rightarrow> bool"
    and admissible :: "u8 list \<Rightarrow> bool"
    and good_addr :: "'a \<Rightarrow> bool"
  assumes store_law:
    "inv s \<Longrightarrow> admissible c \<Longrightarrow> store s c = Inr (a, s') \<Longrightarrow>
       inv s' \<and> good_addr a \<and> fetch s' a (length c) = Some c \<and>
       (\<forall>b n d. fetch s b n = Some d \<longrightarrow> fetch s' b n = Some d)"
begin

lemma store_seq_law:
  assumes "inv s" and "\<forall>c \<in> set cs. admissible c" and "store_seq store s cs = Inr (as, s')"
  shows "inv s' \<and> list_all2 (\<lambda>a c. good_addr a \<and> fetch s' a (length c) = Some c) as cs \<and>
    (\<forall>b n d. fetch s b n = Some d \<longrightarrow> fetch s' b n = Some d)"
  using assms
proof (induction cs arbitrary: s as)
  case Nil
  then show ?case by simp
next
  case (Cons c cs)
  from Cons.prems(3) obtain a s1 as' where a: "store s c = Inr (a, s1)"
    and rest: "store_seq store s1 cs = Inr (as', s')" and as: "as = a # as'"
    by auto
  have 1: "inv s1 \<and> good_addr a \<and> fetch s1 a (length c) = Some c \<and>
      (\<forall>b n d. fetch s b n = Some d \<longrightarrow> fetch s1 b n = Some d)"
    using Cons.prems by (intro store_law [OF _ _ a]) simp_all
  then have "inv s' \<and> list_all2 (\<lambda>a c. good_addr a \<and> fetch s' a (length c) = Some c) as' cs \<and>
      (\<forall>b n d. fetch s1 b n = Some d \<longrightarrow> fetch s' b n = Some d)"
    using Cons.prems by (intro Cons.IH [OF _ _ rest]) simp_all
  with 1 show ?case by (simp add: as)
qed

end

subsection \<open>The writer is a content store\<close>

definition blob_fetch :: "'h blob_writer \<Rightarrow> u64 \<Rightarrow> nat \<Rightarrow> u8 list option" where
  "blob_fetch bw a n =
     (if 4096 * unat a + n \<le> length (sink_data (bw_file bw))
      then Some (bytes_at (4096 * unat a) n (sink_data (bw_file bw))) else None)"

text \<open>
  The device holds at most \<open>2 ^ 60\<close> bytes, which is what a 48-bit block address reaches.
\<close>

definition blob_inv :: "(u8 list \<Rightarrow> 'h) \<Rightarrow> u8 list set \<Rightarrow> 'h blob_writer \<Rightarrow> bool" where
  "blob_inv hash C bw \<longleftrightarrow>
     inj_on hash C \<and>
     sink_capacity (bw_file bw) \<le> 2 ^ 60 \<and>
     length (sink_data (bw_file bw)) = 4096 * unat (bw_next_blkaddr bw) \<and>
     (\<forall>h a. bw_dedup bw h = Some a \<longrightarrow>
        unat a < 2 ^ 48 \<and>
        (\<exists>c \<in> C. hash c = h \<and> blob_fetch bw a (length c) = Some c))"

definition blob_admissible :: "u8 list set \<Rightarrow> u8 list \<Rightarrow> bool" where
  "blob_admissible C c \<longleftrightarrow> c \<in> C \<and> c \<noteq> []"

lemma div_ceil_mult: "0 < b \<Longrightarrow> div_ceil a b * b = a + pad_len a b"
proof -
  assume b: "0 < b"
  have a: "a div b * b + a mod b = a" by simp
  show ?thesis
  proof (cases "a mod b = 0")
    case True
    then show ?thesis using a b by (simp add: div_ceil_def pad_len_def)
  next
    case False
    then have "pad_len a b = b - a mod b" using b by (simp add: pad_len_def)
    moreover have "a mod b < b" using b by simp
    moreover have "div_ceil a b * b = a div b * b + b" using False by (simp add: div_ceil_def)
    ultimately show ?thesis using a by linarith
  qed
qed

lemma store_chunk_new:
  assumes "bw_dedup bw (hash c) = None" and "store_chunk hash bw c = Inr (a, bw')"
  shows "a = bw_next_blkaddr bw"
    and "sink_data (bw_file bw') = sink_data (bw_file bw) @ c @ replicate (pad_len (length c) 4096) 0"
    and "sink_capacity (bw_file bw') = sink_capacity (bw_file bw)"
    and "bw_next_blkaddr bw' = bw_next_blkaddr bw + word_of_nat ((length c + pad_len (length c) 4096) div 4096)"
    and "bw_dedup bw' = (bw_dedup bw)(hash c \<mapsto> bw_next_blkaddr bw)"
    and "bw_chunksize bw' = bw_chunksize bw"
  using assms
  by (auto simp: store_chunk_def Let_def div_ceil_mult dest!: write_all_Inr split: if_splits)

lemma store_chunk_found:
  assumes "bw_dedup bw (hash c) = Some b"
  shows "store_chunk hash bw c =
    Inr (b, bw\<lparr>bw_saved_by_dedup := bw_saved_by_dedup bw + word_of_nat (length c + pad_len (length c) 4096)\<rparr>)"
  using assms by (simp add: store_chunk_def div_ceil_mult Let_def)

lemma store_chunk_chunksize:
  "store_chunk hash bw c = Inr (a, bw') \<Longrightarrow> bw_chunksize bw' = bw_chunksize bw"
  using store_chunk_new(6) [of bw hash c a bw'] store_chunk_found [of bw hash c]
  by (cases "bw_dedup bw (hash c)") auto

lemma blob_fetch_grow:
  assumes "sink_data (bw_file bw') = sink_data (bw_file bw) @ x" and "blob_fetch bw a n = Some d"
  shows "blob_fetch bw' a n = Some d"
  using assms by (auto simp: blob_fetch_def bytes_at_append_left split: if_splits)

lemma store_chunk_law:
  assumes inv: "blob_inv hash C bw" and c: "blob_admissible C c"
    and st: "store_chunk hash bw c = Inr (a, bw')"
  shows "blob_inv hash C bw' \<and> unat a < 2 ^ 48 \<and> blob_fetch bw' a (length c) = Some c \<and>
    (\<forall>b n d. blob_fetch bw b n = Some d \<longrightarrow> blob_fetch bw' b n = Some d)"
proof (cases "bw_dedup bw (hash c)")
  case (Some b)
  obtain c' where c': "c' \<in> C" "hash c' = hash c" "blob_fetch bw b (length c') = Some c'" "unat b < 2 ^ 48"
    using inv Some by (fastforce simp: blob_inv_def)
  moreover have "c' = c"
    using c c' inv by (auto simp: blob_inv_def blob_admissible_def dest: inj_onD)
  moreover have "a = b" and "bw_file bw' = bw_file bw" and "bw_next_blkaddr bw' = bw_next_blkaddr bw"
    and "bw_dedup bw' = bw_dedup bw"
    using st by (auto simp: store_chunk_found [of bw hash c, OF Some])
  moreover from this have "blob_fetch bw' = blob_fetch bw"
    by (intro ext) (simp add: blob_fetch_def)
  ultimately show ?thesis
    using inv by (auto simp: blob_inv_def)
next
  case None
  note s = store_chunk_new [of bw hash c, OF None st]
  let ?k = "length c + pad_len (length c) 4096"
  have d: "4096 dvd ?k" by (rule dvd_add_pad) simp
  then obtain q where q: "?k = 4096 * q" by (rule dvdE)
  have len: "length (sink_data (bw_file bw')) = 4096 * unat (bw_next_blkaddr bw) + 4096 * q"
    using inv q by (simp add: s(2) blob_inv_def)
  moreover have "length (sink_data (bw_file bw')) \<le> 2 ^ 60"
    using inv s(3) by (simp add: blob_inv_def sink_capacity_def)
  ultimately have small: "unat (bw_next_blkaddr bw) + q \<le> 2 ^ 48" by simp
  have "q \<noteq> 0" using q c by (intro notI) (simp add: blob_admissible_def)
  then have lt: "unat (bw_next_blkaddr bw) < 2 ^ 48" using small by simp
  have "unat (bw_next_blkaddr bw') = unat (bw_next_blkaddr bw) + q"
    using small by (simp add: s(4) q unat_word_ariths unat_of_nat)
  then have next_len: "length (sink_data (bw_file bw')) = 4096 * unat (bw_next_blkaddr bw')"
    using len by simp
  have grow: "blob_fetch bw' b n = Some d" if "blob_fetch bw b n = Some d" for b n d
    using s(2) that by (rule blob_fetch_grow)
  have new: "blob_fetch bw' a (length c) = Some c"
    using inv by (simp add: s(1,2) blob_fetch_def blob_inv_def bytes_at_append_exact)
  have "\<forall>h b. bw_dedup bw' h = Some b \<longrightarrow>
      unat b < 2 ^ 48 \<and> (\<exists>d \<in> C. hash d = h \<and> blob_fetch bw' b (length d) = Some d)"
    using inv c new lt s(1) grow unfolding s(5) blob_inv_def blob_admissible_def
    by (auto split: if_splits) (metis grow)+
  then have "blob_inv hash C bw'"
    using inv s(3) next_len by (simp add: blob_inv_def)
  then show ?thesis
    using new grow lt s(1) by blast
qed

interpretation blob_store:
  content_store "store_chunk hash" blob_fetch "blob_inv hash C" "blob_admissible C" "\<lambda>a. unat a < 2 ^ 48"
  for hash :: "u8 list \<Rightarrow> 'h" and C
  by unfold_locales (rule store_chunk_law)

subsection \<open>A file as a sequence of chunks\<close>

function split_chunks :: "nat \<Rightarrow> 'a list \<Rightarrow> 'a list list" where
  "split_chunks n xs = (if n = 0 \<or> xs = [] then [] else take n xs # split_chunks n (drop n xs))"
  by pat_completeness auto
termination
  by (relation "measure (\<lambda>(n, xs). length xs)") auto

declare split_chunks.simps [simp del]

lemma split_chunks_Nil [simp]: "split_chunks n [] = []"
  by (simp add: split_chunks.simps)

lemma concat_split_chunks: "0 < n \<Longrightarrow> concat (split_chunks n xs) = xs"
  by (induction n xs rule: split_chunks.induct) (subst split_chunks.simps, auto)

lemma split_chunks_ne: "c \<in> set (split_chunks n xs) \<Longrightarrow> c \<noteq> [] \<and> length c \<le> n"
proof (induction n xs rule: split_chunks.induct)
  case (1 n xs)
  then show ?case by (cases "n = 0 \<or> xs = []") (auto simp: split_chunks.simps [of n xs])
qed

lemma length_split_chunks: "0 < n \<Longrightarrow> length (split_chunks n xs) = div_ceil (length xs) n"
proof (induction n xs rule: split_chunks.induct)
  case (1 n xs)
  show ?case
  proof (cases "xs = []")
    case True
    then show ?thesis by (simp add: div_ceil_def)
  next
    case False
    have IH: "length (split_chunks n (drop n xs)) = div_ceil (length xs - n) n"
      using 1 False by simp
    show ?thesis
    proof (cases "n \<le> length xs")
      case True
      then show ?thesis
        using IH False "1.prems" by (subst split_chunks.simps) (auto simp: div_ceil_def le_div_geq le_mod_geq)
    next
      case small: False
      then show ?thesis
        using IH False "1.prems" by (subst split_chunks.simps) (auto simp: div_ceil_def)
    qed
  qed
qed

lemma nth_split_chunks:
  "0 < n \<Longrightarrow> i < length (split_chunks n xs) \<Longrightarrow> split_chunks n xs ! i = bytes_at (i * n) n xs"
proof (induction n xs arbitrary: i rule: split_chunks.induct)
  case (1 n xs)
  have ne: "xs \<noteq> []" using "1.prems" by auto
  show ?case
  proof (cases i)
    case 0
    then show ?thesis using ne "1.prems" by (subst split_chunks.simps) simp
  next
    case (Suc j)
    then have "split_chunks n (drop n xs) ! j = bytes_at (j * n) n (drop n xs)"
      using ne "1.prems" by (intro "1.IH") (auto simp: split_chunks.simps [of n xs])
    then show ?thesis
      using ne "1.prems" Suc by (subst split_chunks.simps) (simp add: bytes_at_def add.commute)
  qed
qed

lemma unat_div_ceil_u64: "unat (div_ceil_u64 a b) = div_ceil (unat a) (unat b)"
proof (cases "unat a mod unat b = 0")
  case True
  then have "a mod b = 0" by (simp add: word_unat_eq_iff unat_mod)
  then show ?thesis using True by (simp add: div_ceil_u64_def div_ceil_def unat_div)
next
  case False
  then have "a mod b \<noteq> 0" by (metis unat_0 unat_mod)
  moreover have "unat b \<noteq> 1" using False by auto
  then have "unat a div unat b \<le> unat a div 2 \<or> unat b = 0"
    by (cases "unat b \<ge> 2") (auto intro: div_le_mono2)
  then have "unat a div unat b + 1 < 2 ^ 64"
    using unat_lt [of a] by auto
  ultimately show ?thesis
    using False by (simp add: div_ceil_u64_def div_ceil_def unat_word_ariths)
qed

lemma div_ceil_bounds:
  assumes "0 < b"
  shows "a \<le> div_ceil a b * b" and "i < div_ceil a b \<longleftrightarrow> i * b < a"
proof -
  have eq: "div_ceil a b * b = a + pad_len a b" using assms by (rule div_ceil_mult)
  then show "a \<le> div_ceil a b * b" by simp
  have "pad_len a b < b" using assms by (rule pad_len_less)
  then have up: "div_ceil a b * b < a + b" using eq by simp
  show "i < div_ceil a b \<longleftrightarrow> i * b < a"
  proof
    assume "i < div_ceil a b"
    then have "(i + 1) * b \<le> div_ceil a b * b" by (intro mult_le_mono1) simp
    then show "i * b < a" using up by simp
  next
    assume "i * b < a"
    then have "i * b < div_ceil a b * b" using eq by simp
    then show "i < div_ceil a b" by simp
  qed
qed

lemma unat_min: "unat (min a b) = min (unat a) (unat b)"
  by (simp add: min_def word_le_nat_alt)

lemma unat_remaining:
  assumes "i * unat cs \<le> unat fs"
  shows "unat (fs - word_of_nat i * cs) = unat fs - i * unat (cs :: u64)"
proof -
  have lt: "i * unat cs < 2 ^ 64" using assms unat_lt [of fs] by simp
  have "word_of_nat i * cs = word_of_nat (i * unat cs)" by simp
  then have "unat (word_of_nat i * cs) = i * unat cs"
    using lt by (simp add: unat_of_nat del: of_nat_mult)
  then show ?thesis
    using assms by (simp add: unat_sub word_le_nat_alt)
qed

lemma split_chunks_step:
  assumes "0 < cs" and "0 < r" and "r \<le> length f"
  shows "split_chunks cs (take r f) =
    take (min r cs) f # split_chunks cs (take (r - cs) (drop (min r cs) f))"
proof -
  have "take cs (take r f) = take (min r cs) f" by (simp add: min.commute)
  moreover have "drop cs (take r f) = take (r - cs) (drop (min r cs) f)"
    by (simp add: drop_take min_def)
  moreover have "take r f \<noteq> []" using assms by auto
  ultimately show ?thesis
    using assms(1) by (simp only: split_chunks.simps [of cs "take r f"]) simp
qed

definition device_refs :: "u64 list \<Rightarrow> chunk_ref list" where
  "device_refs as = map (\<lambda>a. \<lparr>ck_blkaddr = a, ck_device_id = 1\<rparr>) as"

lemma device_refs_simps [simp]:
  "device_refs [] = []" "device_refs (a # as) = \<lparr>ck_blkaddr = a, ck_device_id = 1\<rparr> # device_refs as"
  "length (device_refs as) = length as"
  by (simp_all add: device_refs_def)

lemma chunk_loop_eq:
  assumes "unat (bw_chunksize bw) = cs" and "0 < cs" and "m = div_ceil (unat fs) cs" and "i \<le> m"
    and "unat fs - i * cs \<le> length f"
  shows "chunk_loop hash fs [i ..< m] f bw indexes =
    and_then (store_seq (store_chunk hash) bw (split_chunks cs (take (unat fs - i * cs) f)))
      (\<lambda>(as, bw'). Inr (indexes @ device_refs as, bw'))"
  using assms
proof (induction "m - i" arbitrary: i f bw indexes)
  case 0
  then have "unat fs \<le> i * cs" using div_ceil_bounds(1) [of cs "unat fs"] by simp
  then show ?case using 0 by simp
next
  case (Suc n)
  then have i: "i < m" by arith
  then have lt: "i * cs < unat fs" using Suc.prems div_ceil_bounds(2) by blast
  let ?r = "unat fs - i * cs"
  have ucs: "unat (ucast (bw_chunksize bw) :: u64) = cs"
    using Suc.prems(1) by simp
  have to_read: "unat (min (fs - word_of_nat i * ucast (bw_chunksize bw)) (ucast (bw_chunksize bw))) = min ?r cs"
    using lt Suc.prems(1) by (simp add: unat_min unat_remaining)
  have up: "[i ..< m] = i # [Suc i ..< m]" using i by (rule upt_conv_Cons)
  have sc: "split_chunks cs (take ?r f) =
      take (min ?r cs) f # split_chunks cs (take (unat fs - Suc i * cs) (drop (min ?r cs) f))"
    using lt Suc.prems(2,5) split_chunks_step [of cs ?r f] by (simp add: diff_diff_left add.commute)
  have IH: "chunk_loop hash fs [Suc i ..< m] (drop (min ?r cs) f) bw1 ind =
      and_then (store_seq (store_chunk hash) bw1 (split_chunks cs (take (unat fs - Suc i * cs) (drop (min ?r cs) f))))
        (\<lambda>(as, bw'). Inr (ind @ device_refs as, bw'))" if "bw_chunksize bw1 = bw_chunksize bw" for bw1 ind
    using Suc.hyps(2) Suc.prems i that by (intro Suc.hyps(1)) (auto simp: min_def)
  show ?case
  proof (cases "store_chunk hash bw (take (min ?r cs) f)")
    case (Inl e)
    then show ?thesis using Suc.prems(5) by (simp add: up sc Let_def to_read)
  next
    case (Inr r)
    obtain a bw1 where r: "r = (a, bw1)" by (cases r)
    have "bw_chunksize bw1 = bw_chunksize bw"
      using Inr r store_chunk_chunksize by simp
    note IH [OF this]
    then show ?thesis
      using Suc.prems(5) Inr r
      by (simp add: up sc Let_def to_read)
        (auto simp: and_then_def split: sum.split)
  qed
qed

lemma write_file_chunks_eq:
  assumes "0 < bw_chunksize bw" and "unat fs \<le> length f"
  shows "write_file_chunks hash bw (Some f) fs =
    and_then (store_seq (store_chunk hash) bw (split_chunks (unat (bw_chunksize bw)) (take (unat fs) f)))
      (\<lambda>(as, bw'). Inr (device_refs as, bw'))"
proof -
  have ucs: "unat (ucast (bw_chunksize bw) :: u64) = unat (bw_chunksize bw)"
    by simp
  have pos: "0 < unat (bw_chunksize bw)" using assms(1) by (simp add: word_less_nat_alt)
  then have "(ucast (bw_chunksize bw) :: u64) \<noteq> 0" using ucs by (metis less_irrefl unat_0)
  then show ?thesis
    using chunk_loop_eq [OF refl pos refl, of 0 fs f hash "[]"] assms(2)
    by (auto simp: write_file_chunks_def Let_def unat_div_ceil_u64 ucs)
qed

subsection \<open>A stored file\<close>

lemma chunk_loop_enough:
  assumes "unat (bw_chunksize bw) = cs" and "0 < cs" and "m = div_ceil (unat fs) cs" and "i \<le> m"
    and "chunk_loop hash fs [i ..< m] f bw indexes = Inr r"
  shows "unat fs - i * cs \<le> length f"
  using assms
proof (induction "m - i" arbitrary: i f bw indexes)
  case 0
  then show ?case using div_ceil_bounds(1) [of cs "unat fs"] by simp
next
  case (Suc n)
  then have i: "i < m" by arith
  then have lt: "i * cs < unat fs" using Suc.prems div_ceil_bounds(2) by blast
  let ?r = "unat fs - i * cs"
  have to_read: "unat (min (fs - word_of_nat i * ucast (bw_chunksize bw)) (ucast (bw_chunksize bw))) = min ?r cs"
    using lt Suc.prems(1) by (simp add: unat_min unat_remaining)
  have up: "[i ..< m] = i # [Suc i ..< m]" using i by (rule upt_conv_Cons)
  obtain a bw1 where st: "store_chunk hash bw (take (min ?r cs) f) = Inr (a, bw1)"
    and enough: "min ?r cs \<le> length f"
    and rest: "chunk_loop hash fs [Suc i ..< m] (drop (min ?r cs) f) bw1
      (indexes @ [\<lparr>ck_blkaddr = a, ck_device_id = 1\<rparr>]) = Inr r"
    using Suc.prems(5) by (auto simp: up Let_def to_read split: if_splits)
  have "bw_chunksize bw1 = bw_chunksize bw" using st by (rule store_chunk_chunksize)
  then have "unat fs - Suc i * cs \<le> length (drop (min ?r cs) f)"
    using Suc.hyps(2) Suc.prems i rest by (intro Suc.hyps(1)) auto
  then show ?case using enough lt by (auto simp: min_def split: if_splits)
qed

definition file_stored :: "(u64 \<Rightarrow> nat \<Rightarrow> u8 list option) \<Rightarrow> nat \<Rightarrow> chunk_ref list \<Rightarrow> u8 list \<Rightarrow> bool" where
  \<comment> \<open>the references name, in order, the chunks of the content\<close>
  "file_stored fetch cs refs content \<longleftrightarrow>
     list_all2 (\<lambda>ck c. ck_device_id ck = 1 \<and> unat (ck_blkaddr ck) < 2 ^ 48 \<and>
       fetch (ck_blkaddr ck) (length c) = Some c) refs (split_chunks cs content)"

definition fetch_grows :: "(u64 \<Rightarrow> nat \<Rightarrow> u8 list option) \<Rightarrow> (u64 \<Rightarrow> nat \<Rightarrow> u8 list option) \<Rightarrow> bool" where
  "fetch_grows f g \<longleftrightarrow> (\<forall>a n d. f a n = Some d \<longrightarrow> g a n = Some d)"

lemma fetch_grows_refl [simp]: "fetch_grows f f"
  by (simp add: fetch_grows_def)

lemma fetch_grows_trans: "fetch_grows f g \<Longrightarrow> fetch_grows g h \<Longrightarrow> fetch_grows f h"
  by (simp add: fetch_grows_def)

lemma file_stored_grows: "fetch_grows f g \<Longrightarrow> file_stored f cs refs c \<Longrightarrow> file_stored g cs refs c"
  unfolding file_stored_def fetch_grows_def by (erule list_all2_mono) blast

lemma store_seq_chunksize:
  "store_seq (store_chunk hash) bw cs = Inr (as, bw') \<Longrightarrow> bw_chunksize bw' = bw_chunksize bw"
proof (induction cs arbitrary: bw as)
  case (Cons c cs)
  from Cons.prems obtain a bw1 as' where "store_chunk hash bw c = Inr (a, bw1)"
    and "store_seq (store_chunk hash) bw1 cs = Inr (as', bw')" by auto
  then show ?case using Cons.IH store_chunk_chunksize by metis
qed simp

lemma write_file_chunks_stored:
  assumes inv: "blob_inv hash C bw" and pos: "0 < bw_chunksize bw"
    and run: "write_file_chunks hash bw content fs = Inr (refs, bw')"
    and known: "\<And>f. content = Some f \<Longrightarrow> set (split_chunks (unat (bw_chunksize bw)) (take (unat fs) f)) \<subseteq> C"
  shows "blob_inv hash C bw' \<and> bw_chunksize bw' = bw_chunksize bw \<and>
    fetch_grows (blob_fetch bw) (blob_fetch bw') \<and>
    (fs = 0 \<or> (\<exists>f. content = Some f \<and> unat fs \<le> length f)) \<and>
    file_stored (blob_fetch bw') (unat (bw_chunksize bw)) refs
      (take (unat fs) (case content of Some f \<Rightarrow> f | None \<Rightarrow> []))"
proof (cases "fs = 0")
  case True
  then show ?thesis using inv run by (simp add: write_file_chunks_def file_stored_def)
next
  case False
  let ?cs = "unat (bw_chunksize bw)"
  have cs: "0 < ?cs" using pos by (simp add: word_less_nat_alt)
  have ucs: "unat (ucast (bw_chunksize bw) :: u64) = ?cs" by simp
  then have ne: "(ucast (bw_chunksize bw) :: u64) \<noteq> 0" using cs by (metis less_irrefl unat_0)
  obtain f where f: "content = Some f"
    using run False by (cases content) (simp_all add: write_file_chunks_def)
  have "chunk_loop hash fs [0 ..< div_ceil (unat fs) ?cs] f bw [] = Inr (refs, bw')"
    using run False ne by (simp add: write_file_chunks_def f Let_def unat_div_ceil_u64 ucs split: if_splits)
  from chunk_loop_enough [OF refl cs refl _ this] have le: "unat fs \<le> length f" by simp
  obtain as where st: "store_seq (store_chunk hash) bw (split_chunks ?cs (take (unat fs) f)) = Inr (as, bw')"
    and refs: "refs = device_refs as"
    using run write_file_chunks_eq [OF pos le, of hash] by (auto simp: f)
  have "\<forall>c \<in> set (split_chunks ?cs (take (unat fs) f)). blob_admissible C c"
    using known [OF f] split_chunks_ne by (fastforce simp: blob_admissible_def)
  from blob_store.store_seq_law [OF inv this st]
  have "blob_inv hash C bw' \<and> fetch_grows (blob_fetch bw) (blob_fetch bw') \<and>
      file_stored (blob_fetch bw') ?cs refs (take (unat fs) f)"
    by (simp add: fetch_grows_def file_stored_def refs device_refs_def list_all2_map1)
  then show ?thesis
    using f le store_seq_chunksize [OF st] by simp
qed

subsection \<open>Storing the same content again\<close>

lemma store_chunk_dedup:
  assumes "store_chunk hash bw c = Inr (a, bw')"
  shows "bw_dedup bw' (hash c) = Some a \<and> (\<forall>h b. bw_dedup bw h = Some b \<longrightarrow> bw_dedup bw' h = Some b)"
proof (cases "bw_dedup bw (hash c)")
  case None
  then show ?thesis using store_chunk_new [of bw hash c a bw'] assms by auto
next
  case (Some b)
  then show ?thesis using store_chunk_found [of bw hash c b] assms by auto
qed

lemma store_seq_dedup:
  "store_seq (store_chunk hash) bw cs = Inr (as, bw') \<Longrightarrow>
     list_all2 (\<lambda>c a. bw_dedup bw' (hash c) = Some a) cs as \<and>
     (\<forall>h b. bw_dedup bw h = Some b \<longrightarrow> bw_dedup bw' h = Some b)"
proof (induction cs arbitrary: bw as)
  case (Cons c cs)
  from Cons.prems obtain a bw1 as' where st: "store_chunk hash bw c = Inr (a, bw1)"
    and rest: "store_seq (store_chunk hash) bw1 cs = Inr (as', bw')" and as: "as = a # as'" by auto
  show ?case using Cons.IH [OF rest] store_chunk_dedup [OF st] by (auto simp: as)
qed simp

lemma store_seq_again:
  "list_all2 (\<lambda>c a. bw_dedup bw (hash c) = Some a) cs as \<Longrightarrow>
     \<exists>n. store_seq (store_chunk hash) bw cs = Inr (as, bw\<lparr>bw_saved_by_dedup := n\<rparr>)"
proof (induction cs arbitrary: bw as)
  case Nil
  then show ?case by (intro exI [of _ "bw_saved_by_dedup bw"]) simp
next
  case (Cons c cs)
  then obtain a as' where as: "as = a # as'" "bw_dedup bw (hash c) = Some a"
    "list_all2 (\<lambda>c a. bw_dedup bw (hash c) = Some a) cs as'" by (auto simp: list_all2_Cons1)
  let ?bw1 = "bw\<lparr>bw_saved_by_dedup := bw_saved_by_dedup bw + word_of_nat (length c + pad_len (length c) 4096)\<rparr>"
  have "list_all2 (\<lambda>c a. bw_dedup ?bw1 (hash c) = Some a) cs as'" using as(3) by simp
  from Cons.IH [OF this] obtain n where "store_seq (store_chunk hash) ?bw1 cs = Inr (as', bw\<lparr>bw_saved_by_dedup := n\<rparr>)"
    by auto
  then show ?case by (intro exI [of _ n]) (simp add: as(1) store_chunk_found [of _ hash, OF as(2)])
qed

lemma write_file_enough:
  assumes "0 < bw_chunksize bw" and "write_file_chunks hash bw (Some f) fs = Inr r" and "fs \<noteq> 0"
  shows "unat fs \<le> length f"
proof -
  have ucs: "unat (ucast (bw_chunksize bw) :: u64) = unat (bw_chunksize bw)" by simp
  have pos: "0 < unat (bw_chunksize bw)" using assms(1) by (simp add: word_less_nat_alt)
  then have "(ucast (bw_chunksize bw) :: u64) \<noteq> 0" using ucs by (metis less_irrefl unat_0)
  then show ?thesis
    using assms(2,3) chunk_loop_enough [OF refl pos refl, of 0 fs hash f "[]" r]
    by (simp add: write_file_chunks_def Let_def unat_div_ceil_u64)
qed

subsection \<open>Properties\<close>

text \<open>Files are stored once. When a file has been written to the blob, writing the same content
  again succeeds, whatever the room left on the device, gives the same chunk references and changes
  neither the blob nor the next free block.\<close>

lemma same_file_stored_once:
  assumes "0 < bw_chunksize bw" and "write_file_chunks hash bw (Some f) fs = Inr (refs, bw1)"
  shows "\<exists>n. write_file_chunks hash bw1 (Some f) fs = Inr (refs, bw1\<lparr>bw_saved_by_dedup := n\<rparr>)"
proof (cases "fs = 0")
  case True
  then show ?thesis
    using assms(2) by (intro exI [of _ "bw_saved_by_dedup bw1"]) (simp add: write_file_chunks_def)
next
  case False
  let ?cs = "split_chunks (unat (bw_chunksize bw)) (take (unat fs) f)"
  have le: "unat fs \<le> length f" by (rule write_file_enough [OF assms False])
  obtain as where as: "store_seq (store_chunk hash) bw ?cs = Inr (as, bw1)" "refs = device_refs as"
    using assms(2) by (auto simp: write_file_chunks_eq [OF assms(1) le])
  have same: "bw_chunksize bw1 = bw_chunksize bw" using as(1) by (rule store_seq_chunksize)
  obtain n where "store_seq (store_chunk hash) bw1 ?cs = Inr (as, bw1\<lparr>bw_saved_by_dedup := n\<rparr>)"
    using store_seq_again [of bw1 hash ?cs as] store_seq_dedup [OF as(1)] by blast
  moreover have "0 < bw_chunksize bw1" using assms(1) same by simp
  ultimately have "write_file_chunks hash bw1 (Some f) fs = Inr (refs, bw1\<lparr>bw_saved_by_dedup := n\<rparr>)"
    by (simp add: write_file_chunks_eq [OF _ le] same as(2))
  then show ?thesis ..
qed

text \<open>C24: What is written to the blob stays readable. With a hash that has no collision among the
  chunks, writing a file and then another leaves both retrievable from the blob, chunk by chunk,
  through the references that were returned.\<close>

theorem stored_files_stay:
  assumes "blob_inv hash C bw" and "0 < bw_chunksize bw"
    and "set (split_chunks (unat (bw_chunksize bw)) (take (unat fs1) f1)) \<subseteq> C"
    and "set (split_chunks (unat (bw_chunksize bw)) (take (unat fs2) f2)) \<subseteq> C"
    and "write_file_chunks hash bw (Some f1) fs1 = Inr (refs1, bw1)"
    and "write_file_chunks hash bw1 (Some f2) fs2 = Inr (refs2, bw2)"
  shows "file_stored (blob_fetch bw2) (unat (bw_chunksize bw)) refs1 (take (unat fs1) f1) \<and>
    file_stored (blob_fetch bw2) (unat (bw_chunksize bw)) refs2 (take (unat fs2) f2) \<and> blob_inv hash C bw2"
proof -
  have s1: "blob_inv hash C bw1 \<and> bw_chunksize bw1 = bw_chunksize bw \<and>
      file_stored (blob_fetch bw1) (unat (bw_chunksize bw)) refs1 (take (unat fs1) f1)"
    using write_file_chunks_stored [OF assms(1,2,5)] assms(3) by simp
  have "blob_inv hash C bw2 \<and> fetch_grows (blob_fetch bw1) (blob_fetch bw2) \<and>
      file_stored (blob_fetch bw2) (unat (bw_chunksize bw)) refs2 (take (unat fs2) f2)"
    using write_file_chunks_stored [of hash C bw1, OF _ _ assms(6)] s1 assms(2,4) by simp
  then show ?thesis using s1 file_stored_grows by blast
qed

end
