(* ===== verification/Build_Inode.thy ===== *)
theory Build_Inode
  imports Inode_Format Chunk_Format Blob_Writer
begin

text \<open>
  The serialisation half of \<^verbatim>\<open>src/build/inode.rs\<close>: the in-memory inode, its metadata size, and
  \<open>serialize_inode\<close> with the writer of the inline attribute area. Writes go into a zeroed buffer at
  computed offsets and panic when out of range; \<open>inode_image\<close> is the closed form of the result.
\<close>

unbundle bit_operations_syntax

record dir_entry =
  dn_name :: "u8 list"
  dn_file_type :: u8
  dn_inode_idx :: nat

datatype inode_data =
    RegularFile "chunk_ref list"
  | Directory "dir_entry list" u64 nat u64 \<comment> \<open>children, startblk, \<^verbatim>\<open>dir_data_size\<close>, \<^verbatim>\<open>parent_nid\<close>\<close>
  | Symlink "u8 list"
  | SpecialDev u32
  | SpecialNoData

record inode_info =
  ii_mode :: u16
  ii_uid :: u32
  ii_gid :: u32
  ii_size :: u64
  ii_mtime :: u64
  ii_mtime_nsec :: u32
  ii_nlink :: u32
  ii_ino :: u32
  ii_nid :: u64
  ii_meta_offset :: nat
  ii_is_extended :: bool
  ii_data :: inode_data
  ii_xattrs :: "xattr list"

definition inode_base :: "inode_info \<Rightarrow> nat" where
  "inode_base inode =
     (if ii_is_extended inode then EROFS_INODE_EXTENDED_SIZE else EROFS_INODE_COMPACT_SIZE)"

definition inode_meta_size :: "inode_info \<Rightarrow> nat" where
  "inode_meta_size inode =
     (let base = inode_base inode;
          xattr_size = xattr_ibody_size (ii_xattrs inode)
      in case ii_data inode of
           RegularFile chunk_indexes \<Rightarrow>
             if chunk_indexes = [] then base + xattr_size
             else base + xattr_size + length chunk_indexes * EROFS_CHUNK_INDEX_SIZE
         | Directory _ _ _ _ \<Rightarrow> base + xattr_size
         | Symlink target \<Rightarrow> base + xattr_size + length target
         | SpecialDev _ \<Rightarrow> base + xattr_size
         | SpecialNoData \<Rightarrow> base + xattr_size)"

definition chunk_format :: "u32 \<Rightarrow> u32 \<Rightarrow> u16" where
  "chunk_format chunkbits blkszbits = EROFS_CHUNK_FORMAT_INDEXES OR ucast (chunkbits - blkszbits)"

subsection \<open>The attribute area\<close>

fun write_xattrs :: "xattr list \<Rightarrow> nat \<Rightarrow> u8 list \<Rightarrow> error + u8 list" where
  "write_xattrs [] pos buf = Inr buf"
| "write_xattrs ((index, suffix, val) # xs) pos buf =
     and_then (copy_at pos [word_of_nat (length suffix)] buf) (\<lambda>buf.
     and_then (copy_at (pos + 1) [index] buf) (\<lambda>buf.
     and_then (copy_at (pos + 2) (set_u16 (word_of_nat (length val))) buf) (\<lambda>buf.
     let name_start = pos + EROFS_XATTR_ENTRY_HEADER_SIZE in
     and_then (copy_at name_start suffix buf) (\<lambda>buf.
     let value_start = name_start + length suffix in
     and_then (copy_at value_start val buf) (\<lambda>buf.
     write_xattrs xs (pos + round_up (xattr_entry_size (index, suffix, val)) 4) buf)))))"

definition serialize_xattrs :: "u8 list \<Rightarrow> nat \<Rightarrow> xattr list \<Rightarrow> error + (u8 list \<times> nat)" where
  \<comment> \<open>the buffer after the writes and the number of bytes written\<close>
  "serialize_xattrs buf offset xattrs =
     (if xattrs = [] then Inr (buf, 0)
      else and_then (write_xattrs xattrs (offset + EROFS_XATTR_IBODY_HEADER_SIZE) buf) (\<lambda>buf.
           Inr (buf, xattr_ibody_size xattrs)))"

definition xattr_entry_bytes :: "xattr \<Rightarrow> u8 list" where
  "xattr_entry_bytes = (\<lambda>(index, suffix, val).
     [word_of_nat (length suffix), index] @ set_u16 (word_of_nat (length val)) @ suffix @ val @
     replicate (pad_len (xattr_entry_size (index, suffix, val)) 4) 0)"

definition xattr_area :: "xattr list \<Rightarrow> u8 list" where
  "xattr_area xs = (if xs = [] then [] else replicate 12 0 @ concat (map xattr_entry_bytes xs))"

lemma length_xattr_entry_bytes [simp]: "length (xattr_entry_bytes x) = entry_span x"
  by (cases x) (simp add: xattr_entry_bytes_def entry_span_def xattr_entry_size_def)

lemma length_xattr_entries: "length (concat (map xattr_entry_bytes xs)) = sum_list (map entry_span xs)"
  by (simp add: length_concat comp_def)

lemma length_xattr_area:
  "\<forall>x \<in> set xs. xattr_small x \<Longrightarrow> length (xattr_area xs) = xattr_ibody_size xs"
  by (simp add: xattr_area_def xattr_ibody_size_eq length_xattr_entries)

lemma write_xattrs_image:
  assumes "\<forall>x \<in> set xs. xattr_small x"
  shows "write_xattrs xs (length p) (p @ replicate (sum_list (map entry_span xs)) 0 @ r) =
    Inr (p @ concat (map xattr_entry_bytes xs) @ r)"
  using assms
proof (induction xs arbitrary: p)
  case Nil
  then show ?case by simp
next
  case (Cons x xs)
  obtain index suffix val where x: "x = (index, suffix, val)" by (rule prod_cases3)
  let ?k = "pad_len (xattr_entry_size x) 4"
  let ?rest = "replicate (sum_list (map entry_span xs)) 0 @ r"
  let ?b1 = "[word_of_nat (length suffix)] :: u8 list" and ?bv = "set_u16 (word_of_nat (length val))"
  have z: "replicate (sum_list (map entry_span (x # xs))) (0 :: u8) =
      [0] @ [0] @ replicate 2 0 @ replicate (length suffix) 0 @ replicate (length val) 0 @
      replicate ?k 0 @ replicate (sum_list (map entry_span xs)) 0"
    by (simp add: x entry_span_def xattr_entry_size_def numeral_eq_Suc flip: replicate_add)
  have 1: "copy_at (length p) ?b1
      (p @ [0] @ [0] @ replicate 2 0 @ replicate (length suffix) 0 @ replicate (length val) 0 @ replicate ?k 0 @ ?rest) =
      Inr (p @ ?b1 @ [0] @ replicate 2 0 @ replicate (length suffix) 0 @ replicate (length val) 0 @ replicate ?k 0 @ ?rest)"
    by (rule copy_at_append) simp_all
  have 2: "copy_at (length p + 1) [index]
      ((p @ ?b1) @ [0] @ replicate 2 0 @ replicate (length suffix) 0 @ replicate (length val) 0 @ replicate ?k 0 @ ?rest) =
      Inr ((p @ ?b1) @ [index] @ replicate 2 0 @ replicate (length suffix) 0 @ replicate (length val) 0 @ replicate ?k 0 @ ?rest)"
    by (rule copy_at_append) simp_all
  have 3: "copy_at (length p + 2) ?bv
      ((p @ ?b1 @ [index]) @ replicate 2 0 @ replicate (length suffix) 0 @ replicate (length val) 0 @ replicate ?k 0 @ ?rest) =
      Inr ((p @ ?b1 @ [index]) @ ?bv @ replicate (length suffix) 0 @ replicate (length val) 0 @ replicate ?k 0 @ ?rest)"
    by (rule copy_at_append) simp_all
  have 4: "copy_at (length p + 4) suffix
      ((p @ ?b1 @ [index] @ ?bv) @ replicate (length suffix) 0 @ replicate (length val) 0 @ replicate ?k 0 @ ?rest) =
      Inr ((p @ ?b1 @ [index] @ ?bv) @ suffix @ replicate (length val) 0 @ replicate ?k 0 @ ?rest)"
    by (rule copy_at_append) simp_all
  have 5: "copy_at (length p + 4 + length suffix) val
      ((p @ ?b1 @ [index] @ ?bv @ suffix) @ replicate (length val) 0 @ replicate ?k 0 @ ?rest) =
      Inr ((p @ ?b1 @ [index] @ ?bv @ suffix) @ val @ replicate ?k 0 @ ?rest)"
    by (rule copy_at_append) simp_all
  have "write_xattrs xs (length p + entry_span x) (p @ xattr_entry_bytes x @ ?rest) =
      Inr (p @ xattr_entry_bytes x @ concat (map xattr_entry_bytes xs) @ r)"
    using Cons.IH [of "p @ xattr_entry_bytes x"] Cons.prems by simp
  moreover have eb: "xattr_entry_bytes (index, suffix, val) = ?b1 @ [index] @ ?bv @ suffix @ val @ replicate ?k 0"
    by (simp add: xattr_entry_bytes_def x)
  moreover have "round_up (xattr_entry_size (index, suffix, val)) 4 = entry_span (index, suffix, val)"
    using Cons.prems by (simp add: round_up_entry x)
  ultimately show ?case
    using 1 2 3 4 5 unfolding z by (simp add: x add.assoc)
qed

lemma serialize_xattrs_image:
  assumes "\<forall>x \<in> set xs. xattr_small x" and "length h = offset"
  shows "serialize_xattrs (h @ replicate (xattr_ibody_size xs) 0 @ r) offset xs =
    Inr (h @ xattr_area xs @ r, xattr_ibody_size xs)"
proof (cases "xs = []")
  case True
  then show ?thesis by (simp add: serialize_xattrs_def xattr_area_def xattr_ibody_size_def)
next
  case False
  have "write_xattrs xs (length (h @ replicate 12 0))
      ((h @ replicate 12 0) @ replicate (sum_list (map entry_span xs)) 0 @ r) =
      Inr ((h @ replicate 12 0) @ concat (map xattr_entry_bytes xs) @ r)"
    using assms(1) by (rule write_xattrs_image)
  then show ?thesis
    using False assms
    by (simp add: serialize_xattrs_def xattr_area_def xattr_ibody_size_eq replicate_add)
qed

subsection \<open>Serialising an inode\<close>

definition write_inode_header ::
  "inode_info \<Rightarrow> u64 \<Rightarrow> u16 \<Rightarrow> bool \<Rightarrow> u16 \<Rightarrow> u64 \<Rightarrow> u32 \<Rightarrow> u8 list \<Rightarrow> error + u8 list" where
  \<comment> \<open>the header and the attributes, as each branch of \<^verbatim>\<open>serialize_inode\<close> writes them\<close>
  "write_inode_header inode epoch datalayout nlink_1 nb sz i_u buf =
     (if ii_is_extended inode then
        let i_format = extended_i_format datalayout;
            hdr = inode_extended_new i_format (ii_mode inode) nb sz i_u
                    (ii_ino inode) (ii_uid inode) (ii_gid inode)
                    (ii_mtime inode) (ii_mtime_nsec inode) (ii_nlink inode)
        in and_then (copy_at 0 (inode_extended_as_bytes hdr) buf) (\<lambda>buf.
           and_then (serialize_xattrs buf EROFS_INODE_EXTENDED_SIZE (ii_xattrs inode)) (\<lambda>(buf, _).
           Inr buf))
      else
        let i_format = compact_i_format datalayout nlink_1;
            i_mtime = ucast (ii_mtime inode - epoch);
            hdr = inode_compact_new i_format (ii_mode inode) nb (ucast sz) i_mtime i_u
                    (ii_ino inode) (ucast (ii_uid inode)) (ucast (ii_gid inode))
        in and_then (copy_at 0 (inode_compact_as_bytes hdr) buf) (\<lambda>buf.
           and_then (serialize_xattrs buf EROFS_INODE_COMPACT_SIZE (ii_xattrs inode)) (\<lambda>(buf, _).
           Inr buf)))"

fun write_chunk_indexes :: "nat \<Rightarrow> chunk_ref list \<Rightarrow> nat \<Rightarrow> u8 list \<Rightarrow> error + u8 list" where
  \<comment> \<open>the loop over \<^verbatim>\<open>chunk_indexes.iter().enumerate()\<close>, from index \<open>i\<close> on\<close>
  "write_chunk_indexes extent_offset [] i buf = Inr buf"
| "write_chunk_indexes extent_offset (ci # cis) i buf =
     (let idx = chunk_index_new (ck_blkaddr ci) (ck_device_id ci);
          off = extent_offset + i * EROFS_CHUNK_INDEX_SIZE
      in and_then (copy_at off (chunk_index_as_bytes idx) buf)
           (write_chunk_indexes extent_offset cis (Suc i)))"

definition patch_xattr_icount :: "u16 \<Rightarrow> u8 list \<Rightarrow> error + u8 list" where
  \<comment> \<open>the last step: bytes 2 and 3 of either header\<close>
  [simp]: "patch_xattr_icount i_xattr_icount buf =
     (if i_xattr_icount > 0 then copy_at 2 (set_u16 i_xattr_icount) buf else Inr buf)"

definition serialize_inode :: "inode_info \<Rightarrow> u64 \<Rightarrow> u32 \<Rightarrow> error + u8 list" where
  "serialize_inode inode epoch chunkbits =
     (let blkszbits = ucast EROFS_BLKSZBITS;
          meta_size = inode_meta_size inode;
          buf = replicate meta_size 0;
          xattr_size = xattr_ibody_size (ii_xattrs inode);
          i_xattr_icount = xattr_icount xattr_size
      in and_then
        (case ii_data inode of
           RegularFile chunk_indexes \<Rightarrow>
             let cf = chunk_format chunkbits blkszbits in
             and_then (write_inode_header inode epoch EROFS_INODE_CHUNK_BASED True 0 (ii_size inode)
                         (ucast cf) buf) (\<lambda>buf.
             let extent_offset = inode_base inode + xattr_size in
             write_chunk_indexes extent_offset chunk_indexes 0 buf)
         | Directory _ startblk _ _ \<Rightarrow>
             let startblk_lo = ucast startblk;
                 startblk_hi = ucast (drop_bit 32 startblk)
             in write_inode_header inode epoch EROFS_INODE_FLAT_PLAIN False startblk_hi
                  (ii_size inode) startblk_lo buf
         | Symlink target \<Rightarrow>
             let inline_off = inode_base inode + xattr_size in
             and_then (write_inode_header inode epoch EROFS_INODE_FLAT_INLINE True 0 (ii_size inode)
                         0 buf) (\<lambda>buf.
             copy_at inline_off target buf)
         | SpecialDev rdev \<Rightarrow> write_inode_header inode epoch EROFS_INODE_FLAT_PLAIN True 0 0 rdev buf
         | SpecialNoData \<Rightarrow> write_inode_header inode epoch EROFS_INODE_FLAT_PLAIN True 0 0 0 buf)
        (patch_xattr_icount i_xattr_icount))"

subsection \<open>What the bytes are\<close>

text \<open>The structure each inode is stored as, and the data that follows the attributes.\<close>

fun inode_layout_of :: "inode_data \<Rightarrow> u16" where
  "inode_layout_of (RegularFile _) = EROFS_INODE_CHUNK_BASED"
| "inode_layout_of (Symlink _) = EROFS_INODE_FLAT_INLINE"
| "inode_layout_of _ = EROFS_INODE_FLAT_PLAIN"

fun inode_u_of :: "inode_data \<Rightarrow> u32 \<Rightarrow> u32" where
  "inode_u_of (RegularFile _) chunkbits = ucast (chunk_format chunkbits 12)"
| "inode_u_of (Directory _ startblk _ _) chunkbits = ucast startblk"
| "inode_u_of (Symlink _) chunkbits = 0"
| "inode_u_of (SpecialDev rdev) chunkbits = rdev"
| "inode_u_of SpecialNoData chunkbits = 0"

fun inode_nb_of :: "inode_data \<Rightarrow> u16" where
  "inode_nb_of (Directory _ startblk _ _) = ucast (drop_bit 32 startblk)"
| "inode_nb_of _ = 0"

fun inode_nlink_1_of :: "inode_data \<Rightarrow> bool" where
  "inode_nlink_1_of (Directory _ _ _ _) = False"
| "inode_nlink_1_of _ = True"

definition inode_size_of :: "inode_info \<Rightarrow> u64" where
  "inode_size_of inode =
     (case ii_data inode of SpecialDev _ \<Rightarrow> 0 | SpecialNoData \<Rightarrow> 0 | _ \<Rightarrow> ii_size inode)"

fun inode_payload :: "inode_data \<Rightarrow> u8 list" where
  "inode_payload (RegularFile cis) =
     concat (map chunk_index_as_bytes (map (\<lambda>ci. chunk_index_new (ck_blkaddr ci) (ck_device_id ci)) cis))"
| "inode_payload (Symlink target) = target"
| "inode_payload _ = []"

fun inode_bytes :: "erofs_inode \<Rightarrow> u8 list" where
  "inode_bytes (Compact c) = inode_compact_as_bytes c"
| "inode_bytes (Extended e) = inode_extended_as_bytes e"

definition inode_header :: "inode_info \<Rightarrow> u64 \<Rightarrow> u16 \<Rightarrow> bool \<Rightarrow> u16 \<Rightarrow> u64 \<Rightarrow> u32 \<Rightarrow> u16 \<Rightarrow> erofs_inode" where
  "inode_header inode epoch dl n nb sz i_u icount =
     (if ii_is_extended inode then
        Extended ((inode_extended_new (extended_i_format dl) (ii_mode inode) nb sz i_u
          (ii_ino inode) (ii_uid inode) (ii_gid inode) (ii_mtime inode) (ii_mtime_nsec inode)
          (ii_nlink inode))\<lparr>ei_xattr_icount := set_u16 icount\<rparr>)
      else
        Compact ((inode_compact_new (compact_i_format dl n) (ii_mode inode) nb (ucast sz)
          (ucast (ii_mtime inode - epoch)) i_u (ii_ino inode) (ucast (ii_uid inode))
          (ucast (ii_gid inode)))\<lparr>ci_xattr_icount := set_u16 icount\<rparr>))"

definition disk_inode :: "inode_info \<Rightarrow> u64 \<Rightarrow> u32 \<Rightarrow> erofs_inode" where
  "disk_inode inode epoch chunkbits =
     inode_header inode epoch (inode_layout_of (ii_data inode)) (inode_nlink_1_of (ii_data inode))
       (inode_nb_of (ii_data inode)) (inode_size_of inode) (inode_u_of (ii_data inode) chunkbits)
       (xattr_icount (xattr_ibody_size (ii_xattrs inode)))"

definition inode_image :: "inode_info \<Rightarrow> u64 \<Rightarrow> u32 \<Rightarrow> u8 list" where
  "inode_image inode epoch chunkbits =
     inode_bytes (disk_inode inode epoch chunkbits) @ xattr_area (ii_xattrs inode) @
     inode_payload (ii_data inode)"

definition xattrs_small :: "inode_info \<Rightarrow> bool" where
  "xattrs_small inode \<longleftrightarrow> (\<forall>x \<in> set (ii_xattrs inode). xattr_small x)"

lemma length_header:
  "length (inode_bytes (inode_header inode epoch dl n nb sz i_u icount)) = inode_base inode"
  by (simp add: inode_header_def inode_base_def inode_extended_as_bytes_def inode_compact_as_bytes_def
      inode_extended_new_def inode_compact_new_def inode_extended_zeroed_def inode_compact_zeroed_def)

lemma length_inode_payload:
  "inode_meta_size inode = inode_base inode + xattr_ibody_size (ii_xattrs inode) + length (inode_payload (ii_data inode))"
  by (cases "ii_data inode")
    (simp_all add: inode_meta_size_def Let_def length_concat comp_def sum_list_triv)

lemma length_inode_image:
  "xattrs_small inode \<Longrightarrow> length (inode_image inode epoch chunkbits) = inode_meta_size inode"
  by (simp add: inode_image_def disk_inode_def length_header length_xattr_area length_inode_payload
      xattrs_small_def)

lemma set_u16_0: "replicate 2 0 = set_u16 0"
  by (simp add: set_u16_def numeral_2_eq_2)

lemma write_inode_header_image:
  assumes "xattrs_small inode"
  shows "write_inode_header inode epoch dl n nb sz i_u
      (replicate (inode_base inode) 0 @ replicate (xattr_ibody_size (ii_xattrs inode)) 0 @ r) =
    Inr (inode_bytes (inode_header inode epoch dl n nb sz i_u 0) @ xattr_area (ii_xattrs inode) @ r)"
proof -
  let ?h = "inode_bytes (inode_header inode epoch dl n nb sz i_u 0)"
  let ?x = "xattr_ibody_size (ii_xattrs inode)"
  have sx: "serialize_xattrs (?h @ replicate ?x 0 @ r) (inode_base inode) (ii_xattrs inode) =
      Inr (?h @ xattr_area (ii_xattrs inode) @ r, ?x)"
    using assms by (intro serialize_xattrs_image) (simp_all add: length_header xattrs_small_def)
  have cp: "copy_at 0 ?h (replicate (inode_base inode) 0 @ replicate ?x 0 @ r) =
      Inr (?h @ replicate ?x 0 @ r)"
    using copy_at_append [of "[]" 0 "replicate (inode_base inode) 0" ?h] by (simp add: length_header)
  show ?thesis
  proof (cases "ii_is_extended inode")
    case True
    then show ?thesis
      using sx cp
      by (simp add: write_inode_header_def inode_header_def inode_base_def inode_extended_new_def
          inode_extended_zeroed_def set_u16_0)
  next
    case False
    then show ?thesis
      using sx cp
      by (simp add: write_inode_header_def inode_header_def inode_base_def inode_compact_new_def
          inode_compact_zeroed_def set_u16_0)
  qed
qed

lemma write_chunk_indexes_image:
  assumes "length p = off + i * 8"
  shows "write_chunk_indexes off cis i (p @ replicate (8 * length cis) 0) =
    Inr (p @ inode_payload (RegularFile cis))"
  using assms
proof (induction cis arbitrary: i p)
  case Nil
  then show ?case by simp
next
  case (Cons ci cis)
  let ?b = "chunk_index_as_bytes (chunk_index_new (ck_blkaddr ci) (ck_device_id ci))"
  have "copy_at (off + i * 8) ?b (p @ replicate 8 0 @ replicate (8 * length cis) 0) =
      Inr (p @ ?b @ replicate (8 * length cis) 0)"
    using Cons.prems by (intro copy_at_append) simp_all
  moreover have "write_chunk_indexes off cis (Suc i) ((p @ ?b) @ replicate (8 * length cis) 0) =
      Inr ((p @ ?b) @ inode_payload (RegularFile cis))"
    using Cons.prems by (intro Cons.IH) simp
  ultimately show ?case
    by (simp add: replicate_add)
qed

lemma patch_icount:
  "copy_at 2 (set_u16 k) (inode_bytes (inode_header inode epoch dl n nb sz i_u 0) @ r) =
     Inr (inode_bytes (inode_header inode epoch dl n nb sz i_u k) @ r)"
proof -
  have "copy_at 2 (set_u16 k) (f @ set_u16 0 @ g) = Inr (f @ set_u16 k @ g)" if "length f = 2" for f g
    using that by (intro copy_at_append) simp_all
  then show ?thesis
    by (simp add: inode_header_def inode_extended_as_bytes_def inode_compact_as_bytes_def
        inode_extended_new_def inode_compact_new_def)
qed

lemma xattrs_small_area:
  "xattrs_small inode \<Longrightarrow> length (xattr_area (ii_xattrs inode)) = xattr_ibody_size (ii_xattrs inode)"
  by (simp add: xattrs_small_def length_xattr_area)

lemma meta_size_split:
  "replicate (inode_meta_size inode) (0 :: u8) =
     replicate (inode_base inode) 0 @ replicate (xattr_ibody_size (ii_xattrs inode)) 0 @
     replicate (length (inode_payload (ii_data inode))) 0"
  by (simp add: length_inode_payload replicate_add)

lemma serialize_inode_image:
  assumes "xattrs_small inode"
  shows "serialize_inode inode epoch chunkbits = Inr (inode_image inode epoch chunkbits)"
proof -
  define dl n nb sz i_u where
    "dl = inode_layout_of (ii_data inode)" and "n = inode_nlink_1_of (ii_data inode)" and
    "nb = inode_nb_of (ii_data inode)" and "sz = inode_size_of inode" and
    "i_u = inode_u_of (ii_data inode) chunkbits"
  note d = this
  define H where "H = inode_bytes (inode_header inode epoch dl n nb sz i_u 0) @ xattr_area (ii_xattrs inode)"
  have lenH: "length H = inode_base inode + xattr_ibody_size (ii_xattrs inode)"
    using assms by (simp add: H_def length_header xattrs_small_area)
  have hdr: "write_inode_header inode epoch dl n nb sz i_u (replicate (inode_meta_size inode) 0) =
      Inr (H @ replicate (length (inode_payload (ii_data inode))) 0)"
    unfolding meta_size_split using assms by (simp add: write_inode_header_image H_def)
  have chunks: "write_chunk_indexes (inode_base inode + xattr_ibody_size (ii_xattrs inode)) cis 0
      (H @ replicate (8 * length cis) 0) = Inr (H @ inode_payload (RegularFile cis))" for cis
    using lenH by (intro write_chunk_indexes_image) simp
  have len8: "length (inode_payload (RegularFile cis)) = 8 * length cis" for cis
    by (simp add: length_concat comp_def sum_list_triv)
  have target: "copy_at (inode_base inode + xattr_ibody_size (ii_xattrs inode)) t
      (H @ replicate (length t) 0) = Inr (H @ t)" for t
    using copy_at_append [of H _ "replicate (length t) 0" t "[]"] lenH by simp
  let ?k = "xattr_icount (xattr_ibody_size (ii_xattrs inode))"
  have patch: "0 < ?k \<Longrightarrow> copy_at 2 (set_u16 ?k) (H @ inode_payload (ii_data inode)) =
      Inr (inode_image inode epoch chunkbits)"
    "\<not> 0 < ?k \<Longrightarrow> H @ inode_payload (ii_data inode) = inode_image inode epoch chunkbits"
    by (auto simp: H_def inode_image_def disk_inode_def patch_icount word_greater_zero_iff simp flip: d)
  show ?thesis
  proof (cases "ii_data inode")
    case (RegularFile cis)
    then show ?thesis
      using hdr chunks [of cis] patch [unfolded RegularFile] len8 [of cis]
      by (simp add: serialize_inode_def Let_def d inode_size_of_def)
  next
    case (Symlink t)
    then show ?thesis
      using hdr target [of t] patch [unfolded Symlink] by (simp add: serialize_inode_def Let_def d inode_size_of_def)
  qed (use hdr patch in \<open>simp_all add: serialize_inode_def Let_def d inode_size_of_def\<close>)
qed

subsection \<open>Reading the header back\<close>

lemma inode_layout_of_lt: "inode_layout_of data < 8"
  by (cases data) simp_all

lemma inode_cast_header:
  assumes "dl < 8"
  shows "inode_cast (inode_bytes (inode_header inode epoch dl n nb sz i_u k) @ rest) =
    Inr (inode_header inode epoch dl n nb sz i_u k)"
proof (cases "ii_is_extended inode")
  case True
  then show ?thesis
    using assms extended_i_format_bits(1) [OF assms]
    by (auto simp: inode_header_def inode_extended_ok_def inode_extended_new_def inode_extended_zeroed_def
        intro!: inode_cast_extended)
next
  case False
  then show ?thesis
    using assms compact_i_format_bits(1) [OF assms]
    by (auto simp: inode_header_def inode_compact_ok_def inode_compact_new_def inode_compact_zeroed_def
        intro!: inode_cast_compact)
qed

lemma inode_cast_image:
  "inode_cast (inode_image inode epoch chunkbits @ rest) = Inr (disk_inode inode epoch chunkbits)"
  by (simp add: inode_image_def disk_inode_def inode_cast_header inode_layout_of_lt)

lemma disk_inode_common:
  "inode_mode (disk_inode inode epoch chunkbits) = ii_mode inode"
  "inode_ino (disk_inode inode epoch chunkbits) = ii_ino inode"
  "inode_i_u (disk_inode inode epoch chunkbits) = inode_u_of (ii_data inode) chunkbits"
  "inode_nb (disk_inode inode epoch chunkbits) = inode_nb_of (ii_data inode)"
  "inode_xattr_icount (disk_inode inode epoch chunkbits) = xattr_icount (xattr_ibody_size (ii_xattrs inode))"
  "inode_header_size (disk_inode inode epoch chunkbits) = inode_base inode"
  "inode_is_compact (disk_inode inode epoch chunkbits) \<longleftrightarrow> \<not> ii_is_extended inode"
  by (simp_all add: disk_inode_def inode_header_def inode_extended_new_def inode_compact_new_def inode_base_def)

lemma disk_inode_layout:
  "inode_data_layout (disk_inode inode epoch chunkbits) = inode_layout_of (ii_data inode)"
  using compact_i_format_bits(2) extended_i_format_bits(2) inode_layout_of_lt
  by (simp add: disk_inode_def inode_header_def inode_extended_new_def inode_compact_new_def
      inode_data_layout_def)

lemma disk_inode_extended:
  assumes "ii_is_extended inode"
  shows "inode_size (disk_inode inode epoch chunkbits) = inode_size_of inode"
    and "inode_uid (disk_inode inode epoch chunkbits) = ii_uid inode"
    and "inode_gid (disk_inode inode epoch chunkbits) = ii_gid inode"
    and "inode_nlink (disk_inode inode epoch chunkbits) = ii_nlink inode"
    and "inode_mtime (disk_inode inode epoch chunkbits) e = ii_mtime inode"
    and "inode_mtime_nsec (disk_inode inode epoch chunkbits) = ii_mtime_nsec inode"
  using assms by (simp_all add: disk_inode_def inode_header_def inode_extended_new_def)

lemma disk_inode_compact:
  assumes "\<not> ii_is_extended inode"
  shows "inode_size (disk_inode inode epoch chunkbits) = take_bit 32 (inode_size_of inode)"
    and "inode_uid (disk_inode inode epoch chunkbits) = take_bit 16 (ii_uid inode)"
    and "inode_gid (disk_inode inode epoch chunkbits) = take_bit 16 (ii_gid inode)"
    and "inode_nlink (disk_inode inode epoch chunkbits) = 1"
    and "inode_mtime (disk_inode inode epoch chunkbits) e = e + take_bit 32 (ii_mtime inode - epoch)"
    and "inode_mtime_nsec (disk_inode inode epoch chunkbits) = 0"
proof -
  have 1: "ucast (ucast w :: u32) = take_bit 32 w" for w :: u64
    by (rule bit_word_eqI) (auto simp: bit_simps)
  have 2: "ucast (ucast w :: u16) = take_bit 16 w" for w :: u32
    by (rule bit_word_eqI) (auto simp: bit_simps)
  show "inode_size (disk_inode inode epoch chunkbits) = take_bit 32 (inode_size_of inode)"
    and "inode_uid (disk_inode inode epoch chunkbits) = take_bit 16 (ii_uid inode)"
    and "inode_gid (disk_inode inode epoch chunkbits) = take_bit 16 (ii_gid inode)"
    and "inode_nlink (disk_inode inode epoch chunkbits) = 1"
    and "inode_mtime (disk_inode inode epoch chunkbits) e = e + take_bit 32 (ii_mtime inode - epoch)"
    and "inode_mtime_nsec (disk_inode inode epoch chunkbits) = 0"
    using assms by (simp_all add: disk_inode_def inode_header_def inode_compact_new_def 1 2)
qed

subsection \<open>Properties\<close>

text \<open>C27: Round trip of inodes. Serialising an inode gives exactly the bytes its slot was sized for, and
  casting them back, whatever follows, gives an inode with its type and permissions, its number, its
  data layout and, when they fit the fields or the inode is extended, its size and owners; an extended
  inode also keeps its link count and its time.\<close>

theorem inode_roundtrip:
  assumes "xattrs_small inode"
  shows "\<exists>bs i. serialize_inode inode epoch chunkbits = Inr bs \<and> length bs = inode_meta_size inode \<and>
    (\<forall>rest. inode_cast (bs @ rest) = Inr i) \<and>
    inode_mode i = ii_mode inode \<and> inode_ino i = ii_ino inode \<and>
    inode_data_layout i = inode_layout_of (ii_data inode) \<and>
    (ii_is_extended inode \<or> unat (inode_size_of inode) < 2 ^ 32 \<longrightarrow> inode_size i = inode_size_of inode) \<and>
    (ii_is_extended inode \<or> unat (ii_uid inode) < 2 ^ 16 \<longrightarrow> inode_uid i = ii_uid inode) \<and>
    (ii_is_extended inode \<or> unat (ii_gid inode) < 2 ^ 16 \<longrightarrow> inode_gid i = ii_gid inode) \<and>
    (ii_is_extended inode \<longrightarrow>
       inode_nlink i = ii_nlink inode \<and> inode_mtime i e = ii_mtime inode \<and> inode_mtime_nsec i = ii_mtime_nsec inode)"
proof -
  have tb: "unat w < 2 ^ n \<Longrightarrow> n \<le> LENGTH('a) \<Longrightarrow> take_bit n w = w" for n and w :: "'a::len word"
    by (simp add: word_unat_eq_iff unsigned_take_bit_eq take_bit_nat_eq_self)
  let ?i = "disk_inode inode epoch chunkbits"
  have "ii_is_extended inode \<or> unat (inode_size_of inode) < 2 ^ 32 \<longrightarrow> inode_size ?i = inode_size_of inode"
    using tb [of "inode_size_of inode" 32] by (cases "ii_is_extended inode") (simp_all add: disk_inode_extended disk_inode_compact)
  moreover have "ii_is_extended inode \<or> unat (ii_uid inode) < 2 ^ 16 \<longrightarrow> inode_uid ?i = ii_uid inode"
    using tb [of "ii_uid inode" 16] by (cases "ii_is_extended inode") (simp_all add: disk_inode_extended disk_inode_compact)
  moreover have "ii_is_extended inode \<or> unat (ii_gid inode) < 2 ^ 16 \<longrightarrow> inode_gid ?i = ii_gid inode"
    using tb [of "ii_gid inode" 16] by (cases "ii_is_extended inode") (simp_all add: disk_inode_extended disk_inode_compact)
  moreover have "ii_is_extended inode \<longrightarrow>
       inode_nlink ?i = ii_nlink inode \<and> inode_mtime ?i e = ii_mtime inode \<and> inode_mtime_nsec ?i = ii_mtime_nsec inode"
    by (simp add: disk_inode_extended)
  ultimately show ?thesis
    by (intro exI [of _ "inode_image inode epoch chunkbits"] exI [of _ ?i])
      (simp add: serialize_inode_image [OF assms] length_inode_image [OF assms] inode_cast_image
        disk_inode_common disk_inode_layout)
qed

definition sample_symlink :: inode_info where
  "sample_symlink =
     \<lparr>ii_mode = 0xA1FF, ii_uid = 1000, ii_gid = 70000, ii_size = 3, ii_mtime = 1700000000, ii_mtime_nsec = 5,
      ii_nlink = 1, ii_ino = 7, ii_nid = 0, ii_meta_offset = 0, ii_is_extended = True,
      ii_data = Symlink [97, 98, 99], ii_xattrs = []\<rparr>"

theorem inode_roundtrip_witness:
  "\<exists>bs i. serialize_inode sample_symlink 1800000000 12 = Inr bs \<and> length bs = 67 \<and>
     inode_cast (bs @ [1, 2]) = Inr i \<and> inode_mode i = 0xA1FF \<and> inode_gid i = 70000 \<and> inode_size i = 3 \<and>
     inode_mtime i 1800000000 = 1700000000"
proof -
  have "xattrs_small sample_symlink" by (simp add: xattrs_small_def sample_symlink_def)
  note inode_roundtrip [OF this, of 1800000000 12 1800000000]
  then obtain bs i where "serialize_inode sample_symlink 1800000000 12 = Inr bs"
    "length bs = 67" "inode_cast (bs @ [1, 2]) = Inr i" "inode_mode i = 0xA1FF" "inode_gid i = 70000"
    "inode_size i = 3" "inode_mtime i 1800000000 = 1700000000"
    by (auto simp: sample_symlink_def inode_meta_size_def inode_base_def inode_size_of_def xattr_ibody_size_def)
  then show ?thesis by blast
qed

text \<open>C37: Modification times of compact inodes that are older than the build are shown in the future.
  The builder stores the distance from the build time modulo \<open>2 ^ 32\<close> and the reader adds it to the
  build time, so a file modified up to 136 years before the build comes back \<open>2 ^ 32\<close> seconds late.\<close>

theorem compact_mtime_in_future:
  assumes "xattrs_small inode" and "\<not> ii_is_extended inode" and "ii_mtime inode < epoch"
    and "unat (epoch - ii_mtime inode) \<le> 2 ^ 32"
  shows "\<exists>bs i. serialize_inode inode epoch chunkbits = Inr bs \<and> inode_cast bs = Inr i \<and>
    inode_mtime i epoch = ii_mtime inode + 2 ^ 32"
proof -
  let ?d = "epoch - ii_mtime inode" and ?x = "ii_mtime inode - epoch" and ?i = "disk_inode inode epoch chunkbits"
  have "?d \<noteq> 0" using assms(3) by auto
  then have pos: "0 < unat ?d" by (simp add: unat_gt_0)
  have "(unat ?x + unat ?d) mod 2 ^ 64 = unat (?x + ?d)" by (simp only: unat_word_ariths) simp
  then have "2 ^ 64 dvd unat ?x + unat ?d" by (simp add: dvd_eq_mod_eq_0)
  then have sum: "unat ?x + unat ?d = 2 ^ 64"
    using pos unat_lt [of ?x] unat_lt [of ?d] by (auto elim!: dvdE)
  then have "unat ?x = (2 ^ 32 - unat ?d) + (2 ^ 32 - 1) * 2 ^ 32" using assms(4) by simp
  then have "unat ?x mod 2 ^ 32 = 2 ^ 32 - unat ?d"
    using pos by (simp only: mod_mult_self1) simp
  moreover have "unat (2 ^ 32 - ?d) = 2 ^ 32 - unat ?d" using assms(4) by (simp add: unat_sub word_le_nat_alt)
  ultimately have "unat (take_bit 32 ?x) = unat (2 ^ 32 - ?d)"
    by (simp only: unsigned_take_bit_eq) (simp only: take_bit_eq_mod)
  then have "take_bit 32 ?x = 2 ^ 32 - ?d" by (simp only: word_unat_eq_iff)
  then have "inode_mtime ?i epoch = ii_mtime inode + 2 ^ 32"
    using assms(2) by (simp add: disk_inode_compact)
  then show ?thesis
    using serialize_inode_image [OF assms(1), of epoch chunkbits] inode_cast_image [of inode epoch chunkbits "[]"]
    by (intro exI [of _ "inode_image inode epoch chunkbits"] exI [of _ ?i]) simp
qed

theorem compact_mtime_in_future_witness:
  "\<exists>bs i. serialize_inode (sample_symlink\<lparr>ii_is_extended := False\<rparr>) 1800000000 12 = Inr bs \<and> inode_cast bs = Inr i \<and>
     inode_mtime i 1800000000 = 1700000000 + 2 ^ 32"
proof -
  have "xattrs_small (sample_symlink\<lparr>ii_is_extended := False\<rparr>)" by (simp add: xattrs_small_def sample_symlink_def)
  from compact_mtime_in_future [OF this, of 1800000000 12] show ?thesis by (simp add: sample_symlink_def)
qed

text \<open>C38: The longest attribute value loses its length. Linux allows values of up to 65536 bytes; the length
  field has 16 bits and is written without a check, so for a value of exactly that length the builder
  writes an entry that says the value is empty, followed by the value.\<close>

theorem longest_value_lost:
  assumes "length v = 65536" and "length suffix < 256"
  shows "\<exists>buf. serialize_xattrs (replicate (xattr_ibody_size [(i, suffix, v)]) 0) 0 [(i, suffix, v)] =
      Inr (buf, xattr_ibody_size [(i, suffix, v)]) \<and>
    bytes_at 12 4 buf = [word_of_nat (length suffix), i, 0, 0] \<and> bytes_at (16 + length suffix) 65536 buf = v"
proof -
  have sm: "\<forall>x \<in> set [(i, suffix, v)]. xattr_small x"
    using assms by (simp add: xattr_small_def xattr_entry_size_def)
  have z: "set_u16 (word_of_nat (length v)) = [0, 0]"
  proof -
    have "(word_of_nat (length v) :: u16) = 0" unfolding assms(1) by simp
    moreover have "set_u16 0 = [0, 0]" by code_simp
    ultimately show ?thesis by simp
  qed
  let ?p = "replicate 12 0 @ [word_of_nat (length suffix), i, 0, 0] @ suffix"
    and ?r = "replicate (pad_len (xattr_entry_size (i, suffix, v)) 4) 0"
  have e: "xattr_area [(i, suffix, v)] = ?p @ v @ ?r"
    by (simp add: xattr_area_def xattr_entry_bytes_def z)
  have n: "length ?p = 16 + length suffix" by simp
  have "bytes_at 12 4 (?p @ v @ ?r) = [word_of_nat (length suffix), i, 0, 0]" by (simp add: bytes_at_def)
  moreover have "bytes_at (length p) (length v) (p @ v @ r) = v" for p r :: "u8 list" by (simp add: bytes_at_def)
  then have "bytes_at (length ?p) (length v) (?p @ v @ ?r) = v" .
  ultimately have "bytes_at 12 4 (xattr_area [(i, suffix, v)]) = [word_of_nat (length suffix), i, 0, 0]"
    and "bytes_at (16 + length suffix) 65536 (xattr_area [(i, suffix, v)]) = v"
    unfolding e n assms(1) by simp_all
  then show ?thesis using serialize_xattrs_image [OF sm, of "[]" 0 "[]"] by simp
qed

theorem longest_value_lost_witness:
  "\<exists>buf. serialize_xattrs (replicate (xattr_ibody_size [(1, [107], replicate 65536 7)]) 0) 0 [(1, [107], replicate 65536 7)] =
      Inr (buf, xattr_ibody_size [(1, [107], replicate 65536 7)]) \<and> bytes_at 12 4 buf = [1, 1, 0, 0]"
proof -
  have h: "length (replicate 65536 (7 :: u8)) = 65536" "length [107 :: u8] < 256"
    unfolding length_replicate by simp_all
  from longest_value_lost [OF h, of 1] show ?thesis unfolding length_Cons list.size(3) by auto
qed

end
