(* ===== verification/Utf8.thy ===== *)
theory Utf8
  imports Prelude
begin

text \<open>
  \<^verbatim>\<open>String::from_utf8_lossy\<close> and \<^verbatim>\<open>OsStr::to_string_lossy\<close>: the bytes of a name as the builder
  stores it and the readers show it. A maximal ill-formed prefix of a sequence becomes the
  replacement character; well-formed text is unchanged.
\<close>

unbundle bit_operations_syntax

definition utf8_cont :: "u8 list \<Rightarrow> nat \<Rightarrow> bool" where
  \<comment> \<open>byte \<open>i\<close> is a continuation byte; past the end it reads as 0\<close>
  "utf8_cont bs i \<longleftrightarrow> i < length bs \<and> bs ! i AND 192 = 128"

definition utf8_second_3 :: "u8 \<Rightarrow> u8 \<Rightarrow> bool" where
  "utf8_second_3 b c \<longleftrightarrow>
     (b = 0xE0 \<and> 0xA0 \<le> c \<and> c \<le> 0xBF) \<or> (0xE1 \<le> b \<and> b \<le> 0xEC \<and> 0x80 \<le> c \<and> c \<le> 0xBF) \<or>
     (b = 0xED \<and> 0x80 \<le> c \<and> c \<le> 0x9F) \<or> (0xEE \<le> b \<and> b \<le> 0xEF \<and> 0x80 \<le> c \<and> c \<le> 0xBF)"

definition utf8_second_4 :: "u8 \<Rightarrow> u8 \<Rightarrow> bool" where
  "utf8_second_4 b c \<longleftrightarrow>
     (b = 0xF0 \<and> 0x90 \<le> c \<and> c \<le> 0xBF) \<or> (0xF1 \<le> b \<and> b \<le> 0xF3 \<and> 0x80 \<le> c \<and> c \<le> 0xBF) \<or>
     (b = 0xF4 \<and> 0x80 \<le> c \<and> c \<le> 0x8F)"

definition utf8_char_width :: "u8 \<Rightarrow> nat" where
  "utf8_char_width b =
     (if b < 128 then 1
      else if 0xC2 \<le> b \<and> b \<le> 0xDF then 2
      else if 0xE0 \<le> b \<and> b \<le> 0xEF then 3
      else if 0xF0 \<le> b \<and> b \<le> 0xF4 then 4
      else 0)"

definition utf8_next :: "u8 list \<Rightarrow> bool \<times> nat" where
  \<comment> \<open>whether a well-formed character starts here, and the bytes inspected\<close>
  "utf8_next bs =
     (let b = hd bs; c = (if 1 < length bs then bs ! 1 else 0); w = utf8_char_width b in
      if w = 1 then (True, 1)
      else if w = 2 then (if \<not> utf8_cont bs 1 then (False, 1) else (True, 2))
      else if w = 3 then
        (if \<not> utf8_second_3 b c then (False, 1)
         else if \<not> utf8_cont bs 2 then (False, 2)
         else (True, 3))
      else if w = 4 then
        (if \<not> utf8_second_4 b c then (False, 1)
         else if \<not> utf8_cont bs 2 then (False, 2)
         else if \<not> utf8_cont bs 3 then (False, 3)
         else (True, 4))
      else (False, 1))"

lemma utf8_next_pos: "0 < snd (utf8_next bs)"
  by (simp add: utf8_next_def Let_def)

lemma utf8_next_shorter: "(ok, n) = utf8_next bs \<Longrightarrow> bs \<noteq> [] \<Longrightarrow> length bs - n < length bs"
  using utf8_next_pos [of bs] by (cases bs) (auto simp: prod_eq_iff)

definition replacement_character :: "u8 list" where
  "replacement_character = [0xEF, 0xBF, 0xBD]"

function from_utf8_lossy :: "u8 list \<Rightarrow> u8 list" where
  "from_utf8_lossy bs =
     (if bs = [] then []
      else case utf8_next bs of (ok, n) \<Rightarrow>
        (if ok then take n bs else replacement_character) @ from_utf8_lossy (drop n bs))"
  by pat_completeness auto
termination
  by (relation "measure length") (auto dest: utf8_next_shorter)

declare from_utf8_lossy.simps [simp del]

function utf8_valid :: "u8 list \<Rightarrow> bool" where
  \<comment> \<open>a sequence of well-formed characters\<close>
  "utf8_valid bs =
     (if bs = [] then True
      else case utf8_next bs of (ok, n) \<Rightarrow> ok \<and> utf8_valid (drop n bs))"
  by pat_completeness auto
termination
  by (relation "measure length") (auto dest: utf8_next_shorter)

declare utf8_valid.simps [simp del]

lemma lossy_Nil [simp]: "from_utf8_lossy [] = []"
  by (simp add: from_utf8_lossy.simps)

lemma lossy_valid: "utf8_valid bs \<Longrightarrow> from_utf8_lossy bs = bs"
proof (induction bs rule: utf8_valid.induct)
  case (1 bs)
  show ?case
  proof (cases "bs = []")
    case False
    obtain ok n where n: "utf8_next bs = (ok, n)" by (cases "utf8_next bs")
    then have "ok" "utf8_valid (drop n bs)"
      using False "1.prems" by (simp_all add: utf8_valid.simps [of bs])
    then show ?thesis
      using "1.IH" [OF False n [symmetric]] False n by (simp add: from_utf8_lossy.simps [of bs])
  qed simp
qed

text \<open>A well-formed character is recognised whatever follows it.\<close>

lemma utf8_next_length: "fst (utf8_next bs) \<Longrightarrow> bs \<noteq> [] \<Longrightarrow> snd (utf8_next bs) \<le> length bs"
  by (simp add: utf8_next_def utf8_cont_def Let_def Suc_le_eq split: if_splits)

lemma utf8_next_take:
  assumes "utf8_next bs = (True, n)" and "bs \<noteq> []"
  shows "utf8_next (take n bs @ ys) = (True, n)"
proof -
  have n: "n \<le> length bs" "0 < n"
    using utf8_next_length [of bs] utf8_next_pos [of bs] assms by simp_all
  have hd: "hd (take n bs @ ys) = hd bs"
    using n assms(2) by (cases bs; cases n) simp_all
  have nth: "i < n \<Longrightarrow> (take n bs @ ys) ! i = bs ! i" for i
    using n by (simp add: nth_append)
  have len: "length (take n bs @ ys) = n + length ys"
    using n by simp
  show ?thesis
    using assms(1) n nth [of 1] nth [of 2] nth [of 3]
    unfolding utf8_next_def hd utf8_cont_def len
    by (simp add: Let_def split: if_splits)
qed

lemma utf8_valid_Cons:
  assumes "utf8_next bs = (True, n)" and "bs \<noteq> []" and "utf8_valid ys"
  shows "utf8_valid (take n bs @ ys)"
proof -
  have n: "n \<le> length bs"
    using utf8_next_length [of bs] assms by simp
  then show ?thesis
    using utf8_next_take [OF assms(1,2), of ys] assms(3) by (subst utf8_valid.simps) simp
qed

lemma utf8_valid_lossy: "utf8_valid (from_utf8_lossy bs)"
proof (induction bs rule: from_utf8_lossy.induct)
  case (1 bs)
  show ?case
  proof (cases "bs = []")
    case True
    then show ?thesis by (simp add: utf8_valid.simps)
  next
    case False
    obtain ok n where n: "utf8_next bs = (ok, n)" by (cases "utf8_next bs")
    have IH: "utf8_valid (from_utf8_lossy (drop n bs))"
      using "1.IH" [OF False n [symmetric]] by simp
    have r: "utf8_next replacement_character = (True, 3)"
      by (simp add: utf8_next_def utf8_char_width_def Let_def replacement_character_def utf8_second_3_def utf8_cont_def)
    have "utf8_valid (take 3 replacement_character @ ys)" if "utf8_valid ys" for ys
      using that by (intro utf8_valid_Cons [OF r]) (simp_all add: replacement_character_def)
    then show ?thesis
      using IH False n utf8_valid_Cons [of bs n, OF _ False IH]
      by (subst from_utf8_lossy.simps) (auto simp: replacement_character_def)
  qed
qed

lemma lossy_idempotent: "from_utf8_lossy (from_utf8_lossy bs) = from_utf8_lossy bs"
  by (rule lossy_valid) (rule utf8_valid_lossy)

lemma lossy_eq_iff: "from_utf8_lossy bs = bs \<longleftrightarrow> utf8_valid bs"
  using lossy_valid utf8_valid_lossy by metis

text \<open>What decoding does to a file name.\<close>

lemma lossy_file_name:
  "length (from_utf8_lossy bs) \<le> 3 * length bs \<and> (from_utf8_lossy bs = [] \<longleftrightarrow> bs = []) \<and>
   (0 \<notin> set bs \<longrightarrow> 0 \<notin> set (from_utf8_lossy bs))"
proof (induction bs rule: from_utf8_lossy.induct)
  case (1 bs)
  show ?case
  proof (cases "bs = []")
    case False
    obtain ok n where n: "utf8_next bs = (ok, n)" by (cases "utf8_next bs")
    have pos: "0 < n" using utf8_next_pos [of bs] n by simp
    have le: "ok \<Longrightarrow> n \<le> length bs" using utf8_next_length [of bs] n False by simp
    have e: "from_utf8_lossy bs = (if ok then take n bs else replacement_character) @ from_utf8_lossy (drop n bs)"
      using n False by (simp add: from_utf8_lossy.simps [of bs])
    have r: "length replacement_character = 3" "0 \<notin> set replacement_character" "replacement_character \<noteq> []"
      by (simp_all add: replacement_character_def)
    note IH = "1.IH" [OF False n [symmetric]]
    have "0 < length bs" using False by simp
    then have "length (from_utf8_lossy bs) \<le> 3 * length bs"
      using IH e r le pos by (cases ok; cases bs) auto
    then show ?thesis
      using IH e r le pos False by (cases ok) (auto dest: in_set_takeD in_set_dropD)
  qed simp
qed

subsection \<open>Properties\<close>

text \<open>Lossy decoding of names. The result is always well-formed UTF-8, decoding it again changes
  nothing, and a name is left unchanged exactly when it is well-formed already.\<close>

theorem lossy_decoding:
  "utf8_valid (from_utf8_lossy bs) \<and> from_utf8_lossy (from_utf8_lossy bs) = from_utf8_lossy bs \<and>
   (from_utf8_lossy bs = bs \<longleftrightarrow> utf8_valid bs)"
  by (simp add: utf8_valid_lossy lossy_idempotent lossy_eq_iff)

end
