(* ===== verification/Build_Tree.thy ===== *)
theory Build_Tree
  imports Build_Inode Utf8 "HOL-Library.Multiset"
begin

text \<open>
  The first half of \<^verbatim>\<open>src/build/inode.rs\<close>: the walk over the source directory that builds the
  inode list. The source file system is a value of type \<open>src\<close>, what each system call the walk
  makes returns (\<^const>\<open>None\<close> for an error); it does not change during the walk. The walk threads
  the state \<open>build_state\<close>: the blob writer, the inode list, the inode counter and the map from
  hard links to inode indexes.
\<close>

unbundle bit_operations_syntax

subsection \<open>The source file system\<close>

record file_stat =
  st_dev :: u64
  st_ino :: u64
  st_mode :: u32
  st_nlink :: u64
  st_uid :: u32
  st_gid :: u32
  st_rdev :: u64
  st_size :: u64
  st_mtime :: u64
  st_mtime_nsec :: u64

datatype src = Src
  (src_stat: "file_stat option") \<comment> \<open>\<^verbatim>\<open>lstat\<close>\<close>
  (src_xattr: "(u8 list \<times> u8 list option) list option") \<comment> \<open>\<^verbatim>\<open>listxattr\<close>, and \<^verbatim>\<open>getxattr\<close> of each name\<close>
  (src_entries: "(u8 list \<times> src) list option") \<comment> \<open>\<^verbatim>\<open>readdir\<close>\<close>
  (src_content: "u8 list option") \<comment> \<open>\<^verbatim>\<open>open\<close> and \<^verbatim>\<open>read\<close>\<close>
  (src_target: "u8 list option") \<comment> \<open>\<^verbatim>\<open>readlink\<close>\<close>

definition is_dir :: "file_stat \<Rightarrow> bool" where "is_dir s \<longleftrightarrow> st_mode s AND 0xF000 = 0x4000"
definition is_file :: "file_stat \<Rightarrow> bool" where "is_file s \<longleftrightarrow> st_mode s AND 0xF000 = 0x8000"
definition is_symlink :: "file_stat \<Rightarrow> bool" where "is_symlink s \<longleftrightarrow> st_mode s AND 0xF000 = 0xA000"

definition ok_or :: "'a option \<Rightarrow> error \<Rightarrow> error + 'a" where
  "ok_or v e = (case v of None \<Rightarrow> Inl e | Some x \<Rightarrow> Inr x)"

lemma ok_or_simps [simp]: "ok_or None e = Inl e" "ok_or (Some x) e = Inr x"
  by (simp_all add: ok_or_def)

subsection \<open>Attributes and types\<close>

fun xattrs_of_names :: "(u8 list \<times> u8 list option) list \<Rightarrow> xattr list" where
  "xattrs_of_names [] = []"
| "xattrs_of_names ((name, val) # names) =
     (case erofs_xattr_name_split name of
        None \<Rightarrow> xattrs_of_names names
      | Some (index, suffix) \<Rightarrow>
          (index, suffix, case val of Some v \<Rightarrow> v | None \<Rightarrow> []) # xattrs_of_names names)"

definition read_xattrs_from_path :: "src \<Rightarrow> xattr list" where
  "read_xattrs_from_path path =
     (case src_xattr path of None \<Rightarrow> [] | Some names \<Rightarrow> xattrs_of_names names)"

definition mode_to_file_type :: "u16 \<Rightarrow> u8" where
  "mode_to_file_type mode =
     (let fmt = mode AND 0xF000 in
      if fmt = 0x8000 then EROFS_FT_REG_FILE
      else if fmt = 0x4000 then EROFS_FT_DIR
      else if fmt = 0x2000 then EROFS_FT_CHRDEV
      else if fmt = 0x6000 then EROFS_FT_BLKDEV
      else if fmt = 0x1000 then EROFS_FT_FIFO
      else if fmt = 0xC000 then EROFS_FT_SOCK
      else if fmt = 0xA000 then EROFS_FT_SYMLINK
      else 0)"

subsection \<open>The walk\<close>

record 'h build_state =
  bs_blob :: "'h blob_writer"
  bs_inodes :: "inode_info list"
  bs_ino_counter :: u32
  bs_hardlink_map :: "u64 \<times> u64 \<Rightarrow> nat option"

definition new_inode :: "file_stat \<Rightarrow> u32 \<Rightarrow> u64 \<Rightarrow> inode_data \<Rightarrow> xattr list \<Rightarrow> inode_info" where
  \<comment> \<open>the \<^verbatim>\<open>InodeInfo\<close> literal of each branch\<close>
  "new_inode meta ino sz dat xattrs =
     \<lparr>ii_mode = ucast (st_mode meta), ii_uid = st_uid meta, ii_gid = st_gid meta, ii_size = sz,
      ii_mtime = st_mtime meta, ii_mtime_nsec = ucast (st_mtime_nsec meta),
      ii_nlink = ucast (st_nlink meta), ii_ino = ino, ii_nid = 0, ii_meta_offset = 0,
      ii_is_extended = (unat (st_size meta) > 2 ^ 32 - 1 \<or> unat (st_uid meta) > 2 ^ 16 - 1 \<or>
        unat (st_gid meta) > 2 ^ 16 - 1 \<or> (ucast (st_nlink meta) :: u32) > 1),
      ii_data = dat, ii_xattrs = xattrs\<rparr>"

definition push_inode :: "inode_info \<Rightarrow> 'h build_state \<Rightarrow> 'h build_state" where
  "push_inode inode st = st\<lparr>bs_inodes := bs_inodes st @ [inode]\<rparr>"

definition set_children :: "nat \<Rightarrow> dir_entry list \<Rightarrow> 'h build_state \<Rightarrow> 'h build_state" where
  \<comment> \<open>\<^verbatim>\<open>if let InodeData::Directory { children, .. } = inodes[inode_idx].data\<close>\<close>
  "set_children idx children st =
     (let inode = bs_inodes st ! idx in
      case ii_data inode of
        Directory _ startblk sz parent \<Rightarrow>
          st\<lparr>bs_inodes := (bs_inodes st)[idx := inode\<lparr>ii_data := Directory children startblk sz parent\<rparr>]\<rparr>
      | _ \<Rightarrow> st)"

definition symlink_node :: "src \<Rightarrow> file_stat \<Rightarrow> u32 \<Rightarrow> 'h build_state \<Rightarrow> error + (nat \<times> 'h build_state)" where
  \<comment> \<open>the branch of \<^verbatim>\<open>build_tree_recursive\<close> for symbolic links\<close>
  [simp]: "symlink_node path meta ino st =
     and_then (ok_or (src_target path) ReadLinkFailed) (\<lambda>target_bytes.
     let xattrs = read_xattrs_from_path path;
         inode_idx = length (bs_inodes st)
     in Inr (inode_idx,
             push_inode (new_inode meta ino (word_of_nat (length target_bytes)) (Symlink target_bytes) xattrs) st))"

definition special_node :: "src \<Rightarrow> file_stat \<Rightarrow> u32 \<Rightarrow> 'h build_state \<Rightarrow> error + (nat \<times> 'h build_state)" where
  \<comment> \<open>the last branch of \<^verbatim>\<open>build_tree_recursive\<close>: devices, pipes, sockets\<close>
  [simp]: "special_node path meta ino st =
     (let rdev = ucast (st_rdev meta);
          mode = (ucast (st_mode meta) :: u16);
          is_dev = (mode AND 0xF000 = 0x2000 \<or> mode AND 0xF000 = 0x6000);
          xattrs = read_xattrs_from_path path;
          inode_idx = length (bs_inodes st)
      in Inr (inode_idx,
              push_inode (new_inode meta ino 0 (if is_dev then SpecialDev rdev else SpecialNoData) xattrs) st))"

definition link_key :: "file_stat \<Rightarrow> (u64 \<times> u64) option" where
  \<comment> \<open>the key of an entry that may be a further link to a file\<close>
  "link_key s = (if \<not> is_dir s \<and> st_nlink s > 1 then Some (st_dev s, st_ino s) else None)"

definition by_name :: "(u8 list \<times> src) list \<Rightarrow> (u8 list \<times> src) list" where
  "by_name = sort_key fst"

lemma size_by_name: "size_list f (sort_key k xs) = size_list f xs"
proof -
  have "sum_list (map f (sort_key k xs)) = sum_list (map f xs)"
    by (metis mset_map mset_sort sum_mset_sum_list)
  then show ?thesis by (simp add: size_list_conv_sum_list)
qed

lemma size_entries:
  assumes "src_entries path = Some es"
  shows "Suc (2 * size_list (\<lambda>e. size (snd e)) es) < 2 * size path"
proof -
  obtain a b c d where path: "path = Src a b (Some es) c d"
    using assms by (cases path) simp
  have "size_list (\<lambda>e. size (snd e)) es \<le> size_list (size_prod (\<lambda>_. 0) size) es"
    by (rule size_list_pointwise) (auto simp: prod.size_neq)
  then show ?thesis
    by (simp add: path)
qed

function (sequential) build_tree_recursive ::
    "(u8 list \<Rightarrow> 'h) \<Rightarrow> src \<Rightarrow> 'h build_state \<Rightarrow> error + (nat \<times> 'h build_state)"
  and build_entries ::
    "(u8 list \<Rightarrow> 'h) \<Rightarrow> (u8 list \<times> src) list \<Rightarrow> dir_entry list \<Rightarrow> 'h build_state \<Rightarrow>
       error + (dir_entry list \<times> 'h build_state)" where
  "build_tree_recursive hash path st =
     and_then (ok_or (src_stat path) StatFailed) (\<lambda>meta.
     let st = st\<lparr>bs_ino_counter := bs_ino_counter st + 1\<rparr>;
         ino = bs_ino_counter st
     in if is_dir meta then
          let xattrs = read_xattrs_from_path path;
              inode_idx = length (bs_inodes st);
              st = push_inode (new_inode meta ino 0 (Directory [] 0 0 0) xattrs) st
          in case src_entries path of
               None \<Rightarrow> Inl ReadDirFailed
             | Some entries \<Rightarrow>
                 and_then (build_entries hash (by_name entries) [] st) (\<lambda>(children, st).
                 Inr (inode_idx, set_children inode_idx children st))
        else if is_file meta then
          let file_size = st_size meta in
          and_then (write_file_chunks hash (bs_blob st) (src_content path) file_size) (\<lambda>(chunk_indexes, bw).
          let xattrs = read_xattrs_from_path path;
              st = st\<lparr>bs_blob := bw\<rparr>;
              inode_idx = length (bs_inodes st)
          in Inr (inode_idx, push_inode (new_inode meta ino file_size (RegularFile chunk_indexes) xattrs) st))
        else if is_symlink meta then symlink_node path meta ino st
        else special_node path meta ino st)"
| "build_entries hash [] children st = Inr (children, st)"
| "build_entries hash ((name, child) # entries) children st =
     and_then (ok_or (src_stat child) StatFailed) (\<lambda>child_meta.
     let file_type = mode_to_file_type (ucast (st_mode child_meta)) in
     case (case link_key child_meta of None \<Rightarrow> None | Some key \<Rightarrow> bs_hardlink_map st key) of
       Some existing_idx \<Rightarrow>
         build_entries hash entries
           (children @ [\<lparr>dn_name = from_utf8_lossy name, dn_file_type = file_type, dn_inode_idx = existing_idx\<rparr>]) st
     | None \<Rightarrow>
         and_then (build_tree_recursive hash child st) (\<lambda>(child_idx, st).
         let st = (case link_key child_meta of
                     Some key \<Rightarrow> st\<lparr>bs_hardlink_map := (bs_hardlink_map st)(key \<mapsto> child_idx)\<rparr>
                   | None \<Rightarrow> st)
         in build_entries hash entries
              (children @ [\<lparr>dn_name = from_utf8_lossy name, dn_file_type = file_type, dn_inode_idx = child_idx\<rparr>]) st))"
  by pat_completeness auto

termination
  by (relation "measure (\<lambda>x. case x of Inl (h, path, st) \<Rightarrow> 2 * size path
    | Inr (h, es, c, st) \<Rightarrow> Suc (2 * size_list (\<lambda>e. size (snd e)) es))")
    (auto simp: by_name_def size_by_name dest: size_entries)

declare build_tree_recursive.simps [simp del]
declare build_entries.simps(2) [simp del]

definition build_tree ::
  "(u8 list \<Rightarrow> 'h) \<Rightarrow> src \<Rightarrow> 'h blob_writer \<Rightarrow> error + (inode_info list \<times> 'h blob_writer)" where
  "build_tree hash source blob_writer =
     and_then
       (build_tree_recursive hash source
         \<lparr>bs_blob = blob_writer, bs_inodes = [], bs_ino_counter = 0, bs_hardlink_map = (\<lambda>_. None)\<rparr>)
       (\<lambda>(_, st). Inr (bs_inodes st, bs_blob st))"

end
