(* ===== verification/Build_Walk.thy ===== *)
theory Build_Walk
  imports Build_Tree
begin

text \<open>
  Induction over the walk. What is proved of the walk over a source is a relation for nodes and one
  for lists of entries that every kind of step keeps. The interface \<open>tree_walk\<close> lists the steps, with
  an invariant \<open>pre\<close> of the state and the set of nodes in question, and gives in return that the
  relation holds of every node that is walked. An account is the special case in which the relations
  compare two states by an amount, such as the bytes of metadata that were added or the chunks that
  were stored: \<open>walk_account\<close>.
\<close>

lemma size_child: "src_entries n = Some es \<Longrightarrow> e \<in> set es \<Longrightarrow> size (snd e) < size n"
  using size_entries [of n es] size_list_estimation' [of e es _ "\<lambda>e. size (snd e)"] by fastforce

lemma blob_of_updates [simp]:
  "bs_blob (push_inode i st) = bs_blob st" "bs_blob (set_children k ch st) = bs_blob st"
  "bs_hardlink_map (push_inode i st) = bs_hardlink_map st" "bs_hardlink_map (set_children k ch st) = bs_hardlink_map st"
  by (simp_all add: push_inode_def set_children_def Let_def split: inode_data.split)

text \<open>The nodes of a source, a node that is linked twice as often as the walk comes to it.\<close>

function src_nodes :: "src \<Rightarrow> src list" where
  "src_nodes n =
     n # (case src_stat n of
            None \<Rightarrow> []
          | Some meta \<Rightarrow>
              if is_dir meta then
                (case src_entries n of None \<Rightarrow> [] | Some es \<Rightarrow> concat (map (\<lambda>e. src_nodes (snd e)) es))
              else [])"
  by pat_completeness auto

termination
  by (relation "measure size") (use size_child in \<open>simp_all add: split_paired_all\<close>)

declare src_nodes.simps [simp del]

subsection \<open>Steps\<close>

definition add_link :: "(u64 \<times> u64) option \<Rightarrow> nat \<Rightarrow> 'h build_state \<Rightarrow> 'h build_state" where
  "add_link link k st =
     (case link of Some key \<Rightarrow> st\<lparr>bs_hardlink_map := (bs_hardlink_map st)(key \<mapsto> k)\<rparr> | None \<Rightarrow> st)"

lemma add_link_simps [simp]:
  "bs_inodes (add_link link k st) = bs_inodes st" "bs_blob (add_link link k st) = bs_blob st"
  "bs_ino_counter (add_link link k st) = bs_ino_counter st"
  by (simp_all add: add_link_def split: option.split)

lemma ran_add_link: "ran (bs_hardlink_map (add_link link k st)) \<subseteq> ran (bs_hardlink_map st) \<union> {k}"
  by (auto simp: add_link_def ran_def split: option.split if_splits)

lemma bind_case: "Option.bind x f = (case x of None \<Rightarrow> None | Some k \<Rightarrow> f k)"
  by (cases x) simp_all

lemma build_entries_step:
  "build_entries hash ((name, child) # es) children st =
     and_then (ok_or (src_stat child) StatFailed) (\<lambda>meta.
     let ft = mode_to_file_type (ucast (st_mode meta)) in
     case Option.bind (link_key meta) (bs_hardlink_map st) of
       Some k \<Rightarrow> build_entries hash es
         (children @ [\<lparr>dn_name = from_utf8_lossy name, dn_file_type = ft, dn_inode_idx = k\<rparr>]) st
     | None \<Rightarrow> and_then (build_tree_recursive hash child st) (\<lambda>(k, st).
         build_entries hash es
           (children @ [\<lparr>dn_name = from_utf8_lossy name, dn_file_type = ft, dn_inode_idx = k\<rparr>])
           (add_link (link_key meta) k st)))"
  by (simp add: build_entries.simps(2) add_link_def Let_def bind_case cong: option.case_cong)

text \<open>The state in which the entries of a directory are walked.\<close>

definition dir_pushed :: "src \<Rightarrow> file_stat \<Rightarrow> 'h build_state \<Rightarrow> 'h build_state" where
  "dir_pushed n meta st =
     push_inode (new_inode meta (bs_ino_counter st + 1) 0 (Directory [] 0 0 0) (read_xattrs_from_path n))
       (st\<lparr>bs_ino_counter := bs_ino_counter st + 1\<rparr>)"

lemma dir_pushed_simps [simp]:
  "bs_blob (dir_pushed n meta st) = bs_blob st" "bs_hardlink_map (dir_pushed n meta st) = bs_hardlink_map st"
  "bs_inodes (dir_pushed n meta st) =
     bs_inodes st @ [new_inode meta (bs_ino_counter st + 1) 0 (Directory [] 0 0 0) (read_xattrs_from_path n)]"
  by (simp_all add: dir_pushed_def push_inode_def)

lemma walk_dir:
  assumes "src_stat n = Some meta" and "is_dir meta" and "build_tree_recursive hash n st = Inr (k, st')"
  obtains es ch st2 where "src_entries n = Some es"
    and "build_entries hash (by_name es) [] (dir_pushed n meta st) = Inr (ch, st2)"
    and "k = length (bs_inodes st)" and "st' = set_children (length (bs_inodes st)) ch st2"
  using assms
  by (auto simp: build_tree_recursive.simps [of _ n] dir_pushed_def Let_def and_then_Inr_iff split: option.splits)

abbreviation entry_of :: "u8 list \<Rightarrow> file_stat \<Rightarrow> nat \<Rightarrow> dir_entry" where
  "entry_of name meta k \<equiv>
     \<lparr>dn_name = from_utf8_lossy name, dn_file_type = mode_to_file_type (ucast (st_mode meta)), dn_inode_idx = k\<rparr>"

subsection \<open>Induction\<close>

locale tree_walk =
  fixes hash :: "u8 list \<Rightarrow> 'h"
    and good :: "src \<Rightarrow> bool"
    and pre :: "'h build_state \<Rightarrow> bool"
    and node :: "src \<Rightarrow> 'h build_state \<Rightarrow> nat \<Rightarrow> 'h build_state \<Rightarrow> bool"
    and entries :: "(u8 list \<times> src) list \<Rightarrow> dir_entry list \<Rightarrow> 'h build_state \<Rightarrow> dir_entry list \<Rightarrow> 'h build_state \<Rightarrow> bool"
  assumes good_entries: "good n \<Longrightarrow> src_entries n = Some es \<Longrightarrow> e \<in> set es \<Longrightarrow> good (snd e)"
    and walk_leaf: "good n \<Longrightarrow> pre st \<Longrightarrow> src_stat n = Some meta \<Longrightarrow> \<not> is_dir meta \<Longrightarrow>
      build_tree_recursive hash n st = Inr (k, st') \<Longrightarrow> node n st k st'"
    and walk_enter: "good n \<Longrightarrow> pre st \<Longrightarrow> src_stat n = Some meta \<Longrightarrow> is_dir meta \<Longrightarrow> pre (dir_pushed n meta st)"
    and walk_leave: "good n \<Longrightarrow> pre st \<Longrightarrow> src_stat n = Some meta \<Longrightarrow> is_dir meta \<Longrightarrow> src_entries n = Some es \<Longrightarrow>
      entries (by_name es) [] (dir_pushed n meta st) ch st2 \<Longrightarrow>
      node n st (length (bs_inodes st)) (set_children (length (bs_inodes st)) ch st2)"
    and walk_none: "pre st \<Longrightarrow> entries [] children st children st"
    and walk_linked: "good c \<Longrightarrow> pre st \<Longrightarrow> src_stat c = Some meta \<Longrightarrow> link_key meta = Some key \<Longrightarrow>
      bs_hardlink_map st key = Some k \<Longrightarrow> entries es (children @ [entry_of name meta k]) st ch st' \<Longrightarrow>
      entries ((name, c) # es) children st ch st'"
    and walk_child: "good c \<Longrightarrow> pre st \<Longrightarrow> src_stat c = Some meta \<Longrightarrow> Option.bind (link_key meta) (bs_hardlink_map st) = None \<Longrightarrow>
      node c st k st1 \<Longrightarrow> entries es (children @ [entry_of name meta k]) (add_link (link_key meta) k st1) ch st' \<Longrightarrow>
      entries ((name, c) # es) children st ch st'"
    and walk_next: "good c \<Longrightarrow> pre st \<Longrightarrow> src_stat c = Some meta \<Longrightarrow> node c st k st1 \<Longrightarrow> pre (add_link (link_key meta) k st1)"
begin

lemma entries_walked:
  assumes "\<And>c st k st'. c \<in> snd ` set es \<Longrightarrow> good c \<Longrightarrow> pre st \<Longrightarrow> build_tree_recursive hash c st = Inr (k, st') \<Longrightarrow>
      node c st k st'"
    and "\<And>e. e \<in> set es \<Longrightarrow> good (snd e)" and "pre st" and "build_entries hash es children st = Inr (ch, st')"
  shows "entries es children st ch st'"
  using assms
proof (induction es arbitrary: children st)
  case Nil
  then show ?case using walk_none by simp
next
  case (Cons e es)
  obtain name c where e: "e = (name, c)" by (cases e)
  obtain meta where meta: "src_stat c = Some meta"
    using Cons.prems(4) by (cases "src_stat c") (auto simp: e build_entries_step)
  have good: "good c" using Cons.prems(2) [of e] by (simp add: e)
  note pre = Cons.prems(3)
  note step = Cons.prems(4) [unfolded e build_entries_step meta ok_or_simps and_then_simps Let_def]
  have IH: "entries es chs st1 ch st'" if "pre st1" "build_entries hash es chs st1 = Inr (ch, st')" for chs st1
    by (rule Cons.IH [OF Cons.prems(1,2) that]) simp_all
  show ?case
  proof (cases "Option.bind (link_key meta) (bs_hardlink_map st)")
    case (Some k)
    then obtain key where key: "link_key meta = Some key" "bs_hardlink_map st key = Some k"
      by (auto simp: bind_eq_Some_conv)
    have "build_entries hash es (children @ [entry_of name meta k]) st = Inr (ch, st')" using step Some by simp
    from walk_linked [OF good pre meta key IH [OF pre this]] show ?thesis by (simp only: e)
  next
    case None
    then obtain k st1 where run: "build_tree_recursive hash c st = Inr (k, st1)"
      and rest: "build_entries hash es (children @ [entry_of name meta k]) (add_link (link_key meta) k st1) = Inr (ch, st')"
      using step by (auto simp: and_then_Inr_iff)
    have n: "node c st k st1" by (rule Cons.prems(1) [OF _ good pre run]) (simp add: e)
    from walk_child [OF good pre meta None n IH [OF walk_next [OF good pre meta n] rest]] show ?thesis by (simp only: e)
  qed
qed

lemma node_walked: "good n \<Longrightarrow> pre st \<Longrightarrow> build_tree_recursive hash n st = Inr (k, st') \<Longrightarrow> node n st k st'"
proof (induction n arbitrary: st k st' rule: measure_induct_rule [of size])
  case (less n)
  obtain meta where meta: "src_stat n = Some meta"
    using less.prems(3) by (cases "src_stat n") (auto simp: build_tree_recursive.simps)
  show ?case
  proof (cases "is_dir meta")
    case True
    from walk_dir [OF meta True less.prems(3)] obtain es ch st2 where es: "src_entries n = Some es"
      and ents: "build_entries hash (by_name es) [] (dir_pushed n meta st) = Inr (ch, st2)"
      and r: "k = length (bs_inodes st)" "st' = set_children (length (bs_inodes st)) ch st2" .
    have kids: "node c s j s'"
      if "c \<in> snd ` set (by_name es)" "good c" "pre s" "build_tree_recursive hash c s = Inr (j, s')" for c s j s'
      using less.IH [OF _ that(2-4)] size_child [OF es] that(1) by (auto simp: by_name_def)
    have "entries (by_name es) [] (dir_pushed n meta st) ch st2"
      by (rule entries_walked [OF kids _ walk_enter [OF less.prems(1,2) meta True] ents])
        (use good_entries [OF less.prems(1) es] in \<open>simp_all add: by_name_def\<close>)
    from walk_leave [OF less.prems(1,2) meta True es this] show ?thesis by (simp only: r)
  next
    case False
    then show ?thesis using less.prems(3) by (rule walk_leaf [OF less.prems(1,2) meta])
  qed
qed

lemma build_walked:
  assumes "good source" and "pre \<lparr>bs_blob = bw, bs_inodes = [], bs_ino_counter = 0, bs_hardlink_map = (\<lambda>_. None)\<rparr>"
    and "build_tree hash source bw = Inr (inodes, bw')"
  obtains k st where "node source \<lparr>bs_blob = bw, bs_inodes = [], bs_ino_counter = 0, bs_hardlink_map = (\<lambda>_. None)\<rparr> k st"
    and "inodes = bs_inodes st" and "bw' = bs_blob st"
  using assms by (auto simp: build_tree_def and_then_Inr_iff dest!: node_walked)

end

subsection \<open>Accounts\<close>

locale walk_account =
  fixes hash :: "u8 list \<Rightarrow> 'h"
    and account :: "'m \<Rightarrow> 'h build_state \<Rightarrow> 'h build_state \<Rightarrow> bool"
    and amount :: "src \<Rightarrow> 'm"
    and total :: "(u8 list \<times> src) list \<Rightarrow> 'm"
    and good :: "src \<Rightarrow> bool"
  assumes good_entries: "good n \<Longrightarrow> src_entries n = Some es \<Longrightarrow> e \<in> set es \<Longrightarrow> good (snd e)"
    and leaf: "good n \<Longrightarrow> src_stat n = Some meta \<Longrightarrow> \<not> is_dir meta \<Longrightarrow>
      build_tree_recursive hash n st = Inr (k, st') \<Longrightarrow> account (amount n) st st'"
    and dir: "good n \<Longrightarrow> src_stat n = Some meta \<Longrightarrow> is_dir meta \<Longrightarrow> src_entries n = Some es \<Longrightarrow> length ch = length es \<Longrightarrow>
      account (total (by_name es)) (dir_pushed n meta st) st2 \<Longrightarrow>
      account (amount n) st (set_children (length (bs_inodes st)) ch st2)"
    and none: "account (total []) st st"
    and linked: "good c \<Longrightarrow> src_stat c = Some meta \<Longrightarrow> link_key meta = Some key \<Longrightarrow> bs_hardlink_map st key = Some k \<Longrightarrow>
      account (total es) st st' \<Longrightarrow> account (total ((name, c) # es)) st st'"
    and child: "good c \<Longrightarrow> src_stat c = Some meta \<Longrightarrow> Option.bind (link_key meta) (bs_hardlink_map st) = None \<Longrightarrow>
      account (amount c) st st1 \<Longrightarrow>
      account (total es) (add_link (link_key meta) k st1) st' \<Longrightarrow> account (total ((name, c) # es)) st st'"
begin

lemma account_leave:
  "good n \<Longrightarrow> src_stat n = Some meta \<Longrightarrow> is_dir meta \<Longrightarrow> src_entries n = Some es \<Longrightarrow>
     account (total (by_name es)) (dir_pushed n meta st) st2 \<and> length ch = length ([] :: dir_entry list) + length (by_name es) \<Longrightarrow>
     account (amount n) st (set_children (length (bs_inodes st)) ch st2)"
  using dir [of n meta es ch st st2] by (simp add: by_name_def)

end

sublocale walk_account \<subseteq> account_walk: tree_walk hash good "\<lambda>_. True" "\<lambda>n st k st'. account (amount n) st st'"
  "\<lambda>es children st ch st'. account (total es) st st' \<and> length ch = length children + length es"
  by unfold_locales
    (auto intro: leaf account_leave none linked child dest: good_entries)

context walk_account
begin

lemma build_accounts:
  assumes "good source" and "build_tree hash source bw = Inr (inodes, bw')"
  obtains st where "account (amount source)
      \<lparr>bs_blob = bw, bs_inodes = [], bs_ino_counter = 0, bs_hardlink_map = (\<lambda>_. None)\<rparr> st"
    and "inodes = bs_inodes st" and "bw' = bs_blob st"
  using account_walk.build_walked [OF assms(1) TrueI assms(2)] by metis

end

end
