(* ===== verification/Dirent_Format.thy ===== *)
theory Dirent_Format
  imports Metadata
begin

text \<open>
  \<^verbatim>\<open>src/metadata/dir.rs\<close>: the 12-byte directory entry.
\<close>

record erofs_dirent =
  de_nid :: "u8 list"
  de_nameoff :: "u8 list"
  de_file_type :: u8
  de_reserved :: u8

definition dirent_ok :: "erofs_dirent \<Rightarrow> bool" where
  \<comment> \<open>every field is an array of its declared size\<close>
  "dirent_ok s \<longleftrightarrow>
     length (de_nid s) = 8 \<and> length (de_nameoff s) = 2"

definition dirent_as_bytes :: "erofs_dirent \<Rightarrow> u8 list" where
  "dirent_as_bytes s =
     de_nid s @ de_nameoff s @ [de_file_type s] @ [de_reserved s]"

definition dirent_view :: "u8 list \<Rightarrow> erofs_dirent" where
  "dirent_view bs =
     \<lparr>de_nid = bytes_at 0 8 bs, de_nameoff = bytes_at 8 2 bs, de_file_type = bs ! 10,
      de_reserved = bs ! 11\<rparr>"

definition dirent_zeroed :: erofs_dirent where
  \<comment> \<open>\<^verbatim>\<open>mem::zeroed()\<close>\<close>
  "dirent_zeroed =
     \<lparr>de_nid = replicate 8 0, de_nameoff = replicate 2 0, de_file_type = 0,
      de_reserved = 0\<rparr>"

interpretation dirent_codec:
  exact_codec dirent_as_bytes dirent_view EROFS_DIRENT_SIZE dirent_ok
proof
  fix x rest
  assume ok: "dirent_ok x"
  then show "length (dirent_as_bytes x) = EROFS_DIRENT_SIZE"
    by (simp add: dirent_ok_def dirent_as_bytes_def)
  from ok show "dirent_view (dirent_as_bytes x @ rest) = x"
    by (cases x) (simp add: dirent_ok_def dirent_as_bytes_def dirent_view_def
        bytes_at_append_right bytes_at_Cons nth_append)
next
  fix bs :: "u8 list"
  show "dirent_as_bytes (dirent_view bs) = bs" if "length bs = EROFS_DIRENT_SIZE"
    using that
    by (simp add: dirent_as_bytes_def dirent_view_def singleton_bytes_at bytes_at_join
        bytes_at_all del: bytes_at_0)
  show "dirent_ok (dirent_view bs)" if "EROFS_DIRENT_SIZE \<le> length bs"
    using that by (simp add: dirent_ok_def dirent_view_def)
qed

definition dirent_nid :: "erofs_dirent \<Rightarrow> u64" where "dirent_nid d = get_u64 (de_nid d)"
definition dirent_nameoff :: "erofs_dirent \<Rightarrow> u16" where "dirent_nameoff d = get_u16 (de_nameoff d)"
definition dirent_file_type :: "erofs_dirent \<Rightarrow> u8" where "dirent_file_type d = de_file_type d"

definition dirent_new :: "u64 \<Rightarrow> u16 \<Rightarrow> u8 \<Rightarrow> erofs_dirent" where
  "dirent_new nid nameoff file_type =
     dirent_zeroed
       \<lparr>de_nid := set_u64 nid,
        de_nameoff := set_u16 nameoff,
        de_file_type := file_type\<rparr>"

lemma dirent_new_ok [simp]: "dirent_ok (dirent_new n o' t)"
  by (simp add: dirent_ok_def dirent_new_def dirent_zeroed_def)

lemma dirent_new_fields [simp]:
  "dirent_nid (dirent_new n o' t) = n"
  "dirent_nameoff (dirent_new n o' t) = o'"
  "dirent_file_type (dirent_new n o' t) = t"
  by (simp_all add: dirent_new_def dirent_nid_def dirent_nameoff_def dirent_file_type_def)

lemma length_dirent_bytes [simp, layout_simps]: "length (dirent_as_bytes (dirent_new n o' t)) = 12"
  using dirent_codec.enc_length [OF dirent_new_ok] by simp

end
