(* ===== verification/Build_Dir.thy ===== *)
theory Build_Dir
  imports Dirent_Format
begin

text \<open>
  \<^verbatim>\<open>src/build/dir.rs\<close>: serialisation of a directory into 4096-byte blocks, each an array of
  12-byte entries followed by the names. A name is its UTF-8 bytes. The two nested loops of the
  code are \<open>fill_block\<close> (how many entries fit) and \<open>serialize_blocks\<close>; the writes into a block are
  \<open>write_entries\<close>. \<open>block_image\<close> is the closed form of a block.
\<close>

record dir_child =
  dc_name :: "u8 list"
  dc_nid :: u64
  dc_file_type :: u8

type_synonym dir_ent = "u8 list \<times> u64 \<times> u8"

fun fill_block :: "dir_ent list \<Rightarrow> nat \<Rightarrow> nat \<Rightarrow> nat" where
  \<comment> \<open>the inner loop: the entries from \<open>idx\<close> on, how many are taken, and \<open>name_area\<close>\<close>
  "fill_block [] taken name_area = taken"
| "fill_block ((name, nid, ft) # rest) taken name_area =
     (let new_dirent_area = (taken + 1) * EROFS_DIRENT_SIZE;
          new_name_area = name_area + length name
      in if new_dirent_area + new_name_area > EROFS_BLOCK_SIZE then taken
         else fill_block rest (taken + 1) new_name_area)"

fun write_entries :: "dir_ent list \<Rightarrow> nat \<Rightarrow> nat \<Rightarrow> u8 list \<Rightarrow> error + u8 list" where
  "write_entries [] i name_offset block = Inr block"
| "write_entries ((name, nid, ft) # rest) i name_offset block =
     (let de = dirent_new nid (word_of_nat name_offset) ft;
          de_offset = i * EROFS_DIRENT_SIZE
      in and_then (copy_at de_offset (dirent_as_bytes de) block) (\<lambda>block.
         and_then (copy_at name_offset name block) (\<lambda>block.
         write_entries rest (i + 1) (name_offset + length name) block)))"

function serialize_blocks :: "dir_ent list \<Rightarrow> u8 list \<Rightarrow> error + u8 list" where
  "serialize_blocks entries result =
     (if entries = [] then Inr result
      else
        let taken = fill_block entries 0 0 in
        if taken = 0 then Inl (Panic AssertionFailed)
        else
          and_then (write_entries (take taken entries) 0 (taken * EROFS_DIRENT_SIZE)
                     (replicate EROFS_BLOCK_SIZE 0)) (\<lambda>block.
          serialize_blocks (drop taken entries) (result @ block)))"
  by pat_completeness auto
termination
  by (relation "measure (\<lambda>(entries, _). length entries)") auto

declare serialize_blocks.simps [simp del]

definition dir_entries :: "dir_child list \<Rightarrow> u64 \<Rightarrow> u64 \<Rightarrow> dir_ent list" where
  "dir_entries children self_nid parent_nid =
     [(bytes ''.'', self_nid, EROFS_FT_DIR), (bytes ''..'', parent_nid, EROFS_FT_DIR)] @
     map (\<lambda>c. (dc_name c, dc_nid c, dc_file_type c)) children"

definition serialize_directory :: "dir_child list \<Rightarrow> u64 \<Rightarrow> u64 \<Rightarrow> error + u8 list" where
  "serialize_directory children self_nid parent_nid =
     serialize_blocks (dir_entries children self_nid parent_nid) []"

subsection \<open>How much one block holds\<close>

definition names_len :: "dir_ent list \<Rightarrow> nat" where
  "names_len es = sum_list (map (\<lambda>(name, _). length name) es)"

lemma names_len_simps [simp]:
  "names_len [] = 0"
  "names_len ((name, nid, ft) # es) = length name + names_len es"
  "names_len (es @ fs) = names_len es + names_len fs"
  by (simp_all add: names_len_def)

lemma fill_block_bounds:
  "taken \<le> fill_block es taken na \<and> fill_block es taken na \<le> taken + length es"
  by (induction es taken na rule: fill_block.induct) (force simp: Let_def)+

lemma fill_block_fits:
  assumes "taken * 12 + na \<le> 4096"
  shows "fill_block es taken na * 12 + na + names_len (take (fill_block es taken na - taken) es) \<le> 4096"
  using assms
proof (induction es taken na rule: fill_block.induct)
  case (1 taken na)
  then show ?case by simp
next
  case (2 name nid ft rest taken na)
  show ?case
  proof (cases "(taken + 1) * 12 + (na + length name) > 4096")
    case True
    then show ?thesis using "2.prems" by simp
  next
    case False
    let ?n = "fill_block rest (taken + 1) (na + length name)"
    have "?n * 12 + (na + length name) + names_len (take (?n - (taken + 1)) rest) \<le> 4096"
      using "2.IH" False by simp
    moreover have "?n - taken = Suc (?n - (taken + 1))"
      using fill_block_bounds [of "taken + 1" rest "na + length name"] by arith
    ultimately show ?thesis using False by simp
  qed
qed

lemma fill_block_pos:
  assumes "12 + length (fst e) \<le> 4096"
  shows "0 < fill_block (e # es) 0 0"
proof -
  obtain name nid ft where e: "e = (name, nid, ft)" by (rule prod_cases3)
  show ?thesis
    using assms fill_block_bounds [of 1 es "length name"] by (simp add: e)
qed

subsection \<open>The image of a block\<close>

fun dirents_of :: "nat \<Rightarrow> dir_ent list \<Rightarrow> erofs_dirent list" where
  "dirents_of noff [] = []"
| "dirents_of noff ((name, nid, ft) # es) =
     dirent_new nid (word_of_nat noff) ft # dirents_of (noff + length name) es"

definition names_of :: "dir_ent list \<Rightarrow> u8 list" where
  "names_of es = concat (map fst es)"

lemma names_of_simps [simp]:
  "names_of [] = []" "names_of ((name, nid, ft) # es) = name @ names_of es"
  by (simp_all add: names_of_def)

lemma length_names_of [simp]: "length (names_of es) = names_len es"
  by (induction es) auto

lemma length_dirents_of [simp]: "length (dirents_of noff es) = length es"
  by (induction noff es rule: dirents_of.induct) auto

lemma dirents_of_ok: "d \<in> set (dirents_of noff es) \<Longrightarrow> dirent_ok d"
  by (induction noff es rule: dirents_of.induct) auto

lemma length_dirents_bytes [simp]:
  "length (concat (map dirent_as_bytes (dirents_of noff es))) = 12 * length es"
  using dirent_codec.length_concat_enc [of "dirents_of noff es"] by (simp add: dirents_of_ok)

definition block_image :: "dir_ent list \<Rightarrow> u8 list" where
  "block_image es =
     concat (map dirent_as_bytes (dirents_of (12 * length es) es)) @ names_of es @
     replicate (4096 - 12 * length es - names_len es) 0"

lemma length_block_image: "12 * length es + names_len es \<le> 4096 \<Longrightarrow> length (block_image es) = 4096"
  by (simp add: block_image_def)

lemma write_entries_image:
  assumes "length p = 12 * i" and "noff = 12 * i + 12 * length es + length q"
    and "names_len es \<le> k"
  shows "write_entries es i noff (p @ replicate (12 * length es) 0 @ q @ replicate k 0) =
    Inr (p @ concat (map dirent_as_bytes (dirents_of noff es)) @ q @ names_of es @
         replicate (k - names_len es) 0)"
  using assms
proof (induction es arbitrary: i noff p q k)
  case Nil
  then show ?case by simp
next
  case (Cons e es)
  obtain name nid ft where e: "e = (name, nid, ft)" by (rule prod_cases3)
  let ?d = "dirent_as_bytes (dirent_new nid (word_of_nat noff) ft)"
  have z: "replicate (12 * length (e # es)) (0 :: u8) = replicate 12 0 @ replicate (12 * length es) 0"
    by (simp flip: replicate_add)
  have zk: "replicate k (0 :: u8) = replicate (length name) 0 @ replicate (k - length name) 0"
    using Cons.prems(3) by (simp add: e flip: replicate_add)
  have s1: "copy_at (12 * i) ?d (p @ replicate 12 0 @ replicate (12 * length es) 0 @ q @ replicate k 0) =
      Inr (p @ ?d @ replicate (12 * length es) 0 @ q @ replicate k 0)"
    using Cons.prems(1) by (intro copy_at_append) simp_all
  let ?pre = "p @ ?d @ replicate (12 * length es) 0 @ q"
  have "copy_at noff name (?pre @ replicate (length name) 0 @ replicate (k - length name) 0) =
      Inr (?pre @ name @ replicate (k - length name) 0)"
    using Cons.prems(1,2) by (intro copy_at_append) simp_all
  then have s2: "copy_at noff name (p @ ?d @ replicate (12 * length es) 0 @ q @ replicate k 0) =
      Inr (p @ ?d @ replicate (12 * length es) 0 @ q @ name @ replicate (k - length name) 0)"
    by (simp add: zk)
  have "write_entries es (i + 1) (noff + length name)
        ((p @ ?d) @ replicate (12 * length es) 0 @ (q @ name) @ replicate (k - length name) 0) =
      Inr ((p @ ?d) @ concat (map dirent_as_bytes (dirents_of (noff + length name) es)) @ (q @ name) @
           names_of es @ replicate (k - length name - names_len es) 0)"
    using Cons.prems by (intro Cons.IH) (simp_all add: e)
  with s1 s2 show ?case
    unfolding e z [unfolded e] by (simp add: mult.commute diff_diff_left)
qed

lemma write_block:
  assumes "12 * length es + names_len es \<le> 4096"
  shows "write_entries es 0 (length es * 12) (replicate 4096 0) = Inr (block_image es)"
proof -
  have "replicate 4096 (0 :: u8) = [] @ replicate (12 * length es) 0 @ [] @ replicate (4096 - 12 * length es) 0"
    using assms by (simp flip: replicate_add)
  then show ?thesis
    using assms write_entries_image [of "[]" 0 "length es * 12" es "[]" "4096 - 12 * length es"]
    by (simp add: block_image_def mult.commute)
qed

text \<open>The blocks a list of entries is split into, and the closed form of the whole directory.\<close>

function dir_blocks_of :: "dir_ent list \<Rightarrow> dir_ent list list" where
  "dir_blocks_of es =
     (if es = [] \<or> fill_block es 0 0 = 0 then []
      else take (fill_block es 0 0) es # dir_blocks_of (drop (fill_block es 0 0) es))"
  by pat_completeness auto
termination
  by (relation "measure length") auto

declare dir_blocks_of.simps [simp del]

definition names_fit :: "dir_ent list \<Rightarrow> bool" where
  "names_fit es \<longleftrightarrow> (\<forall>e \<in> set es. 12 + length (fst e) \<le> 4096)"

lemma names_fit_drop: "names_fit es \<Longrightarrow> names_fit (drop n es)"
  by (auto simp: names_fit_def dest: in_set_dropD)

lemma names_fit_fill: "names_fit es \<Longrightarrow> es \<noteq> [] \<Longrightarrow> 0 < fill_block es 0 0"
  by (cases es) (auto simp: names_fit_def intro: fill_block_pos simp del: fill_block.simps)

lemma taken_fits:
  "12 * length (take (fill_block es 0 0) es) + names_len (take (fill_block es 0 0) es) \<le> 4096"
proof -
  have "length (take (fill_block es 0 0) es) = fill_block es 0 0"
    using fill_block_bounds [of 0 es 0] by simp
  then show ?thesis
    using fill_block_fits [of 0 0 es] by (simp only:) simp
qed

lemma serialize_blocks_eq:
  "names_fit es \<Longrightarrow>
     serialize_blocks es result = Inr (result @ concat (map block_image (dir_blocks_of es)))"
proof (induction es result rule: serialize_blocks.induct)
  case (1 es result)
  show ?case
  proof (cases "es = []")
    case True
    then show ?thesis by (simp add: serialize_blocks.simps dir_blocks_of.simps)
  next
    case False
    let ?n = "fill_block es 0 0"
    have pos: "0 < ?n" using "1.prems" False by (rule names_fit_fill)
    have len: "length (take ?n es) = ?n"
      using fill_block_bounds [of 0 es 0] by simp
    have w: "write_entries (take ?n es) 0 (?n * 12) (replicate 4096 0) = Inr (block_image (take ?n es))"
      using write_block [OF taken_fits [of es]] unfolding len .
    have "serialize_blocks (drop ?n es) (result @ block_image (take ?n es)) =
        Inr ((result @ block_image (take ?n es)) @ concat (map block_image (dir_blocks_of (drop ?n es))))"
      using False pos w "1.prems" by (intro "1.IH") (simp_all add: names_fit_drop)
    then show ?thesis
      using False pos w
      by (simp add: serialize_blocks.simps [of es result] dir_blocks_of.simps [of es] Let_def)
  qed
qed

lemma concat_dir_blocks: "names_fit es \<Longrightarrow> concat (dir_blocks_of es) = es"
proof (induction es rule: dir_blocks_of.induct)
  case (1 es)
  then show ?case
    using names_fit_fill [of es]
    by (cases "es = []"; subst dir_blocks_of.simps) (auto simp: names_fit_drop)
qed

lemma dir_blocks_fit:
  "b \<in> set (dir_blocks_of es) \<Longrightarrow> b \<noteq> [] \<and> 12 * length b + names_len b \<le> 4096"
proof (induction es rule: dir_blocks_of.induct)
  case (1 es)
  then show ?case
    using taken_fits [of es]
    by (cases "es = [] \<or> fill_block es 0 0 = 0") (auto simp: dir_blocks_of.simps [of es])
qed

lemma serialize_directory_eq:
  assumes "names_fit (dir_entries children self_nid parent_nid)"
  shows "serialize_directory children self_nid parent_nid =
    Inr (concat (map block_image (dir_blocks_of (dir_entries children self_nid parent_nid))))"
  unfolding serialize_directory_def using serialize_blocks_eq [OF assms, of "[]"] by simp

lemma length_dir_image:
  "length (concat (map block_image (dir_blocks_of es))) = 4096 * length (dir_blocks_of es)"
proof -
  have "\<forall>b \<in> set bs. length (block_image b) = 4096 \<Longrightarrow>
      length (concat (map block_image bs)) = 4096 * length bs" for bs
    by (induction bs) auto
  then show ?thesis
    using dir_blocks_fit length_block_image by blast
qed

end
