(* ===== verification/Layout.thy ===== *)
theory Layout
  imports Metadata
begin

text \<open>
  \<^verbatim>\<open>src/metadata/layout.rs\<close>: the allocator of the metadata area, a growing zero-filled buffer with a
  cursor. The interface \<open>allocator\<close> states what the image builder relies on: an allocation
  returns a fresh aligned range and only ever appends zeros. Both allocating operations are
  interpretations of it.
\<close>

record metadata_layout =
  lay_buf :: "u8 list"
  lay_cursor :: nat
  lay_meta_blkaddr :: u32

definition layout_new :: metadata_layout where
  "layout_new = \<lparr>lay_buf = [], lay_cursor = 0, lay_meta_blkaddr = 1\<rparr>"

definition round_up_usize :: "nat \<Rightarrow> nat \<Rightarrow> nat" where
  "round_up_usize val align = round_up val align"

definition layout_grow :: "metadata_layout \<Rightarrow> metadata_layout" where
  \<comment> \<open>\<^verbatim>\<open>if self.buf.len() < self.cursor { self.buf.resize(self.cursor, 0) }\<close>\<close>
  "layout_grow l =
     (if length (lay_buf l) < lay_cursor l
      then l\<lparr>lay_buf := lay_buf l @ replicate (lay_cursor l - length (lay_buf l)) 0\<rparr>
      else l)"

definition alloc_inode :: "metadata_layout \<Rightarrow> nat \<Rightarrow> (nat \<times> u64) \<times> metadata_layout" where
  "alloc_inode l sz =
     (let aligned = round_up_usize sz EROFS_SLOTSIZE;
          offset = lay_cursor l;
          l = layout_grow (l\<lparr>lay_cursor := lay_cursor l + aligned\<rparr>);
          nid = word_of_nat (offset div EROFS_SLOTSIZE)
      in ((offset, nid), l))"

definition pad_to_block :: "metadata_layout \<Rightarrow> nat \<times> metadata_layout" where
  "pad_to_block l =
     (let aligned = round_up_usize (lay_cursor l) EROFS_BLOCK_SIZE;
          l = layout_grow (l\<lparr>lay_cursor := aligned\<rparr>)
      in (lay_cursor l, l))"

definition alloc_dir_data :: "metadata_layout \<Rightarrow> nat \<Rightarrow> (nat \<times> u64) \<times> metadata_layout" where
  "alloc_dir_data l sz =
     (let l = l\<lparr>lay_cursor := round_up_usize (lay_cursor l) EROFS_BLOCK_SIZE\<rparr>;
          offset = lay_cursor l;
          aligned_size = round_up_usize sz EROFS_BLOCK_SIZE;
          l = layout_grow (l\<lparr>lay_cursor := lay_cursor l + aligned_size\<rparr>);
          startblk = ucast (lay_meta_blkaddr l) + word_of_nat (offset div EROFS_BLOCK_SIZE)
      in ((offset, startblk), l))"

definition write_at :: "metadata_layout \<Rightarrow> nat \<Rightarrow> u8 list \<Rightarrow> error + metadata_layout" where
  "write_at l offset data =
     and_then (copy_at offset data (lay_buf l)) (\<lambda>b. Inr (l\<lparr>lay_buf := b\<rparr>))"

definition total_blocks :: "metadata_layout \<Rightarrow> u64" where
  "total_blocks l =
     word_of_nat (round_up_usize (length (lay_buf l)) EROFS_BLOCK_SIZE) div word_of_nat EROFS_BLOCK_SIZE"

subsection \<open>The interface\<close>

fun alloc_seq :: "('l \<Rightarrow> nat \<Rightarrow> (nat \<times> u64) \<times> 'l) \<Rightarrow> 'l \<Rightarrow> nat list \<Rightarrow> (nat \<times> u64) list \<times> 'l" where
  \<comment> \<open>a run of allocations, in order\<close>
  "alloc_seq alloc l [] = ([], l)"
| "alloc_seq alloc l (n # ns) =
     (case alloc l n of (r, l1) \<Rightarrow> (case alloc_seq alloc l1 ns of (rs, l2) \<Rightarrow> (r # rs, l2)))"

definition ranges_apart :: "nat \<times> nat \<Rightarrow> nat \<times> nat \<Rightarrow> bool" where
  \<comment> \<open>two (offset, length) ranges do not overlap, the first one below\<close>
  "ranges_apart = (\<lambda>(o1, n1) (o2, n2). o1 + n1 \<le> o2)"

locale allocator =
  fixes alloc :: "'l \<Rightarrow> nat \<Rightarrow> (nat \<times> u64) \<times> 'l"
    and contents :: "'l \<Rightarrow> u8 list"
    and inv :: "'l \<Rightarrow> bool"
    and align :: nat
    and limit :: nat
  assumes alloc_step:
    "inv l \<Longrightarrow> length (contents l) + n + 2 * align \<le> limit \<Longrightarrow> alloc l n = ((off, h), l') \<Longrightarrow>
       inv l' \<and> length (contents l) \<le> off \<and> align dvd off \<and> off + n \<le> length (contents l') \<and>
       (\<exists>k. contents l' = contents l @ replicate k 0) \<and>
       length (contents l') \<le> length (contents l) + n + 2 * align"
begin

definition fits :: "'l \<Rightarrow> nat list \<Rightarrow> bool" where
  "fits l ns \<longleftrightarrow> length (contents l) + sum_list (map (\<lambda>n. n + 2 * align) ns) \<le> limit"

lemma alloc_seq_run:
  assumes "inv l" and "fits l ns" and "alloc_seq alloc l ns = (rs, l')"
  shows "inv l' \<and> length rs = length ns \<and>
    (\<exists>k. contents l' = contents l @ replicate k 0) \<and>
    length (contents l') \<le> length (contents l) + sum_list (map (\<lambda>n. n + 2 * align) ns) \<and>
    (\<forall>i < length ns. align dvd fst (rs ! i) \<and> length (contents l) \<le> fst (rs ! i) \<and>
       fst (rs ! i) + ns ! i \<le> length (contents l')) \<and>
    sorted_wrt ranges_apart (zip (map fst rs) ns)"
  using assms
proof (induction ns arbitrary: l rs)
  case Nil
  then show ?case by (auto intro: exI [of _ 0])
next
  case (Cons n ns)
  obtain off h l1 where a: "alloc l n = ((off, h), l1)"
    by (metis surj_pair)
  obtain rs' where rs: "alloc_seq alloc l1 ns = (rs', l')" "rs = (off, h) # rs'"
    using Cons.prems(3) a by (auto split: prod.splits)
  have len: "length (contents l) + n + 2 * align \<le> limit"
    using Cons.prems(2) by (simp add: fits_def)
  note s = alloc_step [OF Cons.prems(1) len a]
  have "fits l1 ns"
    using s Cons.prems(2) by (simp add: fits_def)
  note IH = Cons.IH [OF _ this rs(1)]
  have "\<forall>i < length ns. off + n \<le> fst (rs' ! i)"
    using IH s by (meson le_trans)
  then have "\<forall>y \<in> set (zip (map fst rs') ns). ranges_apart (off, n) y"
    using IH s by (auto simp: ranges_apart_def set_zip)
  moreover obtain k k' where "contents l1 = contents l @ replicate k 0"
    and "contents l' = contents l1 @ replicate k' 0"
    using s IH by blast
  then have app: "contents l' = contents l @ replicate (k + k') 0"
    and grow: "length (contents l1) \<le> length (contents l')"
    by (simp_all add: replicate_add)
  have "off + n \<le> length (contents l')"
    using s grow by linarith
  moreover have "length (contents l') \<le> length (contents l) + sum_list (map (\<lambda>n. n + 2 * align) (n # ns))"
    using s IH by simp
  moreover have "\<exists>k. contents l' = contents l @ replicate k 0"
    using app by blast
  ultimately show ?case
    using s IH rs(2) by (auto simp: nth_Cons simp del: replicate_add split: nat.splits)
qed

end

subsection \<open>The operations meet the interface\<close>

definition layout_inv :: "metadata_layout \<Rightarrow> bool" where
  "layout_inv l \<longleftrightarrow> lay_cursor l = length (lay_buf l) \<and> 32 dvd lay_cursor l \<and> lay_meta_blkaddr l = 1"

lemma layout_inv_new: "layout_inv layout_new"
  by (simp add: layout_inv_def layout_new_def)

lemma layout_grow_props [simp]:
  "lay_cursor (layout_grow l) = lay_cursor l"
  "lay_meta_blkaddr (layout_grow l) = lay_meta_blkaddr l"
  "length (lay_buf (layout_grow l)) = max (length (lay_buf l)) (lay_cursor l)"
  "lay_buf (layout_grow l) = lay_buf l @ replicate (lay_cursor l - length (lay_buf l)) 0"
  by (auto simp: layout_grow_def)

lemma alloc_inode_eq:
  assumes "layout_inv l" and "sz \<le> 2 ^ 63"
  shows "alloc_inode l sz =
    ((length (lay_buf l), word_of_nat (length (lay_buf l) div 32)),
     l\<lparr>lay_buf := lay_buf l @ replicate (sz + pad_len sz 32) 0,
       lay_cursor := length (lay_buf l) + (sz + pad_len sz 32)\<rparr>)"
  using assms
  by (auto simp: alloc_inode_def layout_grow_def layout_inv_def round_up_usize_def round_up_32 Let_def)

lemma pad_to_block_eq:
  assumes "layout_inv l" and "length (lay_buf l) \<le> 2 ^ 63"
  shows "pad_to_block l =
    (length (lay_buf l) + pad_len (length (lay_buf l)) 4096,
     l\<lparr>lay_buf := lay_buf l @ replicate (pad_len (length (lay_buf l)) 4096) 0,
       lay_cursor := length (lay_buf l) + pad_len (length (lay_buf l)) 4096\<rparr>)"
  using assms
  by (auto simp: pad_to_block_def layout_grow_def layout_inv_def round_up_usize_def round_up_4096 Let_def)

lemma alloc_dir_data_eq:
  assumes "layout_inv l" and "length (lay_buf l) \<le> 2 ^ 63" and "sz \<le> 2 ^ 63"
  defines "off \<equiv> length (lay_buf l) + pad_len (length (lay_buf l)) 4096"
    and "k \<equiv> sz + pad_len sz 4096"
  shows "alloc_dir_data l sz =
    ((off, 1 + word_of_nat (off div 4096)),
     l\<lparr>lay_buf := lay_buf l @ replicate (pad_len (length (lay_buf l)) 4096 + k) 0,
       lay_cursor := off + k\<rparr>)"
  using assms
  by (auto simp: alloc_dir_data_def layout_grow_def layout_inv_def round_up_usize_def round_up_4096
      Let_def)

lemma dvd_32_4096: "4096 dvd (n :: nat) \<Longrightarrow> 32 dvd n"
  by (rule dvd_trans [of _ 4096]) simp_all

lemma pad_to_block_inv:
  "layout_inv l \<Longrightarrow> length (lay_buf l) \<le> 2 ^ 63 \<Longrightarrow> layout_inv (snd (pad_to_block l))"
  using dvd_add_pad [of 4096 "length (lay_buf l)"]
  by (simp add: pad_to_block_eq) (simp add: layout_inv_def dvd_32_4096)

interpretation inode_slots: allocator alloc_inode lay_buf layout_inv EROFS_SLOTSIZE "2 ^ 63"
proof
  fix l n off h l'
  assume inv: "layout_inv l"
    and fit: "length (lay_buf l) + n + 2 * EROFS_SLOTSIZE \<le> 2 ^ 63"
    and run: "alloc_inode l n = ((off, h), l')"
  have "n \<le> 2 ^ 63" using fit by simp
  note eq = run [unfolded alloc_inode_eq [OF inv this]]
  have "32 dvd n + pad_len n 32" by (rule dvd_add_pad) simp
  moreover have "pad_len n 32 < 32" by (rule pad_len_less) simp
  ultimately show "layout_inv l' \<and> length (lay_buf l) \<le> off \<and> EROFS_SLOTSIZE dvd off \<and>
       off + n \<le> length (lay_buf l') \<and> (\<exists>k. lay_buf l' = lay_buf l @ replicate k 0) \<and>
       length (lay_buf l') \<le> length (lay_buf l) + n + 2 * EROFS_SLOTSIZE"
    using inv eq by (auto simp: layout_inv_def)
qed

interpretation dir_blocks: allocator alloc_dir_data lay_buf layout_inv EROFS_BLOCK_SIZE "2 ^ 63"
proof
  fix l n off h l'
  assume inv: "layout_inv l"
    and fit: "length (lay_buf l) + n + 2 * EROFS_BLOCK_SIZE \<le> 2 ^ 63"
    and run: "alloc_dir_data l n = ((off, h), l')"
  have "length (lay_buf l) \<le> 2 ^ 63" "n \<le> 2 ^ 63" using fit by simp_all
  note eq = run [unfolded alloc_dir_data_eq [OF inv this]]
  let ?p = "pad_len (length (lay_buf l)) 4096"
  have d: "4096 dvd length (lay_buf l) + ?p" "4096 dvd n + pad_len n 4096"
    by (rule dvd_add_pad; simp)+
  then have "4096 dvd (length (lay_buf l) + ?p) + (n + pad_len n 4096)"
    by (rule dvd_add)
  note d32 = dvd_32_4096 [OF this]
  have "?p < 4096" "pad_len n 4096 < 4096" by (rule pad_len_less; simp)+
  then show "layout_inv l' \<and> length (lay_buf l) \<le> off \<and> EROFS_BLOCK_SIZE dvd off \<and>
       off + n \<le> length (lay_buf l') \<and> (\<exists>k. lay_buf l' = lay_buf l @ replicate k 0) \<and>
       length (lay_buf l') \<le> length (lay_buf l) + n + 2 * EROFS_BLOCK_SIZE"
    using inv eq d d32 by (auto simp: layout_inv_def add.assoc)
qed

subsection \<open>Properties\<close>

text \<open>C33: Allocation of inode slots. Any run of inode allocations from a well-formed layout, within the
  address space, returns pairwise disjoint ranges in increasing order, each 32-byte aligned, beyond
  everything allocated before and inside the grown buffer, which keeps its old contents and is zero
  after them; the layout stays well-formed.\<close>

theorem inode_allocations_disjoint:
  assumes "layout_inv l" and "length (lay_buf l) + sum_list (map (\<lambda>n. n + 64) ns) \<le> 2 ^ 63"
    and "alloc_seq alloc_inode l ns = (rs, l')"
  shows "layout_inv l' \<and> length rs = length ns \<and> (\<exists>k. lay_buf l' = lay_buf l @ replicate k 0) \<and>
    (\<forall>i < length ns. 32 dvd fst (rs ! i) \<and> length (lay_buf l) \<le> fst (rs ! i) \<and>
       fst (rs ! i) + ns ! i \<le> length (lay_buf l')) \<and>
    sorted_wrt ranges_apart (zip (map fst rs) ns)"
  using inode_slots.alloc_seq_run [OF assms(1) _ assms(3)] assms(2)
  unfolding inode_slots.fits_def by simp

theorem inode_allocations_disjoint_witness:
  "sorted_wrt ranges_apart (zip (map fst (fst (alloc_seq alloc_inode layout_new [64, 40, 32]))) [64, 40, 32])"
proof -
  obtain rs l' where run: "alloc_seq alloc_inode layout_new [64, 40, 32] = (rs, l')"
    by (metis surj_pair)
  have "length (lay_buf layout_new) + sum_list (map (\<lambda>n. n + 64) [64, 40, 32]) \<le> 2 ^ 63"
    by (simp add: layout_new_def)
  from inode_allocations_disjoint [OF layout_inv_new this run] show ?thesis
    by (simp add: run del: alloc_seq.simps)
qed

text \<open>Allocation of directory blocks. The same holds for directory data, whose ranges are aligned
  to whole blocks.\<close>

lemma dir_allocations_disjoint:
  assumes "layout_inv l" and "length (lay_buf l) + sum_list (map (\<lambda>n. n + 8192) ns) \<le> 2 ^ 63"
    and "alloc_seq alloc_dir_data l ns = (rs, l')"
  shows "layout_inv l' \<and> length rs = length ns \<and> (\<exists>k. lay_buf l' = lay_buf l @ replicate k 0) \<and>
    (\<forall>i < length ns. 4096 dvd fst (rs ! i) \<and> length (lay_buf l) \<le> fst (rs ! i) \<and>
       fst (rs ! i) + ns ! i \<le> length (lay_buf l')) \<and>
    sorted_wrt ranges_apart (zip (map fst rs) ns)"
  using dir_blocks.alloc_seq_run [OF assms(1) _ assms(3)] assms(2)
  unfolding dir_blocks.fits_def by simp

lemma dir_allocations_disjoint_witness:
  "sorted_wrt ranges_apart (zip (map fst (fst (alloc_seq alloc_dir_data layout_new [4096, 8192]))) [4096, 8192])"
proof -
  obtain rs l' where run: "alloc_seq alloc_dir_data layout_new [4096, 8192] = (rs, l')"
    by (metis surj_pair)
  have "length (lay_buf layout_new) + sum_list (map (\<lambda>n. n + 8192) [4096, 8192]) \<le> 2 ^ 63"
    by (simp add: layout_new_def)
  from dir_allocations_disjoint [OF layout_inv_new this run] show ?thesis
    by (simp add: run del: alloc_seq.simps)
qed

end
