(* ===== verification/Superblock.thy ===== *)
theory Superblock
  imports Metadata
begin

text \<open>
  \<^verbatim>\<open>src/metadata/superblock.rs\<close>: the 128-byte packed superblock. A record field is the byte array
  the Rust structure declares; \<open>superblock_view\<close> is the structure \<^verbatim>\<open>cast_ref\<close> sees in bytes, and
  \<open>superblock_as_bytes\<close> is \<^verbatim>\<open>as_bytes\<close>. The two are inverse to each other
  (\<open>superblock_codec\<close>).
\<close>

unbundle bit_operations_syntax

record erofs_superblock =
  sb_magic :: "u8 list"
  sb_checksum :: "u8 list"
  sb_feature_compat :: "u8 list"
  sb_blkszbits :: u8
  sb_sb_extslots :: u8
  sb_rootnid_2b :: "u8 list"
  sb_inos :: "u8 list"
  sb_epoch :: "u8 list"
  sb_fixed_nsec :: "u8 list"
  sb_blocks_lo :: "u8 list"
  sb_meta_blkaddr :: "u8 list"
  sb_xattr_blkaddr :: "u8 list"
  sb_uuid :: "u8 list"
  sb_volume_name :: "u8 list"
  sb_feature_incompat :: "u8 list"
  sb_compr_or_distance :: "u8 list"
  sb_extra_devices :: "u8 list"
  sb_devt_slotoff :: "u8 list"
  sb_dirblkbits :: u8
  sb_xattr_prefix_count :: u8
  sb_xattr_prefix_start :: "u8 list"
  sb_packed_nid :: "u8 list"
  sb_xattr_filter_reserved :: u8
  sb_reserved2 :: "u8 list"
  sb_build_time :: "u8 list"
  sb_rootnid_8b :: "u8 list"
  sb_reserved3 :: "u8 list"

definition superblock_ok :: "erofs_superblock \<Rightarrow> bool" where
  \<comment> \<open>every field is an array of its declared size\<close>
  "superblock_ok s \<longleftrightarrow>
     length (sb_magic s) = 4 \<and> length (sb_checksum s) = 4 \<and> length (sb_feature_compat s) = 4 \<and>
     length (sb_rootnid_2b s) = 2 \<and> length (sb_inos s) = 8 \<and> length (sb_epoch s) = 8 \<and>
     length (sb_fixed_nsec s) = 4 \<and> length (sb_blocks_lo s) = 4 \<and> length (sb_meta_blkaddr s) = 4 \<and>
     length (sb_xattr_blkaddr s) = 4 \<and> length (sb_uuid s) = 16 \<and> length (sb_volume_name s) = 16 \<and>
     length (sb_feature_incompat s) = 4 \<and> length (sb_compr_or_distance s) = 2 \<and> length (sb_extra_devices s) = 2 \<and>
     length (sb_devt_slotoff s) = 2 \<and> length (sb_xattr_prefix_start s) = 4 \<and> length (sb_packed_nid s) = 8 \<and>
     length (sb_reserved2 s) = 3 \<and> length (sb_build_time s) = 8 \<and> length (sb_rootnid_8b s) = 8 \<and>
     length (sb_reserved3 s) = 4"

definition superblock_as_bytes :: "erofs_superblock \<Rightarrow> u8 list" where
  "superblock_as_bytes s =
     sb_magic s @ sb_checksum s @ sb_feature_compat s @ [sb_blkszbits s] @
     [sb_sb_extslots s] @ sb_rootnid_2b s @ sb_inos s @ sb_epoch s @
     sb_fixed_nsec s @ sb_blocks_lo s @ sb_meta_blkaddr s @ sb_xattr_blkaddr s @
     sb_uuid s @ sb_volume_name s @ sb_feature_incompat s @ sb_compr_or_distance s @
     sb_extra_devices s @ sb_devt_slotoff s @ [sb_dirblkbits s] @ [sb_xattr_prefix_count s] @
     sb_xattr_prefix_start s @ sb_packed_nid s @ [sb_xattr_filter_reserved s] @ sb_reserved2 s @
     sb_build_time s @ sb_rootnid_8b s @ sb_reserved3 s"

definition superblock_view :: "u8 list \<Rightarrow> erofs_superblock" where
  "superblock_view bs =
     \<lparr>sb_magic = bytes_at 0 4 bs, sb_checksum = bytes_at 4 4 bs, sb_feature_compat = bytes_at 8 4 bs,
      sb_blkszbits = bs ! 12, sb_sb_extslots = bs ! 13, sb_rootnid_2b = bytes_at 14 2 bs,
      sb_inos = bytes_at 16 8 bs, sb_epoch = bytes_at 24 8 bs, sb_fixed_nsec = bytes_at 32 4 bs,
      sb_blocks_lo = bytes_at 36 4 bs, sb_meta_blkaddr = bytes_at 40 4 bs, sb_xattr_blkaddr = bytes_at 44 4 bs,
      sb_uuid = bytes_at 48 16 bs, sb_volume_name = bytes_at 64 16 bs, sb_feature_incompat = bytes_at 80 4 bs,
      sb_compr_or_distance = bytes_at 84 2 bs, sb_extra_devices = bytes_at 86 2 bs, sb_devt_slotoff = bytes_at 88 2 bs,
      sb_dirblkbits = bs ! 90, sb_xattr_prefix_count = bs ! 91, sb_xattr_prefix_start = bytes_at 92 4 bs,
      sb_packed_nid = bytes_at 96 8 bs, sb_xattr_filter_reserved = bs ! 104, sb_reserved2 = bytes_at 105 3 bs,
      sb_build_time = bytes_at 108 8 bs, sb_rootnid_8b = bytes_at 116 8 bs, sb_reserved3 = bytes_at 124 4 bs\<rparr>"

definition superblock_zeroed :: erofs_superblock where
  \<comment> \<open>\<^verbatim>\<open>mem::zeroed()\<close>\<close>
  "superblock_zeroed =
     \<lparr>sb_magic = replicate 4 0, sb_checksum = replicate 4 0, sb_feature_compat = replicate 4 0,
      sb_blkszbits = 0, sb_sb_extslots = 0, sb_rootnid_2b = replicate 2 0,
      sb_inos = replicate 8 0, sb_epoch = replicate 8 0, sb_fixed_nsec = replicate 4 0,
      sb_blocks_lo = replicate 4 0, sb_meta_blkaddr = replicate 4 0, sb_xattr_blkaddr = replicate 4 0,
      sb_uuid = replicate 16 0, sb_volume_name = replicate 16 0, sb_feature_incompat = replicate 4 0,
      sb_compr_or_distance = replicate 2 0, sb_extra_devices = replicate 2 0, sb_devt_slotoff = replicate 2 0,
      sb_dirblkbits = 0, sb_xattr_prefix_count = 0, sb_xattr_prefix_start = replicate 4 0,
      sb_packed_nid = replicate 8 0, sb_xattr_filter_reserved = 0, sb_reserved2 = replicate 3 0,
      sb_build_time = replicate 8 0, sb_rootnid_8b = replicate 8 0, sb_reserved3 = replicate 4 0\<rparr>"

interpretation superblock_codec:
  exact_codec superblock_as_bytes superblock_view EROFS_SB_BASE_SIZE superblock_ok
proof
  fix x rest
  assume ok: "superblock_ok x"
  then show "length (superblock_as_bytes x) = EROFS_SB_BASE_SIZE"
    by (simp add: superblock_ok_def superblock_as_bytes_def)
  from ok show "superblock_view (superblock_as_bytes x @ rest) = x"
    by (cases x) (simp add: superblock_ok_def superblock_as_bytes_def superblock_view_def
        bytes_at_append_right bytes_at_Cons nth_append)
next
  fix bs :: "u8 list"
  show "superblock_as_bytes (superblock_view bs) = bs" if "length bs = EROFS_SB_BASE_SIZE"
    using that
    by (simp add: superblock_as_bytes_def superblock_view_def singleton_bytes_at bytes_at_join
        bytes_at_all del: bytes_at_0)
  show "superblock_ok (superblock_view bs)" if "EROFS_SB_BASE_SIZE \<le> length bs"
    using that by (simp add: superblock_ok_def superblock_view_def)
qed

subsection \<open>Accessors\<close>

definition superblock_magic :: "erofs_superblock \<Rightarrow> u32" where
  "superblock_magic s = get_u32 (sb_magic s)"
definition superblock_feature_compat :: "erofs_superblock \<Rightarrow> u32" where
  "superblock_feature_compat s = get_u32 (sb_feature_compat s)"
definition superblock_feature_incompat :: "erofs_superblock \<Rightarrow> u32" where
  "superblock_feature_incompat s = get_u32 (sb_feature_incompat s)"
definition superblock_root_nid :: "erofs_superblock \<Rightarrow> u64" where
  "superblock_root_nid s = ucast (get_u16 (sb_rootnid_2b s))"
definition superblock_inos :: "erofs_superblock \<Rightarrow> u64" where
  "superblock_inos s = get_u64 (sb_inos s)"
definition superblock_epoch :: "erofs_superblock \<Rightarrow> u64" where
  "superblock_epoch s = get_u64 (sb_epoch s)"
definition superblock_blocks :: "erofs_superblock \<Rightarrow> u64" where
  "superblock_blocks s = ucast (get_u32 (sb_blocks_lo s))"
definition superblock_meta_blkaddr :: "erofs_superblock \<Rightarrow> u32" where
  "superblock_meta_blkaddr s = get_u32 (sb_meta_blkaddr s)"
definition superblock_extra_devices :: "erofs_superblock \<Rightarrow> u16" where
  "superblock_extra_devices s = get_u16 (sb_extra_devices s)"

lemmas superblock_accessors =
  superblock_magic_def superblock_feature_compat_def superblock_feature_incompat_def
  superblock_root_nid_def superblock_inos_def superblock_epoch_def superblock_blocks_def
  superblock_meta_blkaddr_def superblock_extra_devices_def

subsection \<open>Construction\<close>

definition superblock_new ::
  "u32 \<Rightarrow> u32 \<Rightarrow> u16 \<Rightarrow> u64 \<Rightarrow> u64 \<Rightarrow> u64 \<Rightarrow> u32 \<Rightarrow> u16 \<Rightarrow> u16 \<Rightarrow> u8 list \<Rightarrow> erofs_superblock" where
  "superblock_new feature_compat feature_incompat root_nid inos epoch blocks meta_blkaddr
     extra_devices devt_slotoff uuid =
     superblock_zeroed
       \<lparr>sb_magic := set_u32 EROFS_SUPER_MAGIC_V1,
        sb_feature_compat := set_u32 (feature_compat AND NOT EROFS_FEATURE_COMPAT_SB_CHKSUM),
        sb_blkszbits := EROFS_BLKSZBITS,
        sb_rootnid_2b := set_u16 root_nid,
        sb_inos := set_u64 inos,
        sb_epoch := set_u64 epoch,
        sb_blocks_lo := set_u32 (ucast blocks),
        sb_meta_blkaddr := set_u32 meta_blkaddr,
        sb_uuid := uuid,
        sb_feature_incompat := set_u32 feature_incompat,
        sb_extra_devices := set_u16 extra_devices,
        sb_devt_slotoff := set_u16 devt_slotoff\<rparr>"

lemma superblock_new_ok: "length uuid = 16 \<Longrightarrow> superblock_ok (superblock_new fc fi r i e b m x d uuid)"
  by (simp add: superblock_ok_def superblock_new_def superblock_zeroed_def)

lemma superblock_new_fields [simp]:
  fixes fc fi r i e b m x d uuid
  defines "s \<equiv> superblock_new fc fi r i e b m x d uuid"
  shows "superblock_magic s = EROFS_SUPER_MAGIC_V1"
    and "superblock_feature_compat s = fc AND NOT EROFS_FEATURE_COMPAT_SB_CHKSUM"
    and "superblock_feature_incompat s = fi"
    and "superblock_root_nid s = ucast r"
    and "superblock_inos s = i"
    and "superblock_epoch s = e"
    and "superblock_blocks s = ucast (ucast b :: u32)"
    and "superblock_meta_blkaddr s = m"
    and "superblock_extra_devices s = x"
    and "sb_blkszbits s = EROFS_BLKSZBITS"
  by (simp_all add: s_def superblock_new_def superblock_accessors)

end
