(* ===== verification/Image.thy ===== *)
theory Image
  imports Superblock Chunk_Format Blob_Writer
begin

text \<open>
  \<^verbatim>\<open>src/build/image.rs\<close>: assembly of the image, block 0 with the superblock and the device slot,
  then the metadata area padded to whole blocks.
\<close>

unbundle bit_operations_syntax

definition devt_slotoff :: u16 where
  "devt_slotoff = word_of_nat (EROFS_SUPER_OFFSET + EROFS_SB_BASE_SIZE) div word_of_nat EROFS_DEVICESLOT_SIZE"

definition image_superblock :: "nat \<Rightarrow> u16 \<Rightarrow> u64 \<Rightarrow> u64 \<Rightarrow> u8 list \<Rightarrow> erofs_superblock" where
  "image_superblock metadata_len root_nid total_inodes epoch uuid =
     (let meta_blkaddr = 1;
          meta_blocks = div_ceil metadata_len EROFS_BLOCK_SIZE;
          total_blocks = 1 + word_of_nat meta_blocks;
          feature_compat = EROFS_FEATURE_COMPAT_MTIME;
          feature_incompat = EROFS_FEATURE_INCOMPAT_CHUNKED_FILE OR EROFS_FEATURE_INCOMPAT_DEVICE_TABLE
      in superblock_new feature_compat feature_incompat root_nid total_inodes epoch total_blocks
           meta_blkaddr 1 devt_slotoff uuid)"

definition write_image ::
  "sink \<Rightarrow> u8 list \<Rightarrow> u16 \<Rightarrow> u64 \<Rightarrow> u64 \<Rightarrow> u64 \<Rightarrow> u8 list \<Rightarrow> error + sink" where
  "write_image img metadata_buf root_nid total_inodes epoch blob_blocks uuid =
     (let block_size = EROFS_BLOCK_SIZE;
          block0 = replicate block_size 0;
          sb = image_superblock (length metadata_buf) root_nid total_inodes epoch uuid;
          sb_offset = EROFS_SUPER_OFFSET
      in and_then (copy_at sb_offset (superblock_as_bytes sb) block0) (\<lambda>block0.
         let devslot = device_slot_new blob_blocks;
             devslot_offset = sb_offset + EROFS_SB_BASE_SIZE
         in and_then (copy_at devslot_offset (device_slot_as_bytes devslot) block0) (\<lambda>block0.
            and_then (write_all block0 img) (\<lambda>img.
            and_then (write_all metadata_buf img) (\<lambda>img.
            let remainder = length metadata_buf mod block_size
            in if remainder \<noteq> 0 then write_all (replicate (block_size - remainder) 0) img
               else Inr img)))))"

subsection \<open>The bytes of an image\<close>

definition block0_image :: "nat \<Rightarrow> u16 \<Rightarrow> u64 \<Rightarrow> u64 \<Rightarrow> u64 \<Rightarrow> u8 list \<Rightarrow> u8 list" where
  "block0_image len root_nid inos epoch blob_blocks uuid =
     replicate 1024 0 @ superblock_as_bytes (image_superblock len root_nid inos epoch uuid) @
     device_slot_as_bytes (device_slot_new blob_blocks) @ replicate 2816 0"

definition image_bytes :: "u8 list \<Rightarrow> u16 \<Rightarrow> u64 \<Rightarrow> u64 \<Rightarrow> u64 \<Rightarrow> u8 list \<Rightarrow> u8 list" where
  "image_bytes buf root_nid inos epoch blob_blocks uuid =
     block0_image (length buf) root_nid inos epoch blob_blocks uuid @ buf @
     replicate (pad_len (length buf) 4096) 0"

lemma image_superblock_ok: "length uuid = 16 \<Longrightarrow> superblock_ok (image_superblock n r i e uuid)"
  by (simp add: image_superblock_def superblock_new_ok)

lemma length_superblock_bytes:
  "length uuid = 16 \<Longrightarrow> length (superblock_as_bytes (image_superblock n r i e uuid)) = 128"
  using superblock_codec.enc_length [OF image_superblock_ok] by simp

lemma length_device_slot_bytes: "length (device_slot_as_bytes (device_slot_new b)) = 128"
  using device_slot_codec.enc_length [OF device_slot_new_ok] by simp

lemma length_block0: "length uuid = 16 \<Longrightarrow> length (block0_image n r i e b uuid) = 4096"
  by (simp add: block0_image_def length_superblock_bytes length_device_slot_bytes)

lemma write_image_bytes:
  assumes "length uuid = 16"
  shows "write_image img buf root_nid inos epoch blob_blocks uuid =
    and_then (write_all (block0_image (length buf) root_nid inos epoch blob_blocks uuid) img) (\<lambda>img.
    and_then (write_all buf img) (\<lambda>img.
    if length buf mod 4096 \<noteq> 0 then write_all (replicate (4096 - length buf mod 4096) 0) img
    else Inr img))"
proof -
  let ?sb = "superblock_as_bytes (image_superblock (length buf) root_nid inos epoch uuid)"
  let ?ds = "device_slot_as_bytes (device_slot_new blob_blocks)"
  have z: "replicate 4096 (0 :: u8) = replicate 1024 0 @ replicate 128 0 @ replicate 128 0 @ replicate 2816 0"
    by (simp flip: replicate_add)
  have "copy_at 1024 ?sb (replicate 1024 0 @ replicate 128 0 @ replicate 128 0 @ replicate 2816 0) =
      Inr (replicate 1024 0 @ ?sb @ replicate 128 0 @ replicate 2816 0)"
    by (rule copy_at_append) (simp_all add: length_superblock_bytes assms)
  moreover have "copy_at 1152 ?ds ((replicate 1024 0 @ ?sb) @ replicate 128 0 @ replicate 2816 0) =
      Inr ((replicate 1024 0 @ ?sb) @ ?ds @ replicate 2816 0)"
    by (rule copy_at_append) (simp_all add: length_superblock_bytes length_device_slot_bytes assms)
  ultimately show ?thesis
    by (simp add: write_image_def z block0_image_def Let_def)
qed

lemma write_image_Inr:
  assumes "length uuid = 16" and "write_image img buf root_nid inos epoch blob_blocks uuid = Inr img'"
  shows "sink_data img' = sink_data img @ image_bytes buf root_nid inos epoch blob_blocks uuid"
  using assms(2)
  by (auto simp: write_image_bytes [OF assms(1)] image_bytes_def pad_len_def dest!: write_all_Inr split: if_splits)

lemma write_image_ok:
  assumes "length uuid = 16"
    and "length (image_bytes buf root_nid inos epoch blob_blocks uuid) \<le> sink_room img"
  shows "is_ok (write_image img buf root_nid inos epoch blob_blocks uuid)"
proof -
  have "pad_len (length buf) 4096 =
      (if length buf mod 4096 = 0 then 0 else 4096 - length buf mod 4096)"
    by (simp add: pad_len_def)
  then show ?thesis
    using assms(2)
    by (auto simp: write_image_bytes [OF assms(1)] image_bytes_def length_block0 [OF assms(1)] write_all_ok
        split: if_splits)
qed

lemma length_image_bytes:
  "length uuid = 16 \<Longrightarrow>
     length (image_bytes buf root_nid inos epoch blob_blocks uuid) = 4096 * (1 + div_ceil (length buf) 4096)"
  using div_ceil_mult [of 4096 "length buf"] by (simp add: image_bytes_def length_block0)

end
