(* ===== verification/Mkfs.thy ===== *)
theory Mkfs
  imports Build_Tree Build_Dir Layout Image
begin

text \<open>
  \<^verbatim>\<open>src/bin/erofs-mkfs.rs\<close>: the builder. It walks the source tree, gives every inode a slot, links
  directories to their parents, places the directory data, serialises everything into the
  metadata buffer and writes the image. The time, the UUID, the hash function and the files it
  opens are arguments.
\<close>

unbundle bit_operations_syntax

subsection \<open>The phases\<close>

definition is_power_of_two :: "u32 \<Rightarrow> bool" where
  "is_power_of_two w \<longleftrightarrow> length (filter (bit w) [0 ..< 32]) = 1"

definition trailing_zeros :: "u32 \<Rightarrow> u32" where
  "trailing_zeros w = word_of_nat (length (takeWhile (\<lambda>i. \<not> bit w i) [0 ..< 32]))"

fun alloc_inodes :: "metadata_layout \<Rightarrow> inode_info list \<Rightarrow> inode_info list \<times> metadata_layout" where
  \<comment> \<open>phase 2a: a slot for every inode, in order\<close>
  "alloc_inodes l [] = ([], l)"
| "alloc_inodes l (inode # inodes) =
     (let meta_size = inode_meta_size inode in
      case alloc_inode l meta_size of ((offset, nid), l) \<Rightarrow>
      case alloc_inodes l inodes of (inodes, l) \<Rightarrow>
        (inode\<lparr>ii_meta_offset := offset, ii_nid := nid\<rparr> # inodes, l))"

definition set_parent :: "u64 \<Rightarrow> inode_info \<Rightarrow> inode_info" where
  \<comment> \<open>\<^verbatim>\<open>if let InodeData::Directory { ref mut parent_nid, .. } = inode.data\<close>\<close>
  "set_parent p inode =
     (case ii_data inode of
        Directory children startblk sz _ \<Rightarrow> inode\<lparr>ii_data := Directory children startblk sz p\<rparr>
      | _ \<Rightarrow> inode)"

definition child_dirs :: "inode_info \<Rightarrow> (u64 \<times> nat list) option" where
  \<comment> \<open>the closure of \<^verbatim>\<open>set_parent_nids\<close>: a directory with its child directories, if it has any\<close>
  "child_dirs inode =
     (case ii_data inode of
        Directory children _ _ _ \<Rightarrow>
          (let child_dir_idxs = map dn_inode_idx (filter (\<lambda>de. dn_file_type de = EROFS_FT_DIR) children)
           in if child_dir_idxs = [] then None else Some (ii_nid inode, child_dir_idxs))
      | _ \<Rightarrow> None)"

fun set_parents_of :: "u64 \<Rightarrow> nat list \<Rightarrow> inode_info list \<Rightarrow> error + inode_info list" where
  "set_parents_of p [] inodes = Inr inodes"
| "set_parents_of p (child_idx # child_idxs) inodes =
     and_then (index_at inodes child_idx) (\<lambda>inode.
     set_parents_of p child_idxs (inodes[child_idx := set_parent p inode]))"

fun set_all_parents :: "(u64 \<times> nat list) list \<Rightarrow> inode_info list \<Rightarrow> error + inode_info list" where
  "set_all_parents [] inodes = Inr inodes"
| "set_all_parents ((p, child_idxs) # dir_infos) inodes =
     and_then (set_parents_of p child_idxs inodes) (set_all_parents dir_infos)"

definition set_parent_nids :: "inode_info list \<Rightarrow> error + inode_info list" where
  "set_parent_nids inodes =
     and_then (index_at inodes 0) (\<lambda>root.
     let root_nid = ii_nid root;
         inodes = inodes[0 := set_parent root_nid root];
         dir_infos = List.map_filter child_dirs inodes
     in set_all_parents dir_infos inodes)"

type_synonym dir_info = "nat \<times> dir_child list \<times> u64 \<times> u64"

definition dir_info_of :: "inode_info list \<Rightarrow> nat \<times> inode_info \<Rightarrow> error + dir_info option" where
  \<comment> \<open>the closure of phase 2b\<close>
  "dir_info_of inodes = (\<lambda>(idx, inode).
     case ii_data inode of
       Directory children _ _ parent_nid \<Rightarrow>
         let self_nid = ii_nid inode in
         and_then
           (map_result (\<lambda>de.
              and_then (index_at inodes (dn_inode_idx de)) (\<lambda>child.
              Inr \<lparr>dc_name = dn_name de, dc_nid = ii_nid child, dc_file_type = dn_file_type de\<rparr>)) children)
           (\<lambda>dir_children. Inr (Some (idx, dir_children, self_nid, parent_nid)))
     | _ \<Rightarrow> Inr None)"

definition collect_dir_infos :: "inode_info list \<Rightarrow> error + dir_info list" where
  "collect_dir_infos inodes =
     and_then (map_result (dir_info_of inodes) (List.enumerate 0 inodes)) (\<lambda>infos.
     Inr (List.map_filter (\<lambda>x. x) infos))"

definition set_dir_data :: "u64 \<Rightarrow> nat \<Rightarrow> inode_info \<Rightarrow> inode_info" where
  \<comment> \<open>what the loop of phase 2b records in the inode of a directory\<close>
  "set_dir_data startblk dir_data_len inode =
     (case ii_data inode of
        Directory children _ _ parent_nid \<Rightarrow>
          inode\<lparr>ii_data := Directory children startblk dir_data_len parent_nid, ii_size := word_of_nat dir_data_len\<rparr>
      | _ \<Rightarrow> inode\<lparr>ii_size := word_of_nat dir_data_len\<rparr>)"

fun write_dirs ::
  "dir_info list \<Rightarrow> inode_info list \<Rightarrow> metadata_layout \<Rightarrow> error + (inode_info list \<times> metadata_layout)" where
  "write_dirs [] inodes l = Inr (inodes, l)"
| "write_dirs ((idx, dir_children, self_nid, parent_nid) # infos) inodes l =
     and_then (serialize_directory dir_children self_nid parent_nid) (\<lambda>dir_data.
     let dir_data_len = length dir_data in
     case alloc_dir_data l dir_data_len of ((data_offset, startblk), l) \<Rightarrow>
     and_then (write_at l data_offset dir_data) (\<lambda>l.
     and_then (index_at inodes idx) (\<lambda>inode.
     write_dirs infos (inodes[idx := set_dir_data startblk dir_data_len inode]) l)))"

fun write_inodes :: "u64 \<Rightarrow> u32 \<Rightarrow> inode_info list \<Rightarrow> metadata_layout \<Rightarrow> error + metadata_layout" where
  "write_inodes epoch chunkbits [] l = Inr l"
| "write_inodes epoch chunkbits (inode # inodes) l =
     and_then (serialize_inode inode epoch chunkbits) (\<lambda>inode_bytes.
     let offset = ii_meta_offset inode in
     and_then (write_at l offset inode_bytes) (write_inodes epoch chunkbits inodes))"

definition layout_image :: "inode_info list \<Rightarrow> u64 \<Rightarrow> u32 \<Rightarrow> error + (inode_info list \<times> metadata_layout)" where
  \<comment> \<open>phase 2 of \<^verbatim>\<open>main\<close>\<close>
  "layout_image inodes epoch chunkbits =
     (case alloc_inodes layout_new inodes of (inodes, l) \<Rightarrow>
      and_then (set_parent_nids inodes) (\<lambda>inodes.
      let l = snd (pad_to_block l) in
      and_then (collect_dir_infos inodes) (\<lambda>dir_infos.
      and_then (write_dirs dir_infos inodes l) (\<lambda>(inodes, l).
      and_then (write_inodes epoch chunkbits inodes l) (\<lambda>l.
      Inr (inodes, l))))))"

definition mkfs_main ::
  "(u8 list \<Rightarrow> 'h) \<Rightarrow> u32 \<Rightarrow> u64 \<Rightarrow> u8 list \<Rightarrow> src \<Rightarrow> bool \<Rightarrow> nat option \<Rightarrow> nat option \<Rightarrow>
     error + (u8 list \<times> u8 list)" where
  \<comment> \<open>the contents of the image file and of the blob file; the arguments are the hash function, the
    chunk size, the time, the UUID, the source as \<^verbatim>\<open>lstat\<close> sees it and whether it is a directory
    when links are followed, and the room on the devices of the two files, \<^const>\<open>None\<close> for a file
    that cannot be created\<close>
  "mkfs_main hash chunksize epoch uuid source source_is_dir blob_room image_room =
     (if unat chunksize < EROFS_BLOCK_SIZE then Inl BadChunkSize
      else if \<not> is_power_of_two chunksize then Inl BadChunkSize
      else
        let chunkbits = trailing_zeros chunksize in
        if \<not> source_is_dir then Inl NotADirectory
        else
          and_then (ok_or blob_room OpenFailed) (\<lambda>blob_room.
          and_then (build_tree hash source (blob_writer_new blob_room chunksize)) (\<lambda>(inodes, blob_writer).
          let total_inodes = word_of_nat (length inodes) in
          and_then (layout_image inodes epoch chunkbits) (\<lambda>(inodes, l).
          and_then (index_at inodes 0) (\<lambda>root.
          let root_nid = ii_nid root in
          if unat root_nid > 2 ^ 16 - 1 then Inl (Panic AssertionFailed)
          else
            and_then (ok_or image_room OpenFailed) (\<lambda>image_room.
            and_then (write_image \<lparr>sink_data = [], sink_room = image_room\<rparr> (lay_buf l) (ucast root_nid)
                        total_inodes epoch (bw_total_blocks blob_writer) uuid) (\<lambda>img.
            Inr (sink_data img, sink_data (bw_file blob_writer)))))))))"

subsection \<open>A successful run\<close>

lemma mkfs_main_Inr:
  assumes "mkfs_main hash chunksize epoch uuid source source_is_dir (Some blob_room) image_room = Inr (img, blob)"
  obtains inodes bw final l iroom image where "4096 \<le> unat chunksize" and "is_power_of_two chunksize"
    and "build_tree hash source (blob_writer_new blob_room chunksize) = Inr (inodes, bw)"
    and "layout_image inodes epoch (trailing_zeros chunksize) = Inr (final, l)"
    and "write_image \<lparr>sink_data = [], sink_room = iroom\<rparr> (lay_buf l) (ucast (ii_nid (final ! 0)))
      (word_of_nat (length inodes)) epoch (bw_total_blocks bw) uuid = Inr image"
    and "img = sink_data image" and "blob = sink_data (bw_file bw)"
  using assms
  by (auto simp: mkfs_main_def Let_def index_at_def and_then_Inr_iff split: if_splits)

end
