(* ===== verification/Dir_Parse.thy ===== *)
theory Dir_Parse
  imports Build_Dir
begin

text \<open>
  \<^verbatim>\<open>parse_dir_entries\<close> of \<^verbatim>\<open>src/fs/meta.rs\<close>: the walk over the blocks of a directory that calls a
  closure on every entry. The closure is a state-passing function that says whether to go on;
  \<open>visit\<close> is what the walk promises, the closure run over the entries in order. The main result
  is that parsing what \<open>serialize_directory\<close> produced is \<open>visit\<close> over the serialised entries.
\<close>

type_synonym 's dir_cb = "u64 \<Rightarrow> u8 \<Rightarrow> u8 list \<Rightarrow> 's \<Rightarrow> error + (bool \<times> 's)"

function name_scan :: "u8 list \<Rightarrow> nat \<Rightarrow> nat" where
  \<comment> \<open>\<^verbatim>\<open>while end < block_len && block_data[end] != 0 { end += 1 }\<close>\<close>
  "name_scan block e = (if e < length block \<and> block ! e \<noteq> 0 then name_scan block (e + 1) else e)"
  by pat_completeness auto
termination
  by (relation "measure (\<lambda>(block, e). length block - e)") auto

declare name_scan.simps [simp del]

definition dirent_at :: "u8 list \<Rightarrow> nat \<Rightarrow> nat \<Rightarrow> error + erofs_dirent" where
  \<comment> \<open>\<^verbatim>\<open>cast_ref(&block_data[from..to])\<close>\<close>
  "dirent_at block from to =
     and_then (slice_range from to block) (cast_ref EROFS_DIRENT_SIZE dirent_view)"

function parse_block ::
  "u8 list \<Rightarrow> nat \<Rightarrow> nat \<Rightarrow> 's dir_cb \<Rightarrow> 's \<Rightarrow> error + (bool \<times> 's)" where
  \<comment> \<open>the loop over one block; the flag is \<^const>\<open>False\<close> when the whole walk is to return\<close>
  "parse_block block dirent_count i cb s =
     (if i < dirent_count then
        let block_len = length block;
            de_off = i * EROFS_DIRENT_SIZE
        in if de_off + EROFS_DIRENT_SIZE > block_len then Inr (True, s)
        else
          and_then (dirent_at block de_off (de_off + EROFS_DIRENT_SIZE)) (\<lambda>de.
          let nameoff = unat (dirent_nameoff de) in
          and_then
            (if i + 1 < dirent_count
             then and_then (dirent_at block ((i + 1) * EROFS_DIRENT_SIZE) block_len) (\<lambda>next_de.
                  Inr (unat (dirent_nameoff next_de)))
             else Inr (name_scan block nameoff)) (\<lambda>name_end.
          if nameoff \<ge> block_len \<or> name_end > block_len then Inr (True, s)
          else
            and_then (slice_range nameoff name_end block) (\<lambda>name.
            and_then (cb (dirent_nid de) (dirent_file_type de) name s) (\<lambda>r.
            case r of (go_on, s') \<Rightarrow>
              if go_on then parse_block block dirent_count (i + 1) cb s' else Inr (False, s')))))
      else Inr (True, s))"
  by pat_completeness auto
termination
  by (relation "measure (\<lambda>(block, dirent_count, i, _). dirent_count - i)") auto

declare parse_block.simps [simp del]

function parse_dir_entries ::
  "u8 list \<Rightarrow> nat \<Rightarrow> nat \<Rightarrow> 's dir_cb \<Rightarrow> 's \<Rightarrow> error + 's" where
  \<comment> \<open>the outer loop, from position \<open>pos\<close>\<close>
  "parse_dir_entries data dir_size pos cb s =
     (if pos < dir_size then
        let block_end = min (pos + EROFS_BLOCK_SIZE) dir_size in
        and_then (slice_range pos block_end data) (\<lambda>block_data.
        let block_len = block_end - pos in
        if block_len < EROFS_DIRENT_SIZE then Inr s
        else
          and_then (dirent_at block_data 0 EROFS_DIRENT_SIZE) (\<lambda>first_de.
          let dirent_count = unat (dirent_nameoff first_de) div EROFS_DIRENT_SIZE in
          and_then (parse_block block_data dirent_count 0 cb s) (\<lambda>r.
          case r of (go_on, s') \<Rightarrow>
            if go_on then parse_dir_entries data dir_size (pos + EROFS_BLOCK_SIZE) cb s'
            else Inr s')))
      else Inr s)"
  by pat_completeness auto
termination
  by (relation "measure (\<lambda>(data, dir_size, pos, _). dir_size - pos)") auto

declare parse_dir_entries.simps [simp del]

subsection \<open>What the walk promises\<close>

fun visit_block :: "'s dir_cb \<Rightarrow> dir_ent list \<Rightarrow> 's \<Rightarrow> error + (bool \<times> 's)" where
  "visit_block cb [] s = Inr (True, s)"
| "visit_block cb ((name, nid, ft) # es) s =
     and_then (cb nid ft name s) (\<lambda>r. case r of (go_on, s') \<Rightarrow>
       if go_on then visit_block cb es s' else Inr (False, s'))"

definition visit :: "'s dir_cb \<Rightarrow> dir_ent list \<Rightarrow> 's \<Rightarrow> error + 's" where
  "visit cb es s = and_then (visit_block cb es s) (\<lambda>r. Inr (snd r))"

lemma visit_block_append:
  "visit_block cb (es @ fs) s =
     and_then (visit_block cb es s) (\<lambda>r. case r of (go_on, s') \<Rightarrow>
       if go_on then visit_block cb fs s' else Inr (False, s'))"
  by (induction cb es s rule: visit_block.induct)
    (auto simp: and_then_def split: sum.split)

definition names_clean :: "dir_ent list \<Rightarrow> bool" where
  \<comment> \<open>a file name is not empty and holds no zero byte\<close>
  "names_clean es \<longleftrightarrow> (\<forall>e \<in> set es. fst e \<noteq> [] \<and> 0 \<notin> set (fst e))"

lemma name_scan_stops:
  assumes "block = p @ name @ r" and "0 \<notin> set name" and "r = [] \<or> hd r = 0"
  shows "name_scan block (length p) = length p + length name"
  using assms
proof (induction name arbitrary: p)
  case Nil
  then show ?case
    by (subst name_scan.simps) (auto simp: nth_append hd_conv_nth split: if_splits)
next
  case (Cons c name)
  have "name_scan block (length (p @ [c])) = length (p @ [c]) + length name"
    using Cons.prems by (intro Cons.IH) auto
  then show ?case
    using Cons.prems by (subst name_scan.simps) (auto simp: nth_append)
qed

lemma dirents_of_nth:
  "i < length es \<Longrightarrow>
     dirents_of noff es ! i =
       dirent_new (fst (snd (es ! i))) (word_of_nat (noff + names_len (take i es))) (snd (snd (es ! i)))"
proof (induction noff es arbitrary: i rule: dirents_of.induct)
  case (1 noff)
  then show ?case by simp
next
  case (2 noff name nid ft es)
  then show ?case by (cases i) (auto simp: add.assoc)
qed

lemma names_of_append [simp]: "names_of (es @ fs) = names_of es @ names_of fs"
  by (simp add: names_of_def)

lemma names_len_take_Suc:
  "i < length es \<Longrightarrow> names_len (take (Suc i) es) = names_len (take i es) + length (fst (es ! i))"
  by (cases "es ! i") (simp add: take_Suc_conv_app_nth)

lemma names_len_take_le: "names_len (take i es) \<le> names_len es"
  by (metis append_take_drop_id le_add1 names_len_simps(3))

subsection \<open>Parsing the image of one block\<close>

text \<open>The offset of name \<open>i\<close> in the image of a block, and the facts a step of the loop needs.\<close>

definition noff :: "dir_ent list \<Rightarrow> nat \<Rightarrow> nat" where
  "noff es i = 12 * length es + names_len (take i es)"

definition block_ok :: "dir_ent list \<Rightarrow> bool" where
  "block_ok es \<longleftrightarrow> 12 * length es + names_len es \<le> 4096 \<and> names_clean es"

lemma block_okD: "block_ok es \<Longrightarrow> 12 * length es + names_len es \<le> 4096"
  by (simp add: block_ok_def)


lemma noff_unat: "block_ok es \<Longrightarrow> unat (word_of_nat (noff es i) :: u16) = noff es i"
  unfolding unat_of_nat using block_okD [of es] names_len_take_le [of i es]
  by (simp add: noff_def)

lemma block_split:
  assumes "block_ok es" and "i < length es"
  obtains p r where "block_image es = p @ fst (es ! i) @ r" and "length p = noff es i"
    and "Suc i = length es \<Longrightarrow> r = [] \<or> hd r = 0"
proof
  let ?z = "replicate (4096 - 12 * length es - names_len es) (0 :: u8)"
  let ?p = "concat (map dirent_as_bytes (dirents_of (12 * length es) es)) @ names_of (take i es)"
  let ?r = "names_of (drop (Suc i) es) @ ?z"
  have "es = take i es @ es ! i # drop (Suc i) es"
    using assms(2) by (simp add: id_take_nth_drop)
  then have "names_of es = names_of (take i es) @ fst (es ! i) @ names_of (drop (Suc i) es)"
    by (metis names_of_append names_of_simps(2) prod.collapse)
  then show "block_image es = ?p @ fst (es ! i) @ ?r"
    by (simp add: block_image_def)
  show "length ?p = noff es i"
    by (simp add: noff_def)
  show "Suc i = length es \<Longrightarrow> ?r = [] \<or> hd ?r = 0"
    by (cases "4096 - 12 * length es - names_len es = 0") simp_all
qed

lemma dirent_at_image:
  assumes "block_ok es" and "i < length es" and "to = 4096 \<or> to = i * 12 + 12"
  shows "dirent_at (block_image es) (i * 12) to = Inr (dirents_of (12 * length es) es ! i)"
proof -
  let ?ds = "dirents_of (12 * length es) es"
  let ?c = "drop (i * 12) (block_image es)"
  have c: "cast_ref 12 dirent_view (drop (i * EROFS_DIRENT_SIZE) (concat (map dirent_as_bytes ?ds) @ r)) = Inr (?ds ! i)" for r
    using dirent_codec.cast_nth [of ?ds i r] assms(2) by (simp add: dirents_of_ok)
  have full: "cast_ref 12 dirent_view ?c = Inr (?ds ! i)"
    unfolding block_image_def using c unfolding EROFS_DIRENT_SIZE_def .
  have len: "i * 12 + 12 \<le> 4096" "length (block_image es) = 4096"
    using assms(2) block_okD [OF assms(1)] by (auto simp: length_block_image)
  have "cast_ref 12 dirent_view (take 12 ?c) = cast_ref 12 dirent_view ?c"
    using len dirent_codec.view_take [of ?c] by (simp add: cast_ref_def)
  with full len assms(3) show ?thesis
    by (auto simp: dirent_at_def slice_range_def bytes_at_def)
qed

lemma parse_block_step:
  assumes "block_ok es" and "i < length es" and "es ! i = (name, nid, ft)"
  shows "parse_block (block_image es) (length es) i cb s =
    and_then (cb nid ft name s) (\<lambda>r. case r of (go_on, s') \<Rightarrow>
      if go_on then parse_block (block_image es) (length es) (i + 1) cb s' else Inr (False, s'))"
proof -
  let ?b = "block_image es"
  have len: "length ?b = 4096" "i * 12 + 12 \<le> 4096"
    using assms(2) block_okD [OF assms(1)] by (auto simp: length_block_image)
  obtain p r where b: "?b = p @ name @ r" and p: "length p = noff es i"
    and r: "Suc i = length es \<Longrightarrow> r = [] \<or> hd r = 0"
    using block_split [OF assms(1,2)] assms(3) by (metis fst_conv)
  have name: "name \<noteq> []" "0 \<notin> set name"
    using assms by (force simp: block_ok_def names_clean_def dest: nth_mem)+
  have le: "noff es i + length name \<le> 4096"
    using len(1) p by (simp add: b)
  have off: "unat (dirent_nameoff (dirents_of (12 * length es) es ! i)) = noff es i" if "i < length es" for i
    using that noff_unat [OF assms(1), of i] by (simp add: dirents_of_nth noff_def)
  have de: "dirent_nid (dirents_of (12 * length es) es ! i) = nid"
    "dirent_file_type (dirents_of (12 * length es) es ! i) = ft"
    using assms by (simp_all add: dirents_of_nth)
  have next_off: "noff es (Suc i) = noff es i + length name"
    using assms by (simp add: noff_def names_len_take_Suc)
  have next_de: "dirent_at ?b (i * 12 + 12) 4096 = Inr (dirents_of (12 * length es) es ! Suc i)"
    if "Suc i < length es"
    using dirent_at_image [OF assms(1) that, of 4096] by (simp add: add.commute)
  have last: "name_scan ?b (noff es i) = noff es i + length name" if "\<not> Suc i < length es"
    using name_scan_stops [OF b name(2) r] p assms(2) that by simp
  have sl: "slice_range (noff es i) (noff es i + length name) ?b = Inr name"
    using le len(1) p by (simp add: slice_range_def b bytes_at_append_exact)
  have pos: "noff es i < 4096" using le name(1) by (cases name) auto
  show ?thesis
    using assms(1,2) len sl pos le next_off
    by (subst parse_block.simps)
      (simp add: Let_def dirent_at_image off de next_de last add.commute [of 12])
qed

lemma parse_block_from:
  "block_ok es \<Longrightarrow> i \<le> length es \<Longrightarrow>
     parse_block (block_image es) (length es) i cb s = visit_block cb (drop i es) s"
proof (induction "length es - i" arbitrary: i s)
  case 0
  then show ?case by (subst parse_block.simps) simp
next
  case (Suc n)
  then have i: "i < length es" by arith
  obtain name nid ft where e: "es ! i = (name, nid, ft)" by (rule prod_cases3)
  have d: "drop i es = (name, nid, ft) # drop (Suc i) es"
    using i e by (metis Cons_nth_drop_Suc)
  have "parse_block (block_image es) (length es) (Suc i) cb s' = visit_block cb (drop (Suc i) es) s'" for s'
    using Suc.hyps(2) Suc.prems i by (intro Suc.hyps(1)) simp_all
  then show ?case
    by (auto simp: parse_block_step [OF Suc.prems(1) i e] d intro!: and_then_cong)
qed

subsection \<open>Parsing a whole directory\<close>

lemma first_dirent:
  assumes "block_ok es" and "es \<noteq> []"
  shows "dirent_at (block_image es) 0 12 = Inr (dirents_of (12 * length es) es ! 0)"
    and "unat (dirent_nameoff (dirents_of (12 * length es) es ! 0)) div 12 = length es"
proof -
  have pos: "0 < length es" using assms(2) by simp
  show "dirent_at (block_image es) 0 12 = Inr (dirents_of (12 * length es) es ! 0)"
    using dirent_at_image [OF assms(1) pos, of 12] by simp
  show "unat (dirent_nameoff (dirents_of (12 * length es) es ! 0)) div 12 = length es"
    using noff_unat [OF assms(1), of 0] pos by (simp add: dirents_of_nth noff_def)
qed

lemma bytes_at_block:
  assumes "\<forall>b \<in> set bs. length (f b) = 4096" and "k < length bs"
  shows "bytes_at (4096 * k) 4096 (concat (map f bs)) = f (bs ! k)"
proof -
  have len: "\<forall>b \<in> set as. length (f b) = 4096 \<Longrightarrow> length (concat (map f as)) = 4096 * length as" for as
    by (induction as) auto
  have "concat (map f bs) = concat (map f (take k bs)) @ f (bs ! k) @ concat (map f (drop (Suc k) bs))"
    using assms(2) by (metis concat.simps(2) concat_append id_take_nth_drop list.simps(9) map_append)
  moreover have "length (concat (map f (take k bs))) = 4096 * k"
    using assms by (subst len) (auto dest: in_set_takeD)
  ultimately show ?thesis
    using assms by (metis bytes_at_append_exact nth_mem)
qed

lemma parse_blocks_from:
  assumes "\<forall>b \<in> set bs. block_ok b \<and> b \<noteq> []" and "k \<le> length bs"
  shows "parse_dir_entries (concat (map block_image bs)) (4096 * length bs) (4096 * k) cb s =
    visit cb (concat (drop k bs)) s"
  using assms(2)
proof (induction "length bs - k" arbitrary: k s)
  case 0
  then show ?case by (subst parse_dir_entries.simps) (simp add: visit_def)
next
  case (Suc n)
  let ?data = "concat (map block_image bs)" and ?e = "bs ! k"
  have k: "k < length bs" using Suc.hyps(2) by arith
  then have e: "block_ok ?e" "?e \<noteq> []" using assms(1) by auto
  have lens: "\<forall>b \<in> set bs. length (block_image b) = 4096"
    using assms(1) by (auto simp: block_ok_def length_block_image)
  then have len: "length ?data = 4096 * length bs"
    by (induction bs) auto
  have mn: "min (4096 * k + 4096) (4096 * length bs) = 4096 * k + 4096"
    using k by (auto simp: min_def)
  have sl: "slice_range (4096 * k) (4096 * k + 4096) ?data = Inr (block_image ?e)"
    using bytes_at_block [OF lens k] k len by (simp add: slice_range_def)
  have d: "concat (drop k bs) = ?e @ concat (drop (Suc k) bs)"
    using k by (metis Cons_nth_drop_Suc concat.simps(2))
  have IH: "parse_dir_entries ?data (4096 * length bs) (4096 * k + 4096) cb s' =
      visit cb (concat (drop (Suc k) bs)) s'" for s'
    using Suc.hyps(1) [of "Suc k" s'] Suc.hyps(2) k by (simp add: add.commute)
  have step: "parse_dir_entries ?data (4096 * length bs) (4096 * k) cb s =
      and_then (visit_block cb ?e s) (\<lambda>r. case r of (go_on, s') \<Rightarrow>
        if go_on then parse_dir_entries ?data (4096 * length bs) (4096 * k + 4096) cb s' else Inr s')"
    using k mn sl first_dirent [OF e] parse_block_from [OF e(1), of 0 cb s]
    by (subst parse_dir_entries.simps) (simp add: Let_def, simp only: EROFS_BLOCK_SIZE_def)
  show ?case
    unfolding step d visit_def visit_block_append
    by (auto simp: IH visit_def and_then_def split: sum.split prod.split)
qed

lemma blocks_ok:
  assumes "names_fit es" and "names_clean es" and "b \<in> set (dir_blocks_of es)"
  shows "block_ok b \<and> b \<noteq> []"
proof -
  have "set b \<subseteq> set es"
    using concat_dir_blocks [OF assms(1)] assms(3) by (metis Union_upper imageI set_concat)
  then show ?thesis
    using dir_blocks_fit [OF assms(3)] assms(2) by (auto simp: block_ok_def names_clean_def)
qed

lemma parse_serialized:
  assumes "names_fit es" and "names_clean es"
    and "data = concat (map block_image (dir_blocks_of es))"
  shows "parse_dir_entries data (length data) 0 cb s = visit cb es s"
  using parse_blocks_from [of "dir_blocks_of es" 0 cb s] blocks_ok [OF assms(1,2)]
  by (simp add: assms(3) length_dir_image concat_dir_blocks [OF assms(1)])

text \<open>Two closures of the code: one that collects the entries, one that looks a name up.\<close>

definition collect_cb :: "dir_ent list dir_cb" where
  "collect_cb = (\<lambda>nid ft name acc. Inr (True, acc @ [(name, nid, ft)]))"

definition lookup_cb :: "u8 list \<Rightarrow> u64 option dir_cb" where
  "lookup_cb target = (\<lambda>nid ft name found. if name = target then Inr (False, Some nid) else Inr (True, found))"

lemma visit_collect: "visit collect_cb es acc = Inr (acc @ es)"
proof -
  have "visit_block collect_cb es acc = Inr (True, acc @ es)"
    by (induction es arbitrary: acc) (auto simp: collect_cb_def)
  then show ?thesis by (simp add: visit_def)
qed

lemma visit_lookup: "visit (lookup_cb target) es None = Inr (map_option fst (map_of es target))"
proof -
  have "visit_block (lookup_cb target) es None =
      Inr (map_of es target = None, map_option fst (map_of es target))"
    by (induction es) (auto simp: lookup_cb_def)
  then show ?thesis by (simp add: visit_def)
qed

subsection \<open>Properties\<close>

text \<open>C26: Round trip of directories. For names that fit a block and are proper file names, serialising a
  directory succeeds with a whole number of blocks, and walking the result calls the closure on
  ``.'', ``..'' and every child, in order and nothing else, for every closure, stopping where the closure stops.\<close>

theorem directory_roundtrip:
  assumes "names_fit (dir_entries children self_nid parent_nid)"
    and "names_clean (dir_entries children self_nid parent_nid)"
  shows "\<exists>data. serialize_directory children self_nid parent_nid = Inr data \<and> 4096 dvd length data \<and>
    parse_dir_entries data (length data) 0 cb s = visit cb (dir_entries children self_nid parent_nid) s"
  unfolding serialize_directory_eq [OF assms(1)] using parse_serialized [OF assms refl]
  by (simp add: length_dir_image)

definition sample_children :: "dir_child list" where
  "sample_children =
     [\<lparr>dc_name = bytes ''bin'', dc_nid = 40, dc_file_type = EROFS_FT_DIR\<rparr>,
      \<lparr>dc_name = bytes ''init'', dc_nid = 43, dc_file_type = EROFS_FT_REG_FILE\<rparr>]"

theorem directory_roundtrip_witness:
  "\<exists>data. serialize_directory sample_children 36 36 = Inr data \<and> 4096 dvd length data \<and>
     parse_dir_entries data (length data) 0 collect_cb [] =
     visit collect_cb (dir_entries sample_children 36 36) []"
  by (rule directory_roundtrip)
    (simp_all add: names_fit_def names_clean_def dir_entries_def sample_children_def bytes_def)

text \<open>Lookup in a serialised directory. The closure that searches for a name, which stops the walk
  when it finds it, returns the number of the first entry of that name, and nothing when there is none.\<close>

lemma directory_lookup:
  assumes "names_fit (dir_entries children self_nid parent_nid)"
    and "names_clean (dir_entries children self_nid parent_nid)"
    and "serialize_directory children self_nid parent_nid = Inr data"
  shows "parse_dir_entries data (length data) 0 (lookup_cb name) None =
    Inr (map_option fst (map_of (dir_entries children self_nid parent_nid) name))"
proof -
  have "data = concat (map block_image (dir_blocks_of (dir_entries children self_nid parent_nid)))"
    using assms(3) by (simp add: serialize_directory_eq [OF assms(1)])
  then show ?thesis
    by (simp only: parse_serialized [OF assms(1,2)] visit_lookup)
qed

lemma directory_lookup_witness:
  "\<exists>data. serialize_directory sample_children 36 36 = Inr data \<and>
     parse_dir_entries data (length data) 0 (lookup_cb (bytes ''init'')) None = Inr (Some 43)"
proof -
  have fit: "names_fit (dir_entries sample_children 36 36)" and clean: "names_clean (dir_entries sample_children 36 36)"
    by (simp_all add: names_fit_def names_clean_def dir_entries_def sample_children_def bytes_def)
  obtain data where d: "serialize_directory sample_children 36 36 = Inr data"
    using serialize_directory_eq [OF fit] by blast
  have "map_of (dir_entries sample_children 36 36) (bytes ''init'') = Some (43, EROFS_FT_REG_FILE)"
    by (simp add: dir_entries_def sample_children_def bytes_def)
  then show ?thesis using directory_lookup [OF fit clean d, of "bytes ''init''"] d by auto
qed

definition overlapping_names_block :: "u8 list" where
  "overlapping_names_block =
     dirent_as_bytes (dirent_new 1 24 EROFS_FT_REG_FILE) @ dirent_as_bytes (dirent_new 2 20 EROFS_FT_REG_FILE) @
     bytes ''a'' @ replicate 4071 0"

text \<open>C39: A directory block is not validated. On a block whose only fault is that the second entry's name
  starts before the first one's, the walk does not report an error but panics on the slice.\<close>

theorem overlapping_names_panic:
  "parse_dir_entries overlapping_names_block 4096 0 collect_cb [] = Inl (Panic SliceOutOfRange)"
proof -
  have d1: "dirent_at overlapping_names_block 0 12 = Inr (dirent_new 1 24 EROFS_FT_REG_FILE)"
    using dirent_codec.cast_enc_exact [OF dirent_new_ok, of 1 24 EROFS_FT_REG_FILE]
    by (simp add: dirent_at_def slice_range_def overlapping_names_block_def)
  have d2: "dirent_at overlapping_names_block 12 4096 = Inr (dirent_new 2 20 EROFS_FT_REG_FILE)"
    using dirent_codec.cast_enc [OF dirent_new_ok, of 2 20 EROFS_FT_REG_FILE "bytes ''a'' @ replicate 4071 0"]
    by (simp add: dirent_at_def slice_range_def overlapping_names_block_def bytes_at_append_right bytes_at_all)
  have len: "length overlapping_names_block = 4096"
    by (simp add: overlapping_names_block_def)
  have "parse_block overlapping_names_block 2 0 collect_cb [] = Inl (Panic SliceOutOfRange)"
    using d1 d2 len by (subst parse_block.simps) (simp add: slice_range_def)
  then show ?thesis
    using d1 len by (subst parse_dir_entries.simps) (simp add: slice_range_def bytes_at_def)
qed

end
