(* ===== verification/Mkfs_Layout.thy ===== *)
theory Mkfs_Layout
  imports Mkfs Dir_Parse
begin

text \<open>
  What phase 2 of the builder produces. The buffer is the inode slots, padding to a block, and the
  directories; every inode is at the slot its number names and every directory at the block its
  inode names. The lemmas give the closed form of each phase and compose them.
\<close>

unbundle bit_operations_syntax

subsection \<open>Slots\<close>

definition slot_size :: "inode_info \<Rightarrow> nat" where
  "slot_size inode = inode_meta_size inode + pad_len (inode_meta_size inode) 32"

definition slots_size :: "inode_info list \<Rightarrow> nat" where
  "slots_size inodes = sum_list (map slot_size inodes)"

lemma slots_size_simps [simp]:
  "slots_size [] = 0" "slots_size (i # is) = slot_size i + slots_size is"
  by (simp_all add: slots_size_def)

lemma slot_size_dvd: "32 dvd slot_size i"
  by (simp add: slot_size_def dvd_add_pad)

lemma slots_size_dvd: "32 dvd slots_size is"
  by (induction "is") (simp_all add: dvd_add slot_size_dvd)

fun place :: "nat \<Rightarrow> inode_info list \<Rightarrow> inode_info list" where
  \<comment> \<open>the inodes with the slots they get from offset \<open>off\<close> on\<close>
  "place off [] = []"
| "place off (i # is) =
     i\<lparr>ii_meta_offset := off, ii_nid := word_of_nat (off div 32)\<rparr> # place (off + slot_size i) is"

lemma length_place [simp]: "length (place off is) = length is"
  by (induction off "is" rule: place.induct) simp_all

lemma alloc_inodes_place:
  assumes "layout_inv l" and "length (lay_buf l) + slots_size inodes \<le> 2 ^ 62"
  shows "alloc_inodes l inodes =
    (place (length (lay_buf l)) inodes,
     l\<lparr>lay_buf := lay_buf l @ replicate (slots_size inodes) 0,
       lay_cursor := length (lay_buf l) + slots_size inodes\<rparr>)"
  using assms
proof (induction inodes arbitrary: l)
  case Nil
  then show ?case by (simp add: layout_inv_def)
next
  case (Cons i "is")
  have "inode_meta_size i \<le> slot_size i" by (simp add: slot_size_def)
  then have le: "inode_meta_size i \<le> 2 ^ 63" using Cons.prems(2) by simp
  let ?l = "l\<lparr>lay_buf := lay_buf l @ replicate (slot_size i) 0, lay_cursor := length (lay_buf l) + slot_size i\<rparr>"
  have a: "alloc_inode l (inode_meta_size i) =
      ((length (lay_buf l), word_of_nat (length (lay_buf l) div 32)), ?l)"
    using alloc_inode_eq [OF Cons.prems(1) le] by (simp add: slot_size_def)
  have "layout_inv ?l"
    using Cons.prems(1) slot_size_dvd [of i] by (auto simp: layout_inv_def intro: dvd_add)
  then have "alloc_inodes ?l is =
      (place (length (lay_buf ?l)) is,
       ?l\<lparr>lay_buf := lay_buf ?l @ replicate (slots_size is) 0,
         lay_cursor := length (lay_buf ?l) + slots_size is\<rparr>)"
    using Cons.prems(2) by (intro Cons.IH) simp_all
  then show ?case
    using a by (simp add: replicate_add add.assoc)
qed

subsection \<open>What the later phases leave alone\<close>

text \<open>An inode without what phase 2 fills in for a directory.\<close>

definition skel :: "inode_info \<Rightarrow> inode_info" where
  "skel i = (case ii_data i of
     Directory children _ _ _ \<Rightarrow> i\<lparr>ii_data := Directory children 0 0 0, ii_size := 0\<rparr>
   | _ \<Rightarrow> i)"

lemma skel_set_parent [simp]: "skel (set_parent p i) = skel i"
  by (simp add: skel_def set_parent_def split: inode_data.split)

lemma skel_set_dir_data:
  "ii_data i = Directory ch sb sz p \<Longrightarrow> skel (set_dir_data s n i) = skel i"
  by (simp add: skel_def set_dir_data_def)

lemma skel_eqD:
  assumes "skel i = skel j"
  shows "ii_mode i = ii_mode j" "ii_uid i = ii_uid j" "ii_gid i = ii_gid j" "ii_mtime i = ii_mtime j"
    "ii_mtime_nsec i = ii_mtime_nsec j" "ii_nlink i = ii_nlink j" "ii_ino i = ii_ino j"
    "ii_nid i = ii_nid j" "ii_meta_offset i = ii_meta_offset j" "ii_is_extended i = ii_is_extended j"
    "ii_xattrs i = ii_xattrs j"
    "ii_data i = Directory ch sb sz p \<Longrightarrow> \<exists>sb' sz' p'. ii_data j = Directory ch sb' sz' p'"
    "\<forall>ch sb sz p. ii_data i \<noteq> Directory ch sb sz p \<Longrightarrow> i = j"
  using assms by (cases i; cases j; auto simp: skel_def split: inode_data.splits)+

lemma skel_meta_size: "skel i = skel j \<Longrightarrow> inode_meta_size i = inode_meta_size j"
proof -
  assume s: "skel i = skel j"
  then have "ii_is_extended i = ii_is_extended j" "ii_xattrs i = ii_xattrs j"
    by (rule skel_eqD)+
  moreover have "inode_payload (ii_data i) = inode_payload (ii_data j)"
    using s by (cases i; cases j; auto simp: skel_def split: inode_data.splits)
  ultimately show ?thesis by (simp add: length_inode_payload inode_base_def)
qed

definition child_indices :: "inode_info \<Rightarrow> nat list" where
  "child_indices i = (case ii_data i of Directory ch _ _ _ \<Rightarrow> map dn_inode_idx ch | _ \<Rightarrow> [])"

definition dir_child_indices :: "inode_info \<Rightarrow> nat list" where
  "dir_child_indices i =
     (case ii_data i of
        Directory ch _ _ _ \<Rightarrow> map dn_inode_idx (filter (\<lambda>de. dn_file_type de = EROFS_FT_DIR) ch) | _ \<Rightarrow> [])"

definition links_valid :: "inode_info list \<Rightarrow> bool" where
  \<comment> \<open>every child index names an inode\<close>
  "links_valid inodes \<longleftrightarrow> (\<forall>i \<in> set inodes. \<forall>k \<in> set (child_indices i). k < length inodes)"

lemma skel_child_indices:
  "skel i = skel j \<Longrightarrow> child_indices i = child_indices j"
  "skel i = skel j \<Longrightarrow> dir_child_indices i = dir_child_indices j"
  by (cases i; cases j; auto simp: skel_def child_indices_def dir_child_indices_def split: inode_data.splits)+

lemma dir_child_indices_subset: "set (dir_child_indices i) \<subseteq> set (child_indices i)"
  by (cases "ii_data i") (auto simp: dir_child_indices_def child_indices_def)

lemma map_skel_nth: "map skel is = map skel js \<Longrightarrow> k < length is \<Longrightarrow> skel (is ! k) = skel (js ! k)"
  by (metis length_map nth_map)

lemma links_valid_skel:
  assumes "map skel is = map skel js" and "links_valid is"
  shows "links_valid js"
proof -
  have len: "length is = length js" using assms(1) by (metis length_map)
  show ?thesis
    unfolding links_valid_def
  proof (intro ballI)
    fix j k assume j: "j \<in> set js" and k: "k \<in> set (child_indices j)"
    then obtain n where n: "n < length js" "j = js ! n" by (metis in_set_conv_nth)
    then have "skel (is ! n) = skel j" using map_skel_nth [OF assms(1)] len by simp
    then have "k \<in> set (child_indices (is ! n))" using k skel_child_indices(1) by metis
    then show "k < length js" using assms(2) n len by (auto simp: links_valid_def)
  qed
qed

subsection \<open>Parents\<close>

definition dir_parent :: "inode_info \<Rightarrow> u64" where
  "dir_parent i = (case ii_data i of Directory _ _ _ p \<Rightarrow> p | _ \<Rightarrow> 0)"

definition is_directory :: "inode_info \<Rightarrow> bool" where
  "is_directory i = (case ii_data i of Directory _ _ _ _ \<Rightarrow> True | _ \<Rightarrow> False)"

lemma dir_parent_set [simp]: "dir_parent (set_parent p i) = (if is_directory i then p else dir_parent i)"
  by (simp add: dir_parent_def set_parent_def is_directory_def split: inode_data.split)

lemma is_directory_set [simp]: "is_directory (set_parent p i) = is_directory i"
  by (simp add: set_parent_def is_directory_def split: inode_data.split)

lemma is_directory_skel: "skel i = skel j \<Longrightarrow> is_directory i = is_directory j"
  by (cases i; cases j; auto simp: skel_def is_directory_def split: inode_data.splits)

definition reparent :: "(nat \<Rightarrow> u64 option) \<Rightarrow> inode_info list \<Rightarrow> inode_info list" where
  \<comment> \<open>every inode in the domain gets its parent\<close>
  "reparent ps inodes =
     map (\<lambda>(k, i). case ps k of None \<Rightarrow> i | Some p \<Rightarrow> set_parent p i) (List.enumerate 0 inodes)"

lemma length_reparent [simp]: "length (reparent ps is) = length is"
  by (simp add: reparent_def)

lemma nth_reparent:
  "k < length is \<Longrightarrow> reparent ps is ! k = (case ps k of None \<Rightarrow> is ! k | Some p \<Rightarrow> set_parent p (is ! k))"
  by (simp add: reparent_def nth_enumerate_eq split: option.split)

lemma set_parent_twice [simp]: "set_parent p (set_parent q i) = set_parent p i"
  by (simp add: set_parent_def split: inode_data.split)

lemma reparent_update:
  "k < length is \<Longrightarrow> reparent ps (is[k := set_parent p (is ! k)]) =
     reparent (\<lambda>j. if ps j = None \<and> j = k then Some p else ps j) is"
  by (rule nth_equalityI) (auto simp: nth_reparent nth_list_update split: option.split)

lemma reparent_none: "reparent (\<lambda>_. None) is = is"
  by (rule nth_equalityI) (auto simp: nth_reparent)

definition parent_map :: "(u64 \<times> nat list) list \<Rightarrow> nat \<Rightarrow> u64 option" where
  \<comment> \<open>the last pair that lists an index gives its parent\<close>
  "parent_map infos k = map_option fst (find (\<lambda>(p, ks). k \<in> set ks) (rev infos))"

lemma set_parents_of_eq:
  assumes "\<forall>k \<in> set ks. k < length is"
  shows "set_parents_of p ks is = Inr (reparent (\<lambda>k. if k \<in> set ks then Some p else None) is)"
  using assms
proof (induction ks arbitrary: "is")
  case Nil
  then show ?case by (simp add: reparent_none)
next
  case (Cons k ks)
  have "set_parents_of p ks (is[k := set_parent p (is ! k)]) =
      Inr (reparent (\<lambda>j. if j \<in> set ks then Some p else None) (is[k := set_parent p (is ! k)]))"
    using Cons.prems by (intro Cons.IH) simp
  moreover have "reparent (\<lambda>j. if j \<in> set ks then Some p else None) (is[k := set_parent p (is ! k)]) =
      reparent (\<lambda>j. if j \<in> set (k # ks) then Some p else None) is"
    using Cons.prems by (subst reparent_update) (auto intro!: arg_cong2 [of _ _ _ _ reparent])
  ultimately show ?case
    using Cons.prems by (simp add: index_at_def)
qed

lemma reparent_reparent:
  "reparent ps (reparent qs is) = reparent (\<lambda>k. case ps k of None \<Rightarrow> qs k | Some p \<Rightarrow> Some p) is"
  by (rule nth_equalityI) (auto simp: nth_reparent split: option.split)

lemma set_all_parents_eq:
  assumes "\<forall>(p, ks) \<in> set infos. \<forall>k \<in> set ks. k < length is"
  shows "set_all_parents infos is = Inr (reparent (parent_map infos) is)"
  using assms
proof (induction infos arbitrary: "is")
  case Nil
  have "parent_map [] = (\<lambda>_. None)" by (rule ext) (simp add: parent_map_def)
  then show ?case by (simp add: reparent_none)
next
  case (Cons info infos)
  obtain p ks where i: "info = (p, ks)" by (cases info)
  let ?q = "\<lambda>k. if k \<in> set ks then Some p else None"
  have 1: "set_parents_of p ks is = Inr (reparent ?q is)"
    using Cons.prems by (intro set_parents_of_eq) (simp add: i)
  have 2: "set_all_parents infos (reparent ?q is) = Inr (reparent (parent_map infos) (reparent ?q is))"
    using Cons.prems by (intro Cons.IH) (auto simp: i)
  have fa: "find P (xs @ [x]) = (case find P xs of None \<Rightarrow> if P x then Some x else None | Some y \<Rightarrow> Some y)"
    for P xs and x :: "u64 \<times> nat list"
    by (induction xs) simp_all
  have "(\<lambda>k. case parent_map infos k of None \<Rightarrow> ?q k | Some p \<Rightarrow> Some p) = parent_map (info # infos)"
    by (rule ext) (simp add: parent_map_def i fa split: option.split)
  then show ?case
    using 1 2 by (simp add: i reparent_reparent)
qed

lemma map_skel_reparent [simp]: "map skel (reparent ps is) = map skel is"
  by (rule nth_equalityI) (auto simp: nth_reparent split: option.split)

text \<open>The list of parents and child directories that the code collects.\<close>

definition parent_infos :: "inode_info list \<Rightarrow> (u64 \<times> nat list) list" where
  "parent_infos inodes = List.map_filter child_dirs inodes"

lemma child_dirs_eq:
  "child_dirs i = (if dir_child_indices i = [] then None else Some (ii_nid i, dir_child_indices i))"
  by (cases "ii_data i") (simp_all add: child_dirs_def dir_child_indices_def)

lemma in_parent_infos:
  "(p, ks) \<in> set (parent_infos is) \<longleftrightarrow>
     (\<exists>i \<in> set is. p = ii_nid i \<and> ks = dir_child_indices i \<and> ks \<noteq> [])"
  by (force simp: parent_infos_def List.map_filter_def child_dirs_eq image_iff split: if_splits)

lemma set_parent_nids_eq:
  assumes "inodes \<noteq> []" and "links_valid inodes"
  defines "inodes1 \<equiv> inodes[0 := set_parent (ii_nid (hd inodes)) (hd inodes)]"
  shows "set_parent_nids inodes = Inr (reparent (parent_map (parent_infos inodes1)) inodes1)"
proof -
  have sk: "map skel inodes = map skel inodes1"
    using assms(1) by (cases inodes) (simp_all add: inodes1_def)
  have "links_valid inodes1" by (rule links_valid_skel [OF sk assms(2)])
  then have "\<forall>(p, ks) \<in> set (parent_infos inodes1). \<forall>k \<in> set ks. k < length inodes1"
    using dir_child_indices_subset by (fastforce simp: in_parent_infos links_valid_def)
  from set_all_parents_eq [OF this] show ?thesis
    using assms(1)
    by (simp add: set_parent_nids_def index_at_def hd_conv_nth inodes1_def parent_infos_def Let_def)
qed

definition parent_of :: "inode_info list \<Rightarrow> nat \<Rightarrow> nat" where
  \<comment> \<open>the index of the directory that lists \<open>k\<close> as a child directory; the root is its own parent\<close>
  "parent_of inodes k =
     (case find (\<lambda>j. k \<in> set (dir_child_indices (inodes ! j))) [0 ..< length inodes] of
        None \<Rightarrow> 0 | Some j \<Rightarrow> j)"

definition tree_like :: "inode_info list \<Rightarrow> bool" where
  \<comment> \<open>every directory but the first inode is a child directory of exactly one directory\<close>
  "tree_like inodes \<longleftrightarrow>
     inodes \<noteq> [] \<and> links_valid inodes \<and>
     distinct (concat (map dir_child_indices inodes)) \<and>
     set (concat (map dir_child_indices inodes)) = {k. 0 < k \<and> k < length inodes \<and> is_directory (inodes ! k)}"

lemma distinct_concat_owner:
  "distinct (concat xss) \<Longrightarrow> i < length xss \<Longrightarrow> j < length xss \<Longrightarrow> x \<in> set (xss ! i) \<Longrightarrow> x \<in> set (xss ! j) \<Longrightarrow> i = j"
proof (induction xss arbitrary: i j)
  case Nil
  then show ?case by simp
next
  case (Cons xs xss)
  have "x \<notin> set xs" if "k < length xss" "x \<in> set (xss ! k)" for k
    using Cons.prems(1) that by (auto dest: nth_mem)
  then show ?case
    using Cons.IH [of "i - 1" "j - 1"] Cons.prems by (cases i; cases j) auto
qed

lemma tree_like_skel:
  assumes "map skel is = map skel js" and "tree_like is"
  shows "tree_like js"
proof -
  have len: "length is = length js" using assms(1) by (metis length_map)
  have "map dir_child_indices is = map dir_child_indices js"
    using assms(1) skel_child_indices(2) map_skel_nth len by (intro nth_equalityI) (metis length_map nth_map)+
  moreover have "is_directory (is ! k) = is_directory (js ! k)" if "k < length is" for k
    using is_directory_skel map_skel_nth [OF assms(1) that] by blast
  moreover have "is \<noteq> [] \<longleftrightarrow> js \<noteq> []" using len by auto
  ultimately show ?thesis
    using assms(2) links_valid_skel [OF assms(1)] len by (auto simp: tree_like_def)
qed

lemma parent_of_eq:
  assumes "tree_like is" and "j < length is" and "k \<in> set (dir_child_indices (is ! j))"
  shows "parent_of is k = j"
proof (cases "find (\<lambda>j. k \<in> set (dir_child_indices (is ! j))) [0 ..< length is]")
  case None
  then show ?thesis using assms(2,3) by (auto simp: find_None_iff)
next
  case (Some j')
  then have "j' < length is" "k \<in> set (dir_child_indices (is ! j'))"
    by (auto simp: find_Some_iff)
  moreover have "distinct (concat (map dir_child_indices is))" using assms(1) by (simp add: tree_like_def)
  ultimately have "j' = j"
    using assms(2,3) distinct_concat_owner [of "map dir_child_indices is" j' j k] by simp
  then show ?thesis using Some by (simp add: parent_of_def)
qed

lemma find_Some_in: "find P xs = Some x \<Longrightarrow> x \<in> set xs \<and> P x"
  by (induction xs) (auto split: if_splits)

lemma parent_map_infos:
  assumes "tree_like is" and "0 < k" and "k < length is" and "is_directory (is ! k)"
  shows "parent_map (parent_infos is) k = Some (ii_nid (is ! parent_of is k))"
proof -
  have "k \<in> set (concat (map dir_child_indices is))"
    using assms by (simp add: tree_like_def)
  then obtain j where j: "j < length is" "k \<in> set (dir_child_indices (is ! j))"
    by (auto simp: in_set_conv_nth [of _ "is"])
  have only: "p = ii_nid (is ! j)" if a: "(p, ks) \<in> set (parent_infos is)" and b: "k \<in> set ks" for p ks
  proof -
    obtain j' where "j' < length is" "p = ii_nid (is ! j')" "ks = dir_child_indices (is ! j')"
      using a by (auto simp: in_parent_infos in_set_conv_nth [of _ "is"])
    then show ?thesis using b parent_of_eq [OF assms(1)] j by metis
  qed
  have "(ii_nid (is ! j), dir_child_indices (is ! j)) \<in> set (parent_infos is)"
    using j by (auto simp: in_parent_infos)
  then obtain info where "find (\<lambda>(p, ks). k \<in> set ks) (rev (parent_infos is)) = Some info"
    using j by (cases "find (\<lambda>(p, ks). k \<in> set ks) (rev (parent_infos is))") (auto simp: find_None_iff)
  moreover from this have "info \<in> set (parent_infos is)" "k \<in> set (snd info)"
    by (auto dest: find_Some_in)
  ultimately show ?thesis
    using only [of "fst info" "snd info"] parent_of_eq [OF assms(1) j] by (simp add: parent_map_def)
qed

lemma parent_map_root:
  assumes "tree_like is"
  shows "parent_map (parent_infos is) 0 = None"
proof -
  have "0 \<notin> set (concat (map dir_child_indices is))"
    using assms by (simp add: tree_like_def)
  then have "\<forall>(p, ks) \<in> set (parent_infos is). 0 \<notin> set ks"
    by (auto simp: in_parent_infos)
  then show ?thesis by (auto simp: parent_map_def find_None_iff)
qed

text \<open>The parents that phase 2 sets: the directory that holds a directory, and the root itself.\<close>

lemma parent_of_bound: "inodes \<noteq> [] \<Longrightarrow> parent_of inodes k < length inodes"
  by (auto simp: parent_of_def find_Some_iff split: option.split)

lemma parent_of_root: "tree_like inodes \<Longrightarrow> parent_of inodes 0 = 0"
proof -
  assume "tree_like inodes"
  then have "0 \<notin> set (concat (map dir_child_indices inodes))" by (simp add: tree_like_def)
  then have "find (\<lambda>j. 0 \<in> set (dir_child_indices (inodes ! j))) [0 ..< length inodes] = None"
    by (auto simp: find_None_iff)
  then show ?thesis by (simp add: parent_of_def)
qed

lemma set_parent_nids_tree:
  assumes "tree_like inodes"
  obtains inodes' where "set_parent_nids inodes = Inr inodes'" and "map skel inodes' = map skel inodes"
    and "\<forall>k < length inodes. is_directory (inodes ! k) \<longrightarrow>
           dir_parent (inodes' ! k) = ii_nid (inodes ! parent_of inodes k)"
proof -
  define inodes1 where "inodes1 = inodes[0 := set_parent (ii_nid (hd inodes)) (hd inodes)]"
  have ne: "inodes \<noteq> []" and lv: "links_valid inodes" using assms by (simp_all add: tree_like_def)
  have sk: "map skel inodes = map skel inodes1"
    using ne by (cases inodes) (simp_all add: inodes1_def)
  have t1: "tree_like inodes1" by (rule tree_like_skel [OF sk assms])
  have len: "length inodes1 = length inodes" by (simp add: inodes1_def)
  have nid: "ii_nid (inodes1 ! j) = ii_nid (inodes ! j)" if "j < length inodes" for j
    using skel_eqD(8) [OF map_skel_nth [OF sk that]] by simp
  have same_kids: "dir_child_indices (inodes1 ! j) = dir_child_indices (inodes ! j)" if "j < length inodes" for j
    using skel_child_indices(2) [OF map_skel_nth [OF sk that]] by simp
  have par: "parent_of inodes1 k = parent_of inodes k" for k
    unfolding parent_of_def len
    by (intro arg_cong [of _ _ "\<lambda>x. case x of None \<Rightarrow> 0 | Some j \<Rightarrow> j"] find_cong) (auto simp: same_kids)
  let ?i' = "reparent (parent_map (parent_infos inodes1)) inodes1"
  show ?thesis
  proof (rule that)
    show "set_parent_nids inodes = Inr ?i'"
      unfolding inodes1_def by (rule set_parent_nids_eq [OF ne lv])
    show "map skel ?i' = map skel inodes" using sk by simp
    show "\<forall>k < length inodes. is_directory (inodes ! k) \<longrightarrow>
        dir_parent (?i' ! k) = ii_nid (inodes ! parent_of inodes k)"
    proof (intro allI impI)
      fix k assume k: "k < length inodes" and d: "is_directory (inodes ! k)"
      have d1: "is_directory (inodes1 ! k)"
        using d is_directory_skel [OF map_skel_nth [OF sk k]] by simp
      show "dir_parent (?i' ! k) = ii_nid (inodes ! parent_of inodes k)"
      proof (cases "k = 0")
        case True
        have "inodes1 ! 0 = set_parent (ii_nid (hd inodes)) (hd inodes)"
          using ne by (simp add: inodes1_def)
        then show ?thesis
          using True k d ne parent_of_root [OF assms] by (simp add: nth_reparent len parent_map_root [OF t1] hd_conv_nth)
      next
        case False
        have "inodes1 \<noteq> []" using ne by (simp add: inodes1_def)
        then have "parent_of inodes1 k < length inodes" using parent_of_bound [of inodes1 k] by (simp add: len)
        then show ?thesis
          using False k d1 parent_map_infos [OF t1, of k] nid par
          by (simp add: nth_reparent len)
      qed
    qed
  qed
qed

subsection \<open>Directory data\<close>

definition child_of :: "inode_info list \<Rightarrow> dir_entry \<Rightarrow> dir_child" where
  "child_of inodes de =
     \<lparr>dc_name = dn_name de, dc_nid = ii_nid (inodes ! dn_inode_idx de), dc_file_type = dn_file_type de\<rparr>"

definition info_of :: "inode_info list \<Rightarrow> nat \<times> inode_info \<Rightarrow> dir_info option" where
  "info_of inodes = (\<lambda>(idx, i). case ii_data i of
     Directory ch _ _ p \<Rightarrow> Some (idx, map (child_of inodes) ch, ii_nid i, p) | _ \<Rightarrow> None)"

definition dir_info_list :: "inode_info list \<Rightarrow> dir_info list" where
  "dir_info_list inodes = List.map_filter (info_of inodes) (List.enumerate 0 inodes)"

lemma collect_dir_infos_eq:
  assumes "links_valid inodes"
  shows "collect_dir_infos inodes = Inr (dir_info_list inodes)"
proof -
  have "dir_info_of inodes (k, i) = Inr (info_of inodes (k, i))" if i: "i \<in> set inodes" for k i
  proof (cases "ii_data i")
    case (Directory ch sb sz p)
    then have "\<forall>de \<in> set ch. dn_inode_idx de < length inodes"
      using assms i by (auto simp: links_valid_def child_indices_def dest!: bspec [of _ _ i])
    then have "map_result (\<lambda>de. and_then (index_at inodes (dn_inode_idx de)) (\<lambda>child.
        Inr \<lparr>dc_name = dn_name de, dc_nid = ii_nid child, dc_file_type = dn_file_type de\<rparr>)) ch =
        Inr (map (child_of inodes) ch)"
      by (intro map_result_Inr) (simp add: index_at_def child_of_def)
    then show ?thesis by (simp add: dir_info_of_def info_of_def Directory)
  qed (simp_all add: dir_info_of_def info_of_def)
  then have "map_result (dir_info_of inodes) (List.enumerate 0 inodes) =
      Inr (map (info_of inodes) (List.enumerate 0 inodes))"
    by (intro map_result_Inr) (auto simp: in_set_enumerate_eq)
  then show ?thesis
    by (simp add: collect_dir_infos_def dir_info_list_def List.map_filter_def comp_def filter_map)
qed

definition info_entries :: "dir_info \<Rightarrow> dir_ent list" where
  "info_entries = (\<lambda>(idx, ch, self_nid, parent_nid). dir_entries ch self_nid parent_nid)"

definition info_image :: "dir_info \<Rightarrow> u8 list" where
  "info_image info = concat (map block_image (dir_blocks_of (info_entries info)))"

lemma info_image_dvd: "4096 dvd length (info_image info)"
  unfolding info_image_def length_dir_image by simp

definition info_images_size :: "dir_info list \<Rightarrow> nat" where
  "info_images_size infos = sum_list (map (\<lambda>info. length (info_image info)) infos)"

lemma info_images_size_simps [simp]:
  "info_images_size [] = 0"
  "info_images_size (info # infos) = length (info_image info) + info_images_size infos"
  by (simp_all add: info_images_size_def)

lemma length_info_images: "length (concat (map info_image infos)) = info_images_size infos"
  by (induction infos) simp_all

fun apply_dirs :: "nat \<Rightarrow> dir_info list \<Rightarrow> inode_info list \<Rightarrow> inode_info list" where
  "apply_dirs off [] inodes = inodes"
| "apply_dirs off (info # infos) inodes =
     apply_dirs (off + length (info_image info)) infos
       (inodes[fst info := set_dir_data (1 + word_of_nat (off div 4096)) (length (info_image info))
                            (inodes ! fst info)])"

lemma length_apply_dirs [simp]: "length (apply_dirs off infos inodes) = length inodes"
  by (induction off infos inodes rule: apply_dirs.induct) simp_all

lemma write_dirs_eq:
  assumes "layout_inv l" and "4096 dvd length (lay_buf l)"
    and "\<forall>info \<in> set infos. names_fit (info_entries info) \<and> fst info < length inodes"
    and "length (lay_buf l) + info_images_size infos \<le> 2 ^ 62"
  shows "write_dirs infos inodes l =
    Inr (apply_dirs (length (lay_buf l)) infos inodes,
      l\<lparr>lay_buf := lay_buf l @ concat (map info_image infos),
        lay_cursor := length (lay_buf l) + info_images_size infos\<rparr>)"
  using assms
proof (induction infos arbitrary: inodes l)
  case Nil
  then show ?case by (simp add: layout_inv_def)
next
  case (Cons info infos)
  obtain idx ch self par where info: "info = (idx, ch, self, par)" by (rule prod_cases4)
  let ?d = "info_image info" and ?b = "lay_buf l"
  let ?l = "l\<lparr>lay_buf := ?b @ ?d, lay_cursor := length ?b + length ?d\<rparr>"
  have ser: "serialize_directory ch self par = Inr ?d"
    using Cons.prems(3) serialize_directory_eq [of ch self par]
    by (simp add: info info_image_def info_entries_def)
  have pads: "pad_len (length ?b) 4096 = 0" "pad_len (length ?d) 4096 = 0"
    using Cons.prems(2) info_image_dvd by (simp_all add: pad_len_eq_0)
  have le: "length ?b \<le> 2 ^ 63" "length ?d \<le> 2 ^ 63"
    using Cons.prems(4) by simp_all
  have al: "alloc_dir_data l (length ?d) =
      ((length ?b, 1 + word_of_nat (length ?b div 4096)),
       l\<lparr>lay_buf := ?b @ replicate (length ?d) 0, lay_cursor := length ?b + length ?d\<rparr>)"
    using alloc_dir_data_eq [OF Cons.prems(1) le] by (simp add: pads)
  have wr: "write_at (l\<lparr>lay_buf := ?b @ replicate (length ?d) 0, lay_cursor := length ?b + length ?d\<rparr>)
      (length ?b) ?d = Inr ?l"
    using copy_at_append [of ?b "length ?b" "replicate (length ?d) 0" ?d "[]"]
    by (simp add: write_at_def)
  have d4: "4096 dvd length ?b + length ?d"
    using Cons.prems(2) info_image_dvd by (rule dvd_add)
  have "layout_inv ?l"
    using Cons.prems(1) dvd_32_4096 [OF d4] by (auto simp: layout_inv_def)
  moreover have "4096 dvd length (lay_buf ?l)" using d4 by simp
  ultimately have IH: "write_dirs infos inodes' ?l =
      Inr (apply_dirs (length (lay_buf ?l)) infos inodes',
        ?l\<lparr>lay_buf := lay_buf ?l @ concat (map info_image infos),
           lay_cursor := length (lay_buf ?l) + info_images_size infos\<rparr>)"
    if "length inodes' = length inodes" for inodes'
    using Cons.prems(3,4) that by (intro Cons.IH) simp_all
  show ?case
    using Cons.prems(3) ser al wr IH
    by (simp add: info index_at_def Let_def add.assoc)
qed

lemma apply_dirs_other:
  "k \<notin> fst ` set infos \<Longrightarrow> apply_dirs off infos inodes ! k = inodes ! k"
  by (induction off infos inodes rule: apply_dirs.induct) auto

lemma apply_dirs_nth:
  assumes "distinct (map fst infos)" and "m < length infos" and "fst (infos ! m) < length inodes"
  shows "apply_dirs off infos inodes ! fst (infos ! m) =
    set_dir_data (1 + word_of_nat ((off + info_images_size (take m infos)) div 4096))
      (length (info_image (infos ! m))) (inodes ! fst (infos ! m))"
  using assms
proof (induction off infos inodes arbitrary: m rule: apply_dirs.induct)
  case (1 off inodes)
  then show ?case by simp
next
  case (2 off info infos inodes)
  show ?case
  proof (cases m)
    case 0
    then show ?thesis
      using "2.prems" by (simp add: apply_dirs_other)
  next
    case (Suc n)
    have "fst (infos ! n) \<in> fst ` set infos"
      using "2.prems"(2) Suc by (intro imageI nth_mem) simp
    moreover have "fst info \<notin> fst ` set infos"
      using "2.prems"(1) by simp
    ultimately have "fst (infos ! n) \<noteq> fst info" by metis
    then show ?thesis
      using "2.IH" [of n] "2.prems" Suc by (simp add: add.assoc)
  qed
qed

lemma bytes_at_infos:
  "m < length infos \<Longrightarrow>
     bytes_at (info_images_size (take m infos)) (length (info_image (infos ! m))) (concat (map info_image infos)) =
     info_image (infos ! m)"
proof -
  assume m: "m < length infos"
  have "concat (map info_image infos) = concat (map info_image (take m infos @ infos ! m # drop (Suc m) infos))"
    by (subst id_take_nth_drop [OF m]) (rule refl)
  then have "concat (map info_image infos) =
      concat (map info_image (take m infos)) @ info_image (infos ! m) @ concat (map info_image (drop (Suc m) infos))"
    by (simp only: map_append list.map concat_append concat.simps)
  then show ?thesis
    by (simp only: bytes_at_append_exact length_info_images)
qed

text \<open>The directories of an inode list, each at its own index.\<close>

lemma in_map_filter: "y \<in> set (List.map_filter f xs) \<longleftrightarrow> (\<exists>x \<in> set xs. f x = Some y)"
  by (force simp: List.map_filter_def image_iff)

lemma info_of_Some:
  "info_of inodes (k, i) = Some info \<longleftrightarrow>
     (\<exists>ch sb sz p. ii_data i = Directory ch sb sz p \<and> info = (k, map (child_of inodes) ch, ii_nid i, p))"
  by (cases "ii_data i") (auto simp: info_of_def)

lemma dir_info_list_mem:
  "info \<in> set (dir_info_list inodes) \<longleftrightarrow>
     (\<exists>k < length inodes. \<exists>ch sb sz p. ii_data (inodes ! k) = Directory ch sb sz p \<and>
        info = (k, map (child_of inodes) ch, ii_nid (inodes ! k), p))"
proof -
  have "info \<in> set (dir_info_list inodes) \<longleftrightarrow>
      (\<exists>k < length inodes. info_of inodes (k, inodes ! k) = Some info)"
    by (auto simp: dir_info_list_def in_map_filter in_set_enumerate_eq)
  then show ?thesis
    by (simp add: info_of_Some)
qed

lemma distinct_dir_info_list: "distinct (map fst (dir_info_list inodes))"
proof -
  have "map fst (List.map_filter (info_of inodes) xs) = map fst (filter (\<lambda>x. info_of inodes x \<noteq> None) xs)" for xs
    by (induction xs) (auto simp: List.map_filter_simps info_of_def split: inode_data.splits)
  moreover have "distinct (map fst (List.enumerate 0 inodes))"
    by (simp add: distinct_enumerate)
  ultimately show ?thesis
    unfolding dir_info_list_def by (simp add: distinct_map_filter)
qed

subsection \<open>Serialised inodes\<close>

fun placed :: "nat \<Rightarrow> inode_info list \<Rightarrow> bool" where
  "placed off [] \<longleftrightarrow> True"
| "placed off (i # is) \<longleftrightarrow> ii_meta_offset i = off \<and> placed (off + slot_size i) is"

lemma slot_size_place [simp]: "slot_size (i\<lparr>ii_meta_offset := a, ii_nid := b\<rparr>) = slot_size i"
  by (simp add: slot_size_def inode_meta_size_def inode_base_def)

lemma placed_place: "placed off (place off is)"
  by (induction off "is" rule: place.induct) simp_all

lemma skel_slot_size: "skel i = skel j \<Longrightarrow> slot_size i = slot_size j"
  unfolding slot_size_def by (metis skel_meta_size)

lemma placed_skel: "map skel is = map skel js \<Longrightarrow> placed off is \<Longrightarrow> placed off js"
proof (induction "is" arbitrary: off js)
  case Nil
  then show ?case by simp
next
  case (Cons i "is")
  from Cons.prems(1) obtain j js' where js: "js = j # js'" "skel i = skel j" "map skel is = map skel js'"
    by (cases js) auto
  have "placed (off + slot_size i) is" and "ii_meta_offset i = off"
    using Cons.prems(2) by simp_all
  moreover from this(1) have "placed (off + slot_size i) js'"
    by (rule Cons.IH [OF js(3)])
  ultimately show ?case
    using skel_eqD(9) [OF js(2)] skel_slot_size [OF js(2)] unfolding js(1) placed.simps by metis
qed

definition slot_image :: "u64 \<Rightarrow> u32 \<Rightarrow> inode_info \<Rightarrow> u8 list" where
  "slot_image epoch chunkbits i =
     inode_image i epoch chunkbits @ replicate (pad_len (inode_meta_size i) 32) 0"

lemma length_slot_image: "xattrs_small i \<Longrightarrow> length (slot_image epoch chunkbits i) = slot_size i"
  by (simp add: slot_image_def slot_size_def length_inode_image)

lemma write_inodes_eq:
  assumes "\<forall>i \<in> set is. xattrs_small i" and "placed (length p) is"
    and "lay_buf l = p @ replicate (slots_size is) 0 @ r"
  shows "write_inodes epoch chunkbits is l =
    Inr (l\<lparr>lay_buf := p @ concat (map (slot_image epoch chunkbits) is) @ r\<rparr>)"
  using assms
proof (induction "is" arbitrary: p l)
  case Nil
  then show ?case by simp
next
  case (Cons i "is")
  let ?img = "inode_image i epoch chunkbits" and ?pad = "replicate (pad_len (inode_meta_size i) 32) (0 :: u8)"
  have sm: "xattrs_small i" using Cons.prems(1) by simp
  have buf: "lay_buf l = p @ replicate (inode_meta_size i) 0 @ ?pad @ replicate (slots_size is) 0 @ r"
    using Cons.prems(3) by (simp add: slot_size_def replicate_add)
  have "copy_at (length p) ?img (lay_buf l) = Inr (p @ ?img @ ?pad @ replicate (slots_size is) 0 @ r)"
    unfolding buf by (intro copy_at_append) (simp_all add: length_inode_image [OF sm])
  then have w: "write_at l (ii_meta_offset i) ?img =
      Inr (l\<lparr>lay_buf := (p @ slot_image epoch chunkbits i) @ replicate (slots_size is) 0 @ r\<rparr>)"
    using Cons.prems(2) by (simp add: write_at_def slot_image_def)
  have "write_inodes epoch chunkbits is
      (l\<lparr>lay_buf := (p @ slot_image epoch chunkbits i) @ replicate (slots_size is) 0 @ r\<rparr>) =
      Inr (l\<lparr>lay_buf := (p @ slot_image epoch chunkbits i) @ replicate (slots_size is) 0 @ r\<rparr>
        \<lparr>lay_buf := (p @ slot_image epoch chunkbits i) @ concat (map (slot_image epoch chunkbits) is) @ r\<rparr>)"
    using Cons.prems length_slot_image [OF sm] by (intro Cons.IH) simp_all
  then show ?case
    using w serialize_inode_image [OF sm] by simp
qed

lemma placed_nth:
  "placed off is \<Longrightarrow> k < length is \<Longrightarrow> ii_meta_offset (is ! k) = off + slots_size (take k is)"
proof (induction "is" arbitrary: off k)
  case (Cons i "is")
  show ?case
  proof (cases k)
    case 0
    then show ?thesis using Cons.prems by simp
  next
    case (Suc n)
    then show ?thesis
      using Cons.IH [of "off + slot_size i" n] Cons.prems by (simp add: add.assoc)
  qed
qed simp

lemma place_nid:
  "k < length is \<Longrightarrow> ii_nid (place off is ! k) = word_of_nat ((off + slots_size (take k is)) div 32)"
proof (induction off "is" arbitrary: k rule: place.induct)
  case (2 off i "is")
  then show ?case by (cases k) (simp_all add: add.assoc)
qed simp

lemma bytes_at_slots:
  assumes "\<forall>i \<in> set is. xattrs_small i" and "k < length is"
  shows "bytes_at (slots_size (take k is)) (inode_meta_size (is ! k))
      (concat (map (slot_image epoch chunkbits) is) @ r) = inode_image (is ! k) epoch chunkbits"
proof -
  have "concat (map (slot_image epoch chunkbits) is) =
      concat (map (slot_image epoch chunkbits) (take k is)) @ slot_image epoch chunkbits (is ! k) @
      concat (map (slot_image epoch chunkbits) (drop (Suc k) is))"
    using assms(2) by (metis concat.simps(2) concat_append id_take_nth_drop list.simps(9) map_append)
  moreover have "length (concat (map (slot_image epoch chunkbits) js)) = slots_size js"
    if "\<forall>i \<in> set js. xattrs_small i" for js
    using that by (induction js) (simp_all add: length_slot_image)
  moreover have "\<forall>i \<in> set (take k is). xattrs_small i" and sm: "xattrs_small (is ! k)"
    using assms by (auto dest: in_set_takeD)
  ultimately have "concat (map (slot_image epoch chunkbits) is) @ r =
      concat (map (slot_image epoch chunkbits) (take k is)) @ inode_image (is ! k) epoch chunkbits @
      (replicate (pad_len (inode_meta_size (is ! k)) 32) 0 @
       concat (map (slot_image epoch chunkbits) (drop (Suc k) is)) @ r)"
    and "length (concat (map (slot_image epoch chunkbits) (take k is))) = slots_size (take k is)"
    by (simp_all only: slot_image_def append_assoc)
  then show ?thesis
    using length_inode_image [OF sm] by (simp only: bytes_at_append_exact)
qed

subsection \<open>The whole metadata area\<close>

definition dir_names_ok :: "inode_info \<Rightarrow> bool" where
  \<comment> \<open>the names of a directory are file names short enough for a block\<close>
  "dir_names_ok i =
     (case ii_data i of
        Directory ch _ _ _ \<Rightarrow>
          \<forall>de \<in> set ch. dn_name de \<noteq> [] \<and> 0 \<notin> set (dn_name de) \<and> length (dn_name de) \<le> 4084
      | _ \<Rightarrow> True)"

definition dir_bound :: "inode_info \<Rightarrow> nat" where
  "dir_bound i = (case ii_data i of Directory ch _ _ _ \<Rightarrow> 4096 * (length ch + 2) | _ \<Rightarrow> 0)"

definition metadata_bound :: "inode_info list \<Rightarrow> nat" where
  "metadata_bound inodes = slots_size inodes + 4096 + sum_list (map dir_bound inodes)"

definition layout_ok :: "inode_info list \<Rightarrow> bool" where
  "layout_ok inodes \<longleftrightarrow>
     tree_like inodes \<and> is_directory (inodes ! 0) \<and>
     (\<forall>i \<in> set inodes. xattrs_small i \<and> dir_names_ok i) \<and>
     metadata_bound inodes \<le> 2 ^ 61"

lemma length_dir_blocks: "names_fit es \<Longrightarrow> length (dir_blocks_of es) \<le> length es"
proof (induction es rule: dir_blocks_of.induct)
  case (1 es)
  show ?case
  proof (cases "es = []")
    case True
    then show ?thesis by (simp add: dir_blocks_of.simps)
  next
    case False
    then have pos: "0 < fill_block es 0 0" by (rule names_fit_fill [OF "1.prems"])
    have "length (dir_blocks_of (drop (fill_block es 0 0) es)) \<le> length (drop (fill_block es 0 0) es)"
      using False pos "1.prems" by (intro "1.IH") (simp_all add: names_fit_drop)
    moreover have "fill_block es 0 0 \<le> length es" using fill_block_bounds [of 0 es 0] by simp
    ultimately show ?thesis
      using False pos by (simp add: dir_blocks_of.simps [of es])
  qed
qed

lemma info_entries_names:
  assumes "dir_names_ok (inodes ! k)" and "ii_data (inodes ! k) = Directory ch sb sz p"
  shows "names_fit (dir_entries (map (child_of js) ch) self par)"
    and "names_clean (dir_entries (map (child_of js) ch) self par)"
  using assms
  by (auto simp: names_fit_def names_clean_def dir_entries_def dir_names_ok_def child_of_def bytes_def)

lemma dir_names_ok_skel: "skel i = skel j \<Longrightarrow> dir_names_ok i = dir_names_ok j"
  by (cases i; cases j; auto simp: skel_def dir_names_ok_def split: inode_data.splits)

lemma dir_bound_skel: "skel i = skel j \<Longrightarrow> dir_bound i = dir_bound j"
  by (cases i; cases j; auto simp: skel_def dir_bound_def split: inode_data.splits)

lemma sum_map_filter_le:
  fixes h :: "'a \<Rightarrow> nat"
  assumes "\<And>x y. x \<in> set xs \<Longrightarrow> g x = Some y \<Longrightarrow> f y \<le> h x"
  shows "sum_list (map f (List.map_filter g xs)) \<le> sum_list (map h xs)"
  using assms
proof (induction xs)
  case (Cons x xs)
  have "sum_list (map f (List.map_filter g xs)) \<le> sum_list (map h xs)"
    using Cons.prems by (intro Cons.IH) simp
  then show ?case
    using Cons.prems [of x] by (cases "g x") (simp_all add: List.map_filter_simps add_mono le_add2 trans_le_add2)
qed (simp add: List.map_filter_simps)

lemma info_images_bound:
  assumes "\<forall>i \<in> set inodes. dir_names_ok i"
  shows "info_images_size (dir_info_list inodes) \<le> sum_list (map dir_bound inodes)"
proof -
  have "sum_list (map (\<lambda>info. length (info_image info)) (List.map_filter (info_of inodes) (List.enumerate 0 inodes)))
      \<le> sum_list (map (\<lambda>(k, i). dir_bound i) (List.enumerate 0 inodes))"
  proof (rule sum_map_filter_le)
    fix x info assume x: "x \<in> set (List.enumerate 0 inodes)" and i: "info_of inodes x = Some info"
    obtain k i where ki: "x = (k, i)" by (cases x)
    then have k: "k < length inodes" "i = inodes ! k"
      using x by (auto simp: in_set_enumerate_eq)
    obtain ch sb sz p where d: "ii_data i = Directory ch sb sz p"
      and info: "info = (k, map (child_of inodes) ch, ii_nid i, p)"
      using i by (auto simp: ki info_of_Some)
    have "names_fit (dir_entries (map (child_of inodes) ch) (ii_nid i) p)"
      using assms k d by (intro info_entries_names(1) [of inodes k]) auto
    then have "length (dir_blocks_of (dir_entries (map (child_of inodes) ch) (ii_nid i) p)) \<le> length ch + 2"
      using length_dir_blocks by (fastforce simp: dir_entries_def)
    then show "length (info_image info) \<le> (case x of (k, i) \<Rightarrow> dir_bound i)"
      by (simp only: info info_image_def info_entries_def length_dir_image prod.case) (simp add: ki dir_bound_def d)
  qed
  moreover have "map (\<lambda>(k, i). dir_bound i) (List.enumerate 0 inodes) = map dir_bound inodes"
    by (rule nth_equalityI) (simp_all add: nth_enumerate_eq)
  ultimately show ?thesis
    by (simp add: info_images_size_def dir_info_list_def)
qed

definition inode_at :: "u8 list \<Rightarrow> u64 \<Rightarrow> u32 \<Rightarrow> inode_info \<Rightarrow> bool" where
  \<comment> \<open>the metadata buffer holds this inode at the slot of its number\<close>
  "inode_at buf epoch chunkbits i \<longleftrightarrow>
     32 * unat (ii_nid i) + max (inode_meta_size i) 64 \<le> length buf \<and>
     bytes_at (32 * unat (ii_nid i)) (inode_meta_size i) buf = inode_image i epoch chunkbits"

definition inode_entries :: "inode_info list \<Rightarrow> inode_info \<Rightarrow> dir_ent list" where
  \<comment> \<open>the entries of a directory, with the numbers of the inodes its children name\<close>
  "inode_entries inodes i =
     (case ii_data i of
        Directory ch _ _ p \<Rightarrow> dir_entries (map (child_of inodes) ch) (ii_nid i) p | _ \<Rightarrow> [])"

definition dir_at :: "u8 list \<Rightarrow> inode_info list \<Rightarrow> inode_info \<Rightarrow> bool" where
  \<comment> \<open>the metadata buffer, which starts at block 1, holds the entries of this directory where its
    inode says\<close>
  "dir_at buf inodes i \<longleftrightarrow>
     (\<exists>ch sb sz p. ii_data i = Directory ch sb sz p \<and>
        (let data = concat (map block_image (dir_blocks_of (inode_entries inodes i))) in
         unat (ii_size i) = length data \<and> 4096 \<le> 4096 * unat sb \<and>
         4096 * unat sb - 4096 + length data \<le> length buf \<and>
         bytes_at (4096 * unat sb - 4096) (length data) buf = data))"

definition laid_out :: "inode_info list \<Rightarrow> inode_info list \<Rightarrow> u8 list \<Rightarrow> u64 \<Rightarrow> u32 \<Rightarrow> bool" where
  \<comment> \<open>\<open>final\<close> are the inodes with numbers, parents and directory data filled in, \<open>buf\<close> holds them\<close>
  "laid_out inodes final buf epoch chunkbits \<longleftrightarrow>
     length final = length inodes \<and> map skel final = map skel (place 0 inodes) \<and>
     (\<forall>k < length final. inode_at buf epoch chunkbits (final ! k)) \<and>
     (\<forall>k < length final. is_directory (final ! k) \<longrightarrow>
        dir_at buf final (final ! k) \<and> dir_parent (final ! k) = ii_nid (final ! parent_of final k)) \<and>
     ii_nid (final ! 0) = 0 \<and> length buf \<le> metadata_bound inodes"

text \<open>Slots change nothing the other phases look at.\<close>

lemma nth_place:
  "k < length is \<Longrightarrow> place off is ! k =
     (is ! k)\<lparr>ii_meta_offset := off + slots_size (take k is), ii_nid := word_of_nat ((off + slots_size (take k is)) div 32)\<rparr>"
proof (induction off "is" arbitrary: k rule: place.induct)
  case (2 off i "is")
  then show ?case by (cases k) (simp_all add: add.assoc)
qed simp

lemma map_place:
  assumes "\<And>i a b. f (i\<lparr>ii_meta_offset := a, ii_nid := b\<rparr>) = f i"
  shows "map f (place off is) = map f is"
  using assms by (induction off "is" rule: place.induct) simp_all

lemma place_keeps [simp]:
  "map dir_child_indices (place off is) = map dir_child_indices is"
  "map child_indices (place off is) = map child_indices is"
  "map is_directory (place off is) = map is_directory is"
  "map dir_names_ok (place off is) = map dir_names_ok is"
  "map dir_bound (place off is) = map dir_bound is"
  "map xattrs_small (place off is) = map xattrs_small is"
  "map slot_size (place off is) = map slot_size is"
  by (intro map_place; simp add: dir_child_indices_def child_indices_def is_directory_def dir_names_ok_def
      dir_bound_def xattrs_small_def)+

lemma ball_map: "map f is = map f js \<Longrightarrow> (\<forall>i \<in> set is. f i) \<longleftrightarrow> (\<forall>j \<in> set js. f j)"
  by (metis (mono_tags) image_iff list.set_map)

lemma links_valid_children:
  "map child_indices is = map child_indices js \<Longrightarrow> links_valid is \<Longrightarrow> links_valid js"
proof -
  assume m: "map child_indices is = map child_indices js" and lv: "links_valid is"
  have "length is = length js" using m by (metis length_map)
  moreover have "\<forall>ks \<in> set (map child_indices is). \<forall>k \<in> set ks. k < length is"
    using lv by (simp add: links_valid_def)
  ultimately have "\<forall>ks \<in> set (map child_indices js). \<forall>k \<in> set ks. k < length js"
    using m by simp
  then show ?thesis by (simp add: links_valid_def)
qed

lemma tree_like_place: "tree_like is \<Longrightarrow> tree_like (place off is)"
proof -
  assume t: "tree_like is"
  have "links_valid (place off is)"
    using t by (intro links_valid_children [OF place_keeps(2) [symmetric]]) (simp add: tree_like_def)
  moreover have "is_directory (place off is ! k) = is_directory (is ! k)" if "k < length is" for k
    using that by (metis length_map length_place nth_map place_keeps(3))
  moreover have "place off is \<noteq> []"
    using t by (cases "is") (simp_all add: tree_like_def)
  ultimately show ?thesis
    using t by (auto simp: tree_like_def)
qed

lemma is_directory_set_dir_data [simp]: "is_directory (set_dir_data s n i) = is_directory i"
  by (simp add: is_directory_def set_dir_data_def split: inode_data.split)

lemma map_skel_apply_dirs:
  assumes "\<forall>info \<in> set infos. fst info < length inodes \<and> is_directory (inodes ! fst info)"
  shows "map skel (apply_dirs off infos inodes) = map skel inodes"
  using assms
proof (induction off infos inodes rule: apply_dirs.induct)
  case (1 off inodes)
  then show ?case by simp
next
  case (2 off info infos inodes)
  let ?k = "fst info"
  let ?j = "set_dir_data (1 + word_of_nat (off div 4096)) (length (info_image info)) (inodes ! ?k)"
  have "\<exists>ch sb sz p. ii_data (inodes ! ?k) = Directory ch sb sz p"
    using "2.prems" by (auto simp: is_directory_def split: inode_data.splits)
  then have "skel ?j = skel (inodes ! ?k)" using skel_set_dir_data by blast
  then have "map skel (inodes[?k := ?j]) = map skel inodes"
    by (metis list_update_id map_update)
  moreover have "\<forall>info \<in> set infos. fst info < length (inodes[?k := ?j]) \<and> is_directory (inodes[?k := ?j] ! fst info)"
    using "2.prems" by (auto simp: nth_list_update)
  ultimately show ?case using "2.IH" by simp
qed

lemma slots_take_le: "k < length is \<Longrightarrow> slots_size (take k is) + slot_size (is ! k) \<le> slots_size is"
proof -
  assume "k < length is"
  then have "is = take k is @ is ! k # drop (Suc k) is" by (rule id_take_nth_drop)
  then have "slots_size is = slots_size (take k is) + slot_size (is ! k) + slots_size (drop (Suc k) is)"
    by (metis add.assoc list.simps(9) map_append slots_size_def sum_list.Cons sum_list.append)
  then show ?thesis by simp
qed

lemma word_of_div:
  assumes "(a :: nat) dvd n" and "n < 2 ^ 62" and "0 < a"
  shows "a * unat (word_of_nat (n div a) :: u64) = n"
proof -
  have "n div a \<le> n" by simp
  moreover have "n < 2 ^ 64" using assms(2) by simp
  ultimately have "n div a < 2 ^ 64" by (rule le_less_trans)
  then have "unat (word_of_nat (n div a) :: u64) = n div a"
    by (simp add: unat_of_nat)
  then show ?thesis using assms(1) by simp
qed

lemma place_0_nid: "is \<noteq> [] \<Longrightarrow> ii_nid (place 0 is ! 0) = 0"
  by (cases "is") simp_all

text \<open>The directories, in the buffer and in their inodes.\<close>

lemma apply_dirs_at:
  assumes sk: "map skel final = map skel is2" and final: "final = apply_dirs n (dir_info_list is2) is2"
    and k: "k < length is2" and d: "is_directory (is2 ! k)"
    and dvd: "4096 dvd n" and bound: "n + info_images_size (dir_info_list is2) < 2 ^ 62"
    and len: "length p = n" and lv: "links_valid is2"
  shows "dir_at (p @ concat (map info_image (dir_info_list is2))) final (final ! k) \<and>
    dir_parent (final ! k) = dir_parent (is2 ! k)"
proof -
  let ?infos = "dir_info_list is2"
  obtain ch sb sz par where dk: "ii_data (is2 ! k) = Directory ch sb sz par"
    using d by (auto simp: is_directory_def split: inode_data.splits)
  define info where "info = (k, map (child_of is2) ch, ii_nid (is2 ! k), par)"
  have "info \<in> set ?infos"
    using k dk by (auto simp: dir_info_list_mem info_def)
  then obtain m where m: "m < length ?infos" "?infos ! m = info"
    by (metis in_set_conv_nth)
  let ?pos = "n + info_images_size (take m ?infos)" and ?data = "info_image info"
  have fk: "final ! k = set_dir_data (1 + word_of_nat (?pos div 4096)) (length ?data) (is2 ! k)"
    using apply_dirs_nth [OF distinct_dir_info_list m(1), of is2 n] m(2) k by (simp add: final info_def)
  have "?infos = take m ?infos @ ?infos ! m # drop (Suc m) ?infos"
    using m(1) by (rule id_take_nth_drop)
  then have "info_images_size ?infos =
      info_images_size (take m ?infos) + length ?data + info_images_size (drop (Suc m) ?infos)"
    unfolding info_images_size_def m(2)
    by (metis (no_types, lifting) add.assoc list.simps(9) map_append sum_list.Cons sum_list.append)
  then have le: "?pos + length ?data \<le> n + info_images_size ?infos" by simp
  have posdvd: "4096 dvd ?pos"
  proof -
    have "4096 dvd info_images_size infos" for infos
      by (induction infos) (simp_all add: dvd_add info_image_dvd)
    then show ?thesis using dvd by (rule dvd_add [rotated])
  qed
  have w: "4096 * unat (word_of_nat (?pos div 4096) :: u64) = ?pos"
    using posdvd le bound by (intro word_of_div) simp_all
  moreover define q where "q = (word_of_nat (?pos div 4096) :: u64)"
  ultimately have q: "4096 * unat q = ?pos" by (simp only:)
  then have "unat (1 + q) = 1 + unat q"
    using le bound by (simp add: unat_word_ariths)
  then have sb: "4096 * unat (1 + q) = 4096 + ?pos"
    using q by (simp only: distrib_left mult_1_right)
  have "\<forall>de \<in> set ch. dn_inode_idx de < length is2"
    using lv k dk by (auto simp: links_valid_def child_indices_def dest!: bspec [of _ _ "is2 ! k"])
  then have same: "map (child_of final) ch = map (child_of is2) ch"
    using skel_eqD(8) [OF map_skel_nth [OF sk [symmetric]]] by (auto simp: child_of_def)
  have fk': "ii_data (final ! k) = Directory ch (1 + q) (length ?data) par"
    "ii_size (final ! k) = word_of_nat (length ?data)" "ii_nid (final ! k) = ii_nid (is2 ! k)"
    unfolding fk q_def [symmetric] by (simp_all add: set_dir_data_def dk)
  have ents: "inode_entries final (final ! k) = info_entries info"
    by (simp add: inode_entries_def fk' same info_entries_def info_def)
  have data: "concat (map block_image (dir_blocks_of (inode_entries final (final ! k)))) = ?data"
    by (simp add: ents info_image_def)
  have sz: "unat (word_of_nat (length ?data) :: u64) = length ?data"
    using le bound by (simp add: unat_of_nat)
  have at: "bytes_at ?pos (length ?data) (p @ concat (map info_image ?infos)) = ?data"
    using bytes_at_infos [OF m(1)] len m(2) by (simp add: bytes_at_append_right)
  have le2: "?pos + length ?data \<le> length (p @ concat (map info_image ?infos))"
    using le len by (simp add: length_info_images)
  have "dir_at (p @ concat (map info_image ?infos)) final (final ! k)"
    unfolding dir_at_def data Let_def using fk'(1) sb at le2 sz
    by (intro exI [of _ ch] exI [of _ "1 + q"] exI [of _ "length ?data"] exI [of _ par]) (simp add: fk')
  then show ?thesis
    by (simp add: dir_parent_def fk' dk)
qed

lemma map_skel_cong:
  assumes "map skel is = map skel js" and "\<And>i j. skel i = skel j \<Longrightarrow> f i = f j"
  shows "map f is = map f js"
  using assms(1)
proof (induction "is" arbitrary: js)
  case (Cons i "is")
  from Cons.prems obtain j js' where js: "js = j # js'" "skel i = skel j" "map skel is = map skel js'"
    by (cases js) auto
  then show ?case using Cons.IH [OF js(3)] assms(2) [OF js(2)] by simp
qed simp

lemma skel_facts:
  assumes "map skel is = map skel js"
  shows "map dir_names_ok is = map dir_names_ok js" and "map dir_bound is = map dir_bound js"
    and "map xattrs_small is = map xattrs_small js" and "map slot_size is = map slot_size js"
    and "map is_directory is = map is_directory js" and "map ii_nid is = map ii_nid js"
    and "map inode_meta_size is = map inode_meta_size js" and "map dir_child_indices is = map dir_child_indices js"
proof -
  have x: "skel i = skel j \<Longrightarrow> xattrs_small i = xattrs_small j" for i j
    unfolding xattrs_small_def by (drule skel_eqD(11)) (simp only:)
  note c = map_skel_cong [OF assms]
  show "map dir_names_ok is = map dir_names_ok js" by (rule c) (rule dir_names_ok_skel)
  show "map dir_bound is = map dir_bound js" by (rule c) (rule dir_bound_skel)
  show "map xattrs_small is = map xattrs_small js" by (rule c) (rule x)
  show "map slot_size is = map slot_size js" by (rule c) (rule skel_slot_size)
  show "map is_directory is = map is_directory js" by (rule c) (rule is_directory_skel)
  show "map ii_nid is = map ii_nid js" by (rule c) (rule skel_eqD(8))
  show "map inode_meta_size is = map inode_meta_size js" by (rule c) (rule skel_meta_size)
  show "map dir_child_indices is = map dir_child_indices js" by (rule c) (rule skel_child_indices(2))
qed

lemma parent_of_kids: "map dir_child_indices is = map dir_child_indices js \<Longrightarrow> parent_of is k = parent_of js k"
proof -
  assume m: "map dir_child_indices is = map dir_child_indices js"
  then have len: "length is = length js" by (metis length_map)
  have "dir_child_indices (is ! j) = dir_child_indices (js ! j)" if "j < length js" for j
    using m that len by (metis nth_map)
  then show ?thesis
    unfolding parent_of_def len
    by (intro arg_cong [of _ _ "\<lambda>x. case x of None \<Rightarrow> 0 | Some j \<Rightarrow> j"] find_cong) auto
qed

text \<open>A laid-out inode is at its slot.\<close>

lemma inode_at_slot:
  assumes "\<forall>i \<in> set is. xattrs_small i" and "map ii_nid is = map ii_nid (place 0 js)"
    and "map slot_size is = map slot_size js" and "k < length is" and "slots_size is \<le> 2 ^ 61"
    and "64 \<le> length r"
  shows "inode_at (concat (map (slot_image epoch chunkbits) is) @ r) epoch chunkbits (is ! k)"
proof -
  have len: "length is = length js" using assms(3) by (metis length_map)
  have off: "slots_size (take k is) = slots_size (take k js)"
    unfolding slots_size_def using assms(3) by (simp only: take_map [symmetric])
  have le: "slots_size (take k is) + slot_size (is ! k) \<le> slots_size is"
    using assms(4) by (rule slots_take_le)
  have "ii_nid (is ! k) = word_of_nat (slots_size (take k js) div 32)"
    using assms(2,4) len by (metis (no_types, lifting) add_0 length_place nth_map place_nid)
  then have nid: "32 * unat (ii_nid (is ! k)) = slots_size (take k is)"
    using le assms(5) by (simp only: off) (intro word_of_div, simp_all add: slots_size_dvd)
  have "length (concat (map (slot_image epoch chunkbits) is)) = slots_size is"
    using assms(1) by (induction "is") (simp_all add: length_slot_image)
  then have "slots_size (take k is) + max (inode_meta_size (is ! k)) 64 \<le>
      length (concat (map (slot_image epoch chunkbits) is) @ r)"
    using le assms(6) by (simp add: slot_size_def)
  then show ?thesis
    unfolding inode_at_def nid using bytes_at_slots [OF assms(1,4)] by simp
qed

lemma root_entries:
  assumes "is_directory i" and "names_fit (inode_entries is i)"
  shows "4096 \<le> length (concat (map block_image (dir_blocks_of (inode_entries is i))))"
proof -
  have "inode_entries is i \<noteq> []"
    using assms(1) by (auto simp: inode_entries_def is_directory_def dir_entries_def split: inode_data.splits)
  then have "dir_blocks_of (inode_entries is i) \<noteq> []"
    using concat_dir_blocks [OF assms(2)] by auto
  then show ?thesis
    unfolding length_dir_image by (cases "dir_blocks_of (inode_entries is i)") simp_all
qed

text \<open>The phases of \<open>layout_image\<close> one by one. \<open>linked_up\<close> describes the list once parents are set.\<close>

definition padded_slots :: "inode_info list \<Rightarrow> nat" where
  "padded_slots inodes = slots_size inodes + pad_len (slots_size inodes) 4096"

definition linked_up :: "inode_info list \<Rightarrow> inode_info list \<Rightarrow> bool" where
  "linked_up inodes is2 \<longleftrightarrow>
     map skel is2 = map skel (place 0 inodes) \<and>
     (\<forall>k < length inodes. is_directory (place 0 inodes ! k) \<longrightarrow>
        dir_parent (is2 ! k) = ii_nid (place 0 inodes ! parent_of (place 0 inodes) k))"

lemma layout_bounds:
  assumes "layout_ok inodes"
  shows "slots_size inodes \<le> 2 ^ 61" and "padded_slots inodes + sum_list (map dir_bound inodes) \<le> metadata_bound inodes"
    and "inodes \<noteq> []"
proof -
  have "pad_len (slots_size inodes) 4096 < 4096" by (rule pad_len_less) simp
  then show "slots_size inodes \<le> 2 ^ 61" "padded_slots inodes + sum_list (map dir_bound inodes) \<le> metadata_bound inodes"
    using assms by (simp_all add: layout_ok_def metadata_bound_def padded_slots_def)
  show "inodes \<noteq> []" using assms by (simp add: layout_ok_def tree_like_def)
qed

lemma phase_parents:
  assumes "layout_ok inodes"
  obtains is2 where "set_parent_nids (place 0 inodes) = Inr is2" and "linked_up inodes is2"
proof -
  have "tree_like (place 0 inodes)" using assms by (simp add: layout_ok_def tree_like_place)
  from set_parent_nids_tree [OF this] that show thesis by (auto simp: linked_up_def)
qed

lemma linked_up_facts:
  assumes "layout_ok inodes" and "linked_up inodes is2"
  shows "links_valid is2" and "length is2 = length inodes" and "\<forall>i \<in> set is2. dir_names_ok i"
    and "info_images_size (dir_info_list is2) \<le> sum_list (map dir_bound inodes)"
    and "padded_slots inodes + info_images_size (dir_info_list is2) \<le> 2 ^ 61"
proof -
  have sk: "map skel is2 = map skel (place 0 inodes)" using assms(2) by (simp add: linked_up_def)
  note f = skel_facts [OF sk, unfolded place_keeps]
  have "tree_like (place 0 inodes)" using assms(1) by (simp add: layout_ok_def tree_like_place)
  then show "links_valid is2" using tree_like_skel [OF sk [symmetric]] by (simp add: tree_like_def)
  show "length is2 = length inodes" using sk by (metis length_map length_place)
  show names: "\<forall>i \<in> set is2. dir_names_ok i" using assms(1) ball_map [OF f(1)] by (simp add: layout_ok_def)
  show "info_images_size (dir_info_list is2) \<le> sum_list (map dir_bound inodes)"
    using info_images_bound [OF names] by (simp only: f(2))
  then show "padded_slots inodes + info_images_size (dir_info_list is2) \<le> 2 ^ 61"
    using layout_bounds(2) [OF assms(1)] assms(1) by (simp add: layout_ok_def)
qed

lemma dir_infos_sound:
  assumes "\<forall>i \<in> set is2. dir_names_ok i" and "info \<in> set (dir_info_list is2)"
  shows "names_fit (info_entries info) \<and> fst info < length is2 \<and> is_directory (is2 ! fst info)"
proof -
  obtain k ch sb sz q where k: "k < length is2" and d: "ii_data (is2 ! k) = Directory ch sb sz q"
    and i: "info = (k, map (child_of is2) ch, ii_nid (is2 ! k), q)"
    using assms(2) by (auto simp: dir_info_list_mem)
  have "dir_names_ok (is2 ! k)" using assms(1) k by simp
  from info_entries_names(1) [OF this d] show ?thesis
    using k d by (simp add: i info_entries_def is_directory_def)
qed

lemma phase_dirs:
  assumes ok: "layout_ok inodes" and up: "linked_up inodes is2"
  obtains l1 l3 where "alloc_inodes layout_new inodes = (place 0 inodes, l1)"
    and "write_dirs (dir_info_list is2) is2 (snd (pad_to_block l1)) =
      Inr (apply_dirs (padded_slots inodes) (dir_info_list is2) is2, l3)"
    and "lay_buf l3 = replicate (padded_slots inodes) 0 @ concat (map info_image (dir_info_list is2))"
proof -
  let ?S = "slots_size inodes" and ?N = "padded_slots inodes"
  note S = layout_bounds(1) [OF ok] and f = linked_up_facts [OF ok up]
  define l1 where "l1 = layout_new\<lparr>lay_buf := replicate ?S 0, lay_cursor := ?S\<rparr>"
  have a: "alloc_inodes layout_new inodes = (place 0 inodes, l1)"
    using alloc_inodes_place [OF layout_inv_new, of inodes] S by (simp add: l1_def layout_new_def)
  have l1: "layout_inv l1" "lay_buf l1 = replicate ?S 0"
    by (simp_all add: l1_def layout_inv_def layout_new_def slots_size_dvd)
  define l2 where "l2 = snd (pad_to_block l1)"
  have l2: "lay_buf l2 = replicate ?N 0" "layout_inv l2"
    using pad_to_block_eq [OF l1(1)] pad_to_block_inv [OF l1(1)] S
    by (simp_all add: l2_def l1(2) padded_slots_def replicate_add)
  have "4096 dvd length (lay_buf l2)" by (simp add: l2(1) padded_slots_def dvd_add_pad)
  from write_dirs_eq [OF l2(2) this, of "dir_info_list is2" is2] obtain l3
    where "write_dirs (dir_info_list is2) is2 l2 = Inr (apply_dirs ?N (dir_info_list is2) is2, l3)"
      and "lay_buf l3 = lay_buf l2 @ concat (map info_image (dir_info_list is2))"
    using f(5) dir_infos_sound [OF f(3)] by (auto simp: l2(1))
  then show thesis using that [OF a] by (simp add: l2_def [symmetric] l2(1))
qed

lemma slots_kept:
  assumes ok: "layout_ok inodes" and sk: "map skel final = map skel (place 0 inodes)"
  shows "\<forall>i \<in> set final. xattrs_small i" and "slots_size final = slots_size inodes"
    and "length (concat (map (slot_image epoch chunkbits) final)) = slots_size inodes"
proof -
  note f = skel_facts [OF sk, unfolded place_keeps]
  show small: "\<forall>i \<in> set final. xattrs_small i"
    using ok ball_map [OF f(3)] by (simp add: layout_ok_def)
  show slots: "slots_size final = slots_size inodes" by (simp only: slots_size_def f(4))
  show "length (concat (map (slot_image epoch chunkbits) final)) = slots_size inodes"
    unfolding slots [symmetric] using small by (induction final) (simp_all add: length_slot_image)
qed

lemma phase_inodes:
  assumes ok: "layout_ok inodes" and sk: "map skel final = map skel (place 0 inodes)"
    and buf: "lay_buf l3 = replicate (padded_slots inodes) 0 @ d"
  shows "write_inodes epoch chunkbits final l3 =
    Inr (l3\<lparr>lay_buf := concat (map (slot_image epoch chunkbits) final) @ replicate (pad_len (slots_size inodes) 4096) 0 @ d\<rparr>)"
proof -
  have "placed (length []) final" using placed_skel [OF sk [symmetric] placed_place] by simp
  from write_inodes_eq [OF slots_kept(1) [OF ok sk] this, of l3 "replicate (pad_len (slots_size inodes) 4096) 0 @ d" epoch chunkbits]
  show ?thesis by (simp add: buf padded_slots_def replicate_add slots_kept(2) [OF ok sk])
qed

lemma final_skel:
  assumes "layout_ok inodes" and "linked_up inodes is2"
    and "final = apply_dirs (padded_slots inodes) (dir_info_list is2) is2"
  shows "map skel final = map skel is2" and "map skel final = map skel (place 0 inodes)"
proof -
  show "map skel final = map skel is2"
    unfolding assms(3) using dir_infos_sound [OF linked_up_facts(3) [OF assms(1,2)]] by (intro map_skel_apply_dirs) simp
  then show "map skel final = map skel (place 0 inodes)" using assms(2) by (simp add: linked_up_def)
qed

lemma final_parent:
  assumes up: "linked_up inodes is2" and sk: "map skel final = map skel (place 0 inodes)" and ne: "inodes \<noteq> []"
    and k: "k < length inodes" "is_directory (final ! k)"
  shows "dir_parent (is2 ! k) = ii_nid (final ! parent_of final k)"
proof -
  let ?is1 = "place 0 inodes"
  have len: "length final = length ?is1" using sk by (metis length_map)
  have "is_directory (?is1 ! k)" using is_directory_skel [OF map_skel_nth [OF sk, of k]] k len by simp
  moreover have "parent_of final k = parent_of ?is1 k" by (rule parent_of_kids [OF skel_facts(8) [OF sk]])
  moreover have "?is1 \<noteq> []" using ne by (metis length_0_conv length_place)
  then have "parent_of ?is1 k < length ?is1" by (rule parent_of_bound)
  ultimately show ?thesis
    using up k(1) skel_eqD(8) [OF map_skel_nth [OF sk, of "parent_of ?is1 k"]] len by (simp add: linked_up_def)
qed

lemma root_image_room:
  assumes names: "\<forall>i \<in> set is2. dir_names_ok i" and root: "0 < length is2" "is_directory (is2 ! 0)"
  shows "64 \<le> length (p @ concat (map info_image (dir_info_list is2)))"
proof -
  obtain ch sb sz q where d0: "ii_data (is2 ! 0) = Directory ch sb sz q"
    using root(2) by (auto simp: is_directory_def split: inode_data.splits)
  let ?i0 = "(0, map (child_of is2) ch, ii_nid (is2 ! 0), q) :: dir_info"
  have mem: "?i0 \<in> set (dir_info_list is2)"
    using d0 root(1) by (auto simp: dir_info_list_mem)
  have e0: "info_entries ?i0 = inode_entries is2 (is2 ! 0)"
    by (simp add: info_entries_def inode_entries_def d0)
  have "names_fit (inode_entries is2 (is2 ! 0))" using dir_infos_sound [OF names mem] by (simp only: e0)
  then have "4096 \<le> length (info_image ?i0)"
    unfolding info_image_def e0 by (rule root_entries [OF root(2)])
  moreover have "length (info_image ?i0) \<le> info_images_size (dir_info_list is2)"
    unfolding info_images_size_def using mem by (intro member_le_sum_list) auto
  ultimately show ?thesis by (simp add: length_info_images)
qed

lemma phases_laid_out:
  assumes ok: "layout_ok inodes" and up: "linked_up inodes is2"
    and final: "final = apply_dirs (padded_slots inodes) (dir_info_list is2) is2"
    and buf: "buf = concat (map (slot_image epoch chunkbits) final) @
      replicate (pad_len (slots_size inodes) 4096) 0 @ concat (map info_image (dir_info_list is2))"
  shows "laid_out inodes final buf epoch chunkbits"
proof -
  let ?p = "concat (map (slot_image epoch chunkbits) final) @ replicate (pad_len (slots_size inodes) 4096) 0"
  note b = layout_bounds [OF ok] and f2 = linked_up_facts [OF ok up]
  note skf = final_skel(1) [OF ok up final] and sk = final_skel(2) [OF ok up final]
  note slots = slots_kept [OF ok sk] and f = skel_facts [OF sk, unfolded place_keeps]
  have len: "length final = length inodes" by (simp add: final f2(2))
  have isd: "is_directory (final ! k) = is_directory (is2 ! k)" if "k < length inodes" for k
    using is_directory_skel [OF map_skel_nth [OF skf, of k]] that len by simp
  have dirs: "dir_at buf final (final ! k) \<and> dir_parent (final ! k) = dir_parent (is2 ! k)"
    if "k < length is2" "is_directory (is2 ! k)" for k
    using apply_dirs_at [OF skf final that _ _ _ f2(1), of ?p] f2(5) slots(3) [of epoch chunkbits]
    by (simp add: buf padded_slots_def dvd_add_pad)
  have par: "dir_parent (is2 ! k) = ii_nid (final ! parent_of final k)"
    if "k < length inodes" "is_directory (final ! k)" for k
    by (rule final_parent [OF up sk b(3) that])
  have root: "0 < length final" "is_directory (final ! 0)"
    using b(3) ok f(5) len unfolding layout_ok_def by (metis length_greater_0_conv, metis length_greater_0_conv nth_map)
  have "64 \<le> length (replicate (pad_len (slots_size inodes) 4096) 0 @ concat (map info_image (dir_info_list is2)))"
    by (rule root_image_room [OF f2(3)]) (use root isd [of 0] len f2(2) in simp_all)
  then have slot_ok: "inode_at buf epoch chunkbits (final ! k)" if "k < length final" for k
    unfolding buf using that b(1) slots(2) by (intro inode_at_slot [OF slots(1) f(6) f(4)]) simp_all
  have "length buf \<le> metadata_bound inodes"
    using slots(3) [of epoch chunkbits] f2(4) b(2) by (simp add: buf padded_slots_def length_info_images)
  moreover have "ii_nid (final ! 0) = 0"
    using skel_eqD(8) [OF map_skel_nth [OF sk root(1)]] place_0_nid [OF b(3)] by simp
  ultimately show ?thesis
    using len sk slot_ok dirs isd par f2(2) by (simp add: laid_out_def)
qed

theorem layout_image_laid_out:
  assumes "layout_ok inodes"
  obtains final l where "layout_image inodes epoch chunkbits = Inr (final, l)"
    and "laid_out inodes final (lay_buf l) epoch chunkbits"
proof -
  obtain is2 where p: "set_parent_nids (place 0 inodes) = Inr is2" and up: "linked_up inodes is2"
    by (rule phase_parents [OF assms])
  define final where "final = apply_dirs (padded_slots inodes) (dir_info_list is2) is2"
  obtain l1 l3 where a: "alloc_inodes layout_new inodes = (place 0 inodes, l1)"
    and w: "write_dirs (dir_info_list is2) is2 (snd (pad_to_block l1)) = Inr (final, l3)"
    and l3: "lay_buf l3 = replicate (padded_slots inodes) 0 @ concat (map info_image (dir_info_list is2))"
    unfolding final_def by (rule phase_dirs [OF assms up])
  note wi = phase_inodes [OF assms final_skel(2) [OF assms up final_def] l3, of epoch chunkbits]
  show thesis
  proof (rule that)
    show "layout_image inodes epoch chunkbits = Inr (final, l3\<lparr>lay_buf := concat (map (slot_image epoch chunkbits) final) @
        replicate (pad_len (slots_size inodes) 4096) 0 @ concat (map info_image (dir_info_list is2))\<rparr>)"
      using p collect_dir_infos_eq [OF linked_up_facts(1) [OF assms up]] w wi by (simp add: layout_image_def a)
  qed (rule phases_laid_out [OF assms up final_def], simp)
qed

subsection \<open>Properties\<close>

text \<open>C17: The layout of the metadata area. For every well-formed inode list that fits the address
  space, the phases of the builder succeed and leave a buffer that holds every inode at the slot of its
  number and every directory with its entries, the numbers of its children and of its parent, at the
  block its inode names.\<close>

theorem layout_holds_everything:
  assumes "layout_ok inodes"
  shows "\<exists>final l. layout_image inodes epoch chunkbits = Inr (final, l) \<and>
    laid_out inodes final (lay_buf l) epoch chunkbits"
  using layout_image_laid_out [OF assms] by metis

end
