(* ===== verification/Reader.thy ===== *)
theory Reader
  imports Image Inode_Format
begin

text \<open>
  \<^verbatim>\<open>src/fs/mod.rs\<close>: opening an image and bounds-checked access to the two memory maps. A mapped
  file is its bytes. Offsets computed from on-disk fields are 64-bit words with wrap-around, as
  in the release build. The interface \<open>byte_source\<close> is what the readers above rely on; the
  image map and the blob map are its interpretations.
\<close>

record erofs_reader =
  rd_mmap :: "u8 list"
  rd_blob_mmap :: "u8 list option"
  rd_sb_offset :: nat

definition superblock_from :: "u8 list \<Rightarrow> nat \<Rightarrow> error + erofs_superblock" where
  "superblock_from mmap sb_offset =
     (let e = sb_offset + EROFS_SB_BASE_SIZE in
      if length mmap < e then Inl UnexpectedEof
      else and_then (slice_range sb_offset (length mmap) mmap)
             (cast_ref EROFS_SB_BASE_SIZE superblock_view))"

definition reader_open :: "u8 list option \<Rightarrow> u8 list option option \<Rightarrow> error + erofs_reader" where
  \<comment> \<open>the contents of the image file and, when a path is given, of the blob file; the inner
    \<^const>\<open>None\<close> is a file that cannot be opened\<close>
  "reader_open image_file blob_path =
     (case image_file of
        None \<Rightarrow> Inl OpenFailed
      | Some mmap \<Rightarrow>
          let sb_offset = EROFS_SUPER_OFFSET in
          and_then (superblock_from mmap sb_offset) (\<lambda>sb.
          if superblock_magic sb \<noteq> EROFS_SUPER_MAGIC_V1 then Inl InvalidData
          else
            and_then (case blob_path of
                        Some None \<Rightarrow> Inl OpenFailed
                      | Some (Some bm) \<Rightarrow> Inr (Some bm)
                      | None \<Rightarrow> Inr None) (\<lambda>blob_mmap.
            Inr \<lparr>rd_mmap = mmap, rd_blob_mmap = blob_mmap, rd_sb_offset = sb_offset\<rparr>)))"

definition reader_sb :: "erofs_reader \<Rightarrow> erofs_superblock" where
  \<comment> \<open>the assertion of \<^verbatim>\<open>cast_ref\<close> holds in an opened reader (\<open>reader_sb_cast\<close>)\<close>
  "reader_sb r = superblock_view (drop (rd_sb_offset r) (rd_mmap r))"

definition checked_slice :: "u8 list \<Rightarrow> u64 \<Rightarrow> u64 \<Rightarrow> error + u8 list" where
  \<comment> \<open>the body shared by the two slice operations\<close>
  "checked_slice mmap offset len =
     (if unat offset + unat len \<ge> 2 ^ 64 then Inl InvalidInput
      else
        let e = offset + len in
        if unat e > length mmap then Inl UnexpectedEof
        else slice_range (unat offset) (unat e) mmap)"

definition mmap_slice :: "erofs_reader \<Rightarrow> u64 \<Rightarrow> u64 \<Rightarrow> error + u8 list" where
  "mmap_slice r offset len = checked_slice (rd_mmap r) offset len"

definition blob_mmap_slice :: "erofs_reader \<Rightarrow> u64 \<Rightarrow> u64 \<Rightarrow> error + u8 list" where
  "blob_mmap_slice r offset len =
     (case rd_blob_mmap r of
        None \<Rightarrow> Inl NotFound
      | Some blob \<Rightarrow> checked_slice blob offset len)"

definition nid_to_offset :: "erofs_reader \<Rightarrow> u64 \<Rightarrow> u64" where
  "nid_to_offset r nid =
     ucast (superblock_meta_blkaddr (reader_sb r)) * word_of_nat EROFS_BLOCK_SIZE
     + nid * word_of_nat EROFS_SLOTSIZE"

subsection \<open>The interface of a mapped file\<close>

locale byte_source =
  fixes slice :: "u64 \<Rightarrow> u64 \<Rightarrow> error + u8 list"
    and data :: "u8 list"
    and available :: bool
  assumes in_range:
    "available \<Longrightarrow> length data < 2 ^ 64 \<Longrightarrow> unat off + unat len \<le> length data \<Longrightarrow>
       slice off len = Inr (bytes_at (unat off) (unat len) data)"
    and out_of_range:
    "\<not> (available \<and> unat off + unat len \<le> length data) \<Longrightarrow>
       \<exists>e. slice off len = Inl e \<and> no_panic (Inl e :: error + u8 list)"
begin

lemma slice_Inr_iff:
  assumes "length data < 2 ^ 64"
  shows "slice off len = Inr bs \<longleftrightarrow>
    available \<and> unat off + unat len \<le> length data \<and> bs = bytes_at (unat off) (unat len) data"
  using in_range [OF _ assms] out_of_range by (metis Inl_Inr_False Inr_inject)

lemma slice_no_panic: "length data < 2 ^ 64 \<Longrightarrow> no_panic (slice off len)"
  using in_range out_of_range by (metis no_panic_Inr)

lemma slice_length: "length data < 2 ^ 64 \<Longrightarrow> slice off len = Inr bs \<Longrightarrow> length bs = unat len"
  by (auto simp: slice_Inr_iff)

text \<open>Two adjacent reads are one read.\<close>

lemma slice_adjacent:
  assumes "length data < 2 ^ 64" and "slice off m = Inr as" and "slice (off + m) n = Inr bs"
  shows "slice off (m + n) = Inr (as @ bs)"
proof -
  have a: "available" "unat off + unat m \<le> length data" "as = bytes_at (unat off) (unat m) data"
    and b: "unat (off + m) + unat n \<le> length data" "bs = bytes_at (unat (off + m)) (unat n) data"
    using assms by (simp_all add: slice_Inr_iff)
  have om: "unat (off + m) = unat off + unat m"
    using a(2) assms(1) by (simp add: unat_word_ariths)
  have mn: "unat (m + n) = unat m + unat n"
    using b(1) [unfolded om] assms(1) by (simp add: unat_word_ariths)
  show ?thesis
    using a b assms(1) by (simp add: slice_Inr_iff om mn bytes_at_split)
qed

end

lemma checked_slice_in_range:
  assumes "length mm < 2 ^ 64" and "unat off + unat len \<le> length mm"
  shows "checked_slice mm off len = Inr (bytes_at (unat off) (unat len) mm)"
proof -
  have "unat (off + len) = unat off + unat len"
    using assms by (simp add: unat_word_ariths)
  then show ?thesis
    using assms by (simp add: checked_slice_def slice_range_def)
qed

lemma checked_slice_out_of_range:
  assumes "length mm < unat off + unat len"
  shows "\<exists>e. checked_slice mm off len = Inl e \<and> no_panic (Inl e :: error + u8 list)"
proof (cases "unat off + unat len < 2 ^ 64")
  case True
  then have "unat (off + len) = unat off + unat len" by (simp add: unat_word_ariths)
  then show ?thesis using True assms by (simp add: checked_slice_def no_panic_def)
next
  case False
  then show ?thesis by (simp add: checked_slice_def no_panic_def)
qed

interpretation image_map: byte_source "mmap_slice r" "rd_mmap r" True for r
  by unfold_locales
    (auto simp: mmap_slice_def checked_slice_in_range not_le intro!: checked_slice_out_of_range)

definition blob_data :: "erofs_reader \<Rightarrow> u8 list" where
  "blob_data r = (case rd_blob_mmap r of None \<Rightarrow> [] | Some b \<Rightarrow> b)"

interpretation blob_map: byte_source "blob_mmap_slice r" "blob_data r" "rd_blob_mmap r \<noteq> None" for r
  by unfold_locales
    (auto simp: blob_mmap_slice_def blob_data_def checked_slice_in_range not_le no_panic_def
      split: option.splits dest!: checked_slice_out_of_range)

subsection \<open>Opening an image that was written\<close>

lemma reader_open_Inr:
  assumes "reader_open (Some mm) b = Inr r"
  shows "rd_mmap r = mm" and "rd_sb_offset r = 1024" and "1152 \<le> length mm"
    and "superblock_magic (reader_sb r) = EROFS_SUPER_MAGIC_V1"
    and "b = None \<longleftrightarrow> rd_blob_mmap r = None" and "b = Some (Some bm) \<Longrightarrow> rd_blob_mmap r = Some bm"
  using assms
  by (auto simp: reader_open_def superblock_from_def reader_sb_def slice_range_def cast_ref_def bytes_at_def
      split: if_splits option.splits)

lemma reader_sb_cast:
  assumes "reader_open (Some mm) b = Inr r"
  shows "cast_ref EROFS_SB_BASE_SIZE superblock_view (drop (rd_sb_offset r) (rd_mmap r)) = Inr (reader_sb r)"
  using reader_open_Inr [OF assms] by (simp add: cast_ref_def reader_sb_def)

definition image_reader :: "u8 list \<Rightarrow> u8 list option \<Rightarrow> erofs_reader" where
  "image_reader mm b = \<lparr>rd_mmap = mm, rd_blob_mmap = b, rd_sb_offset = 1024\<rparr>"

lemma image_reader_sb:
  assumes "length uuid = 16"
  shows "reader_sb (image_reader (image_bytes buf root_nid inos epoch blob_blocks uuid) b) =
    image_superblock (length buf) root_nid inos epoch uuid"
  using superblock_codec.view_enc [OF image_superblock_ok [OF assms]]
  by (simp add: reader_sb_def image_reader_def image_bytes_def block0_image_def)

lemma reader_open_image:
  assumes "length uuid = 16"
  shows "reader_open (Some (image_bytes buf root_nid inos epoch blob_blocks uuid)) (map_option Some b) =
    Inr (image_reader (image_bytes buf root_nid inos epoch blob_blocks uuid) b)"
proof -
  let ?im = "image_bytes buf root_nid inos epoch blob_blocks uuid"
  have len: "1152 \<le> length ?im" by (simp add: length_image_bytes [OF assms])
  have "superblock_view (drop 1024 ?im) = image_superblock (length buf) root_nid inos epoch uuid"
    using image_reader_sb [OF assms] by (simp add: reader_sb_def image_reader_def)
  then have "superblock_from ?im EROFS_SUPER_OFFSET = Inr (image_superblock (length buf) root_nid inos epoch uuid)"
    using len by (simp add: superblock_from_def slice_range_def cast_ref_def bytes_at_def)
  then show ?thesis
    by (cases b) (simp_all add: reader_open_def image_reader_def image_superblock_def)
qed

text \<open>Reading the metadata area of an image reads the metadata buffer.\<close>

definition small_image :: "u8 list \<Rightarrow> bool" where
  \<comment> \<open>a buffer held in memory, with room for block 0 and padding in the address space\<close>
  "small_image buf \<longleftrightarrow> length buf + 8192 \<le> 2 ^ 63"

lemma image_meta_slice:
  assumes "length uuid = 16" and "small_image buf" and "off + n \<le> length buf"
    and "unat o64 = 4096 + off" and "unat n64 = n"
  shows "mmap_slice (image_reader (image_bytes buf root_nid inos epoch blob_blocks uuid) b) o64 n64 =
    Inr (bytes_at off n buf)"
proof -
  let ?im = "image_bytes buf root_nid inos epoch blob_blocks uuid"
  have "pad_len (length buf) 4096 < 4096" by (rule pad_len_less) simp
  then have len: "length ?im < 2 ^ 64"
    using assms(2) by (simp add: image_bytes_def length_block0 [OF assms(1)] small_image_def)
  have le: "unat o64 + unat n64 \<le> length ?im"
    using assms by (simp add: image_bytes_def length_block0)
  have "bytes_at (4096 + off) n ?im = bytes_at off n buf"
    using assms by (simp add: image_bytes_def bytes_at_append_right length_block0 bytes_at_append_left)
  then show ?thesis
    using checked_slice_in_range [OF len le] assms(4,5) by (simp add: mmap_slice_def image_reader_def)
qed

lemma nid_to_offset_image:
  assumes "length uuid = 16" and "unat nid * 32 + 4096 < 2 ^ 64"
  shows "unat (nid_to_offset (image_reader (image_bytes buf root_nid inos epoch blob_blocks uuid) b) nid) =
    4096 + 32 * unat nid"
proof -
  have "unat (nid * 32 :: u64) = unat nid * 32"
    using assms(2) by (simp add: unat_word_ariths)
  then have "unat (4096 + nid * 32 :: u64) = 4096 + unat nid * 32"
    using assms(2) by (simp add: unat_word_ariths)
  then show ?thesis
    by (simp add: nid_to_offset_def image_reader_sb [OF assms(1)] image_superblock_def)
qed

subsection \<open>Properties\<close>

text \<open>A written image opens. The reader accepts every image the builder writes, finds in its
  superblock the root, the inode count and the time that were written and a block count that is the
  size of the image, and reads any part of the metadata buffer back from block 1 on.\<close>

lemma written_image_opens:
  assumes "length uuid = 16" and "small_image buf" and "Suc (div_ceil (length buf) 4096) < 2 ^ 32"
    and "write_image \<lparr>sink_data = [], sink_room = room\<rparr> buf root_nid inos epoch blob_blocks uuid = Inr img"
  shows "\<exists>r. reader_open (Some (sink_data img)) None = Inr r \<and>
    superblock_root_nid (reader_sb r) = ucast root_nid \<and> superblock_inos (reader_sb r) = inos \<and>
    superblock_epoch (reader_sb r) = epoch \<and>
    length (sink_data img) = 4096 * unat (superblock_blocks (reader_sb r)) \<and>
    (\<forall>off n o64 n64. off + n \<le> length buf \<longrightarrow> unat o64 = 4096 + off \<longrightarrow> unat n64 = n \<longrightarrow>
       mmap_slice r o64 n64 = Inr (bytes_at off n buf))"
proof -
  let ?im = "image_bytes buf root_nid inos epoch blob_blocks uuid"
  have img: "sink_data img = ?im" using write_image_Inr [OF assms(1,4)] by simp
  have "unat (ucast (ucast (1 + word_of_nat (div_ceil (length buf) 4096) :: u64) :: u32) :: u64) =
      Suc (div_ceil (length buf) 4096)"
  proof -
    let ?w = "1 + word_of_nat (div_ceil (length buf) 4096) :: u64"
    have "?w = word_of_nat (Suc (div_ceil (length buf) 4096))" by simp
    then have w: "unat ?w = Suc (div_ceil (length buf) 4096)"
      using assms(3) by (simp only: unsigned_of_nat) (simp add: take_bit_nat_eq_self)
    have "unat (ucast (ucast ?w :: u32) :: u64) = take_bit 32 (unat ?w)"
      by (simp only: unat_widen) (simp add: unsigned_ucast_eq unsigned_take_bit_eq)
    then show ?thesis unfolding w using assms(3) by (simp only: take_bit_nat_eq_self)
  qed
  then have "length ?im = 4096 * unat (superblock_blocks (image_superblock (length buf) root_nid inos epoch uuid))"
    by (simp only: length_image_bytes [OF assms(1)]) (simp add: image_superblock_def)
  then show ?thesis
    using reader_open_image [OF assms(1), of buf root_nid inos epoch blob_blocks None] image_meta_slice [OF assms(1,2)]
    by (intro exI [of _ "image_reader ?im None"])
      (simp add: img image_reader_sb [OF assms(1)], simp add: image_superblock_def)
qed

lemma written_image_opens_witness:
  "\<exists>img r. write_image \<lparr>sink_data = [], sink_room = 10000\<rparr> [1, 2, 3] 0 1 1700000000 0 (replicate 16 9) = Inr img \<and>
     reader_open (Some (sink_data img)) None = Inr r \<and> superblock_epoch (reader_sb r) = 1700000000 \<and>
     length (sink_data img) = 4096 * unat (superblock_blocks (reader_sb r)) \<and> mmap_slice r 4097 2 = Inr [2, 3]"
proof -
  have u: "length (replicate 16 (9 :: u8)) = 16" by simp
  have "length (image_bytes [1, 2, 3] 0 1 1700000000 0 (replicate 16 9)) \<le> 10000"
    by (simp add: length_image_bytes [OF u] div_ceil_def)
  then obtain img where w: "write_image \<lparr>sink_data = [], sink_room = 10000\<rparr> [1, 2, 3] 0 1 1700000000 0 (replicate 16 9) = Inr img"
    using write_image_ok [OF u, of "[1, 2, 3]" 0 1 1700000000 0 "\<lparr>sink_data = [], sink_room = 10000\<rparr>"]
    by (auto simp: is_ok_def split: sum.splits)
  have "small_image [1, 2, 3]" "Suc (div_ceil (length [1, 2, 3 :: u8]) 4096) < 2 ^ 32"
    by (simp_all add: small_image_def div_ceil_def)
  from written_image_opens [OF u this w] obtain r where r: "reader_open (Some (sink_data img)) None = Inr r"
    "superblock_epoch (reader_sb r) = 1700000000" "length (sink_data img) = 4096 * unat (superblock_blocks (reader_sb r))"
    and sl: "\<And>off n o64 n64. off + n \<le> 3 \<Longrightarrow> unat o64 = 4096 + off \<Longrightarrow> unat n64 = n \<Longrightarrow>
       mmap_slice r o64 n64 = Inr (bytes_at off n [1, 2, 3])"
    by auto
  have "mmap_slice r 4097 2 = Inr [2, 3]" using sl [of 1 2 4097 2] by (simp add: bytes_at_def)
  then show ?thesis using w r by blast
qed

end
