(* ===== verification/Reader_Meta.thy ===== *)
theory Reader_Meta
  imports Reader Dir_Parse Build_Inode Utf8
begin

text \<open>
  \<^verbatim>\<open>src/fs/meta.rs\<close>: inodes, flat data, directories, symbolic links and attributes of a mapped
  image. Offsets are 64-bit words with wrap-around, lengths of slices already taken are \<^typ>\<open>nat\<close>.
  The lemmas say which bytes of the map a read returns, and that what \<open>serialize_inode\<close> stored is
  what the readers give back.
\<close>

unbundle bit_operations_syntax

definition reader_inode :: "erofs_reader \<Rightarrow> u64 \<Rightarrow> error + erofs_inode" where
  "reader_inode r nid =
     (let offset = nid_to_offset r nid in
      and_then (mmap_slice r offset (word_of_nat EROFS_INODE_EXTENDED_SIZE)) (\<lambda>data.
      inode_cast data))"

subsection \<open>Flat data\<close>

definition inline_blocks_size :: "erofs_inode \<Rightarrow> u64" where
  \<comment> \<open>\<^verbatim>\<open>blocks_size\<close>, computed in the same way by both readers of flat data\<close>
  "inline_blocks_size i =
     (let file_size = inode_size i;
          blk_sz = word_of_nat EROFS_BLOCK_SIZE;
          tail_size = (if file_size mod blk_sz = 0 \<and> file_size > 0 then 0 else file_size mod blk_sz)
      in file_size - tail_size)"

definition inline_header_size :: "erofs_inode \<Rightarrow> u64" where
  "inline_header_size i = word_of_nat (inode_header_size i + inode_xattr_size i)"

definition read_flat_data ::
  "erofs_reader \<Rightarrow> u64 \<Rightarrow> erofs_inode \<Rightarrow> u64 \<Rightarrow> u64 \<Rightarrow> error + u8 list" where
  "read_flat_data r nid i offset len =
     (let layout = inode_data_layout i in
      if layout = EROFS_INODE_FLAT_PLAIN then
        let startblk = inode_startblk i;
            data_offset = startblk * word_of_nat EROFS_BLOCK_SIZE + offset
        in mmap_slice r data_offset len
      else if layout = EROFS_INODE_FLAT_INLINE then
        let blocks_size = inline_blocks_size i in
        if blocks_size = 0 then
          let inode_offset = nid_to_offset r nid;
              header_size = inline_header_size i;
              data_offset = inode_offset + header_size + offset
          in mmap_slice r data_offset len
        else if offset < blocks_size \<and> offset + len \<le> blocks_size then
          let startblk = inode_startblk i;
              data_offset = startblk * word_of_nat EROFS_BLOCK_SIZE + offset
          in mmap_slice r data_offset len
        else if offset \<ge> blocks_size then
          let inode_offset = nid_to_offset r nid;
              header_size = inline_header_size i;
              inline_offset = offset - blocks_size;
              data_offset = inode_offset + header_size + inline_offset
          in mmap_slice r data_offset len
        else Inl InvalidData
      else Inl InvalidData)"

definition vec_with_capacity :: "u64 \<Rightarrow> error + u8 list" where
  \<comment> \<open>\<^verbatim>\<open>Vec::with_capacity\<close> of the standard library, for bytes: it panics with "capacity overflow" when
    the capacity is greater than \<^verbatim>\<open>isize::MAX\<close>\<close>
  "vec_with_capacity cap = (if unat cap \<ge> 2 ^ 63 then Inl (Panic CapacityOverflow) else Inr [])"

definition read_flat_data_vec ::
  "erofs_reader \<Rightarrow> u64 \<Rightarrow> erofs_inode \<Rightarrow> u64 \<Rightarrow> u64 \<Rightarrow> error + u8 list" where
  \<comment> \<open>the vector is allocated before any of the ranges is checked\<close>
  "read_flat_data_vec r nid i offset len =
     (let layout = inode_data_layout i;
          blocks_size = inline_blocks_size i
      in if layout = EROFS_INODE_FLAT_INLINE \<and>
            blocks_size > 0 \<and> offset < blocks_size \<and> offset + len > blocks_size then
           and_then (vec_with_capacity len) (\<lambda>result.
           let block_read_size = blocks_size - offset;
               startblk = inode_startblk i;
               block_offset = startblk * word_of_nat EROFS_BLOCK_SIZE + offset
           in and_then (mmap_slice r block_offset block_read_size) (\<lambda>block_data.
              let result = result @ block_data;
                  inline_read_size = len - block_read_size;
                  inode_offset = nid_to_offset r nid;
                  header_size = inline_header_size i
              in and_then (mmap_slice r (inode_offset + header_size) inline_read_size) (\<lambda>inline_data.
                 Inr (result @ inline_data))))
         else read_flat_data r nid i offset len)"

definition read_symlink :: "erofs_reader \<Rightarrow> u64 \<Rightarrow> erofs_inode \<Rightarrow> error + u8 list" where
  "read_symlink r nid i =
     (let len = inode_size i in read_flat_data_vec r nid i 0 len)"

subsection \<open>Directories\<close>

definition for_each_dir_entry ::
  "erofs_reader \<Rightarrow> u64 \<Rightarrow> erofs_inode \<Rightarrow> 's dir_cb \<Rightarrow> 's \<Rightarrow> error + 's" where
  "for_each_dir_entry r nid i cb s =
     (let dir_size = inode_size i in
      if dir_size = 0 then Inr s
      else
        case read_flat_data r nid i 0 dir_size of
          Inr data \<Rightarrow> parse_dir_entries data (unat dir_size) 0 cb s
        | Inl (Panic p) \<Rightarrow> Inl (Panic p)
        | Inl _ \<Rightarrow>
            and_then (read_flat_data_vec r nid i 0 dir_size) (\<lambda>data.
            parse_dir_entries data (unat dir_size) 0 cb s))"

definition read_dir :: "erofs_reader \<Rightarrow> u64 \<Rightarrow> erofs_inode \<Rightarrow> error + dir_ent list" where
  "read_dir r nid i =
     for_each_dir_entry r nid i
       (\<lambda>entry_nid file_type name entries.
          Inr (True, entries @ [(from_utf8_lossy name, entry_nid, file_type)])) []"

definition read_dir_cached :: "erofs_reader \<Rightarrow> u64 \<Rightarrow> erofs_inode \<Rightarrow> error + dir_ent list" where
  "read_dir_cached r nid i =
     for_each_dir_entry r nid i
       (\<lambda>entry_nid file_type name entries. Inr (True, entries @ [(name, entry_nid, file_type)])) []"

subsection \<open>Extended attributes\<close>

fun xattr_entries ::
  "nat \<Rightarrow> u8 list \<Rightarrow> nat \<Rightarrow> (u8 list \<times> u8 list) list \<Rightarrow> error + (u8 list \<times> u8 list) list" where
  \<comment> \<open>the loop over the entries, from position \<open>pos\<close>; the first argument is fuel\<close>
  "xattr_entries 0 data pos res = Inl Diverged"
| "xattr_entries (Suc fuel) data pos res =
     (if pos + EROFS_XATTR_ENTRY_HEADER_SIZE \<le> length data then
        and_then (index_at data pos) (\<lambda>len_byte.
        and_then (index_at data (pos + 1)) (\<lambda>e_name_index.
        and_then (index_at data (pos + 2)) (\<lambda>v0.
        and_then (index_at data (pos + 3)) (\<lambda>v1.
        let e_name_len = unat len_byte;
            e_value_size = unat (get_u16 [v0, v1]);
            name_start = pos + EROFS_XATTR_ENTRY_HEADER_SIZE;
            name_end = name_start + e_name_len;
            value_start = name_end;
            value_end = value_start + e_value_size
        in if value_end > length data then Inr res
           else
             and_then (slice_range name_start name_end data) (\<lambda>suffix.
             let full_name = (case erofs_xattr_prefix e_name_index of
                                Some prefix \<Rightarrow> prefix @ suffix
                              | None \<Rightarrow> suffix)
             in and_then (slice_range value_start value_end data) (\<lambda>val.
                xattr_entries fuel data (round_up value_end EROFS_XATTR_ENTRY_HEADER_SIZE)
                  (res @ [(full_name, val)])))))))
      else Inr res)"

definition read_xattrs ::
  "erofs_reader \<Rightarrow> u64 \<Rightarrow> erofs_inode \<Rightarrow> error + (u8 list \<times> u8 list) list" where
  "read_xattrs r nid i =
     (let xattr_size = inode_xattr_size i in
      if xattr_size = 0 then Inr []
      else
        let inode_offset = nid_to_offset r nid;
            xattr_offset = inode_offset + word_of_nat (inode_header_size i)
        in and_then (mmap_slice r xattr_offset (word_of_nat xattr_size)) (\<lambda>xattr_data.
           if length xattr_data < EROFS_XATTR_IBODY_HEADER_SIZE then Inr []
           else
             and_then (index_at xattr_data 4) (\<lambda>h_shared_count.
             let entries_start = EROFS_XATTR_IBODY_HEADER_SIZE + unat h_shared_count * 4
             in if entries_start \<ge> length xattr_data then Inr []
                else xattr_entries (Suc (length xattr_data)) xattr_data entries_start [])))"

subsection \<open>Where the bytes of a file are\<close>

text \<open>
  The address of byte \<open>k\<close> of a file with flat data: in the blocks from \<^verbatim>\<open>startblk\<close> on, except that
  what an inline file has beyond its last full block follows the inode and its attributes.
\<close>

definition full_blocks :: "erofs_inode \<Rightarrow> u64" where
  "full_blocks i = inode_size i - inode_size i mod 4096"

definition flat_pos :: "erofs_reader \<Rightarrow> u64 \<Rightarrow> erofs_inode \<Rightarrow> u64 \<Rightarrow> u64" where
  "flat_pos r nid i k =
     (if inode_data_layout i = EROFS_INODE_FLAT_INLINE \<and> full_blocks i \<le> k
      then nid_to_offset r nid + inline_header_size i + (k - full_blocks i)
      else inode_startblk i * 4096 + k)"

lemma inline_blocks_size_eq: "inline_blocks_size i = full_blocks i"
  by (simp add: inline_blocks_size_def full_blocks_def Let_def)

lemma flat_pos_eq:
  "flat_pos r nid i k =
     (if inode_data_layout i = EROFS_INODE_FLAT_INLINE \<and> inline_blocks_size i \<le> k
      then nid_to_offset r nid + inline_header_size i + (k - inline_blocks_size i)
      else inode_startblk i * 4096 + k)"
  by (simp add: flat_pos_def inline_blocks_size_eq)

lemma slice_nth:
  assumes "length (rd_mmap r) < 2 ^ 64" and "mmap_slice r off n = Inr bs" and "k < unat n"
  shows "length bs = unat n \<and> bs ! k = rd_mmap r ! unat (off + word_of_nat k)"
proof -
  have *: "unat off + unat n \<le> length (rd_mmap r)" "bs = bytes_at (unat off) (unat n) (rd_mmap r)"
    using assms by (simp_all add: image_map.slice_Inr_iff)
  have k: "unat (word_of_nat k :: u64) = k"
    using assms(3) unat_lt [of n] by (simp add: unat_of_nat)
  have "unat (off + word_of_nat k) = unat off + k"
    using * assms k by (simp add: unat_word_ariths)
  then show ?thesis
    using * assms by (simp add: nth_bytes_at)
qed

lemma slice_at:
  assumes "length (rd_mmap r) < 2 ^ 64" and "mmap_slice r off n = Inr bs"
    and "\<And>k. k < unat n \<Longrightarrow> pos k = off + word_of_nat k"
  shows "length bs = unat n \<and> (\<forall>k < unat n. bs ! k = rd_mmap r ! unat (pos k))"
  using assms slice_nth [OF assms(1,2)] image_map.slice_length [OF assms(1,2)] by simp

lemma unat_offset:
  assumes "unat (off :: u64) + unat len < 2 ^ 64" and "k < unat (len :: u64)"
  shows "unat (off + word_of_nat k) = unat off + k"
proof -
  have k: "unat (word_of_nat k :: u64) = k"
    using assms(2) unat_lt [of len] by (simp add: unat_of_nat)
  then show ?thesis using assms by (simp add: unat_word_ariths)
qed

abbreviation flat_range :: "erofs_reader \<Rightarrow> u64 \<Rightarrow> erofs_inode \<Rightarrow> u64 \<Rightarrow> u64 \<Rightarrow> u8 list \<Rightarrow> bool" where
  \<comment> \<open>\<open>bs\<close> are the bytes at the addresses of a range of the data\<close>
  "flat_range r nid i off len bs \<equiv>
     length bs = unat len \<and>
     (\<forall>k < unat len. bs ! k = rd_mmap r ! unat (flat_pos r nid i (off + word_of_nat k)))"

lemma flat_range_blocks:
  assumes "length (rd_mmap r) < 2 ^ 64" and "unat off + unat len \<le> unat (inline_blocks_size i)" and "inode_data_layout i = 2"
    and "mmap_slice r (inode_startblk i * 4096 + off) len = Inr bs"
  shows "flat_range r nid i off len bs"
proof (rule slice_at [OF assms(1,4)])
  fix k assume k: "k < unat len"
  have "unat off + unat len < 2 ^ 64" using assms(2) unat_lt [of "inline_blocks_size i"] by (simp add: order_le_less_trans)
  then have "unat (off + word_of_nat k) < unat (inline_blocks_size i)" using unat_offset k assms(2) by simp
  then show "flat_pos r nid i (off + word_of_nat k) = inode_startblk i * 4096 + off + word_of_nat k"
    by (simp add: flat_pos_eq word_le_nat_alt add.assoc)
qed

lemma flat_range_tail:
  assumes "length (rd_mmap r) < 2 ^ 64" and "unat off + unat len < 2 ^ 64" and "inode_data_layout i = 2"
    and "inline_blocks_size i \<le> off"
    and "mmap_slice r (nid_to_offset r nid + inline_header_size i + (off - inline_blocks_size i)) len = Inr bs"
  shows "flat_range r nid i off len bs"
  using unat_offset [OF assms(2)] assms(3,4)
  by (intro slice_at [OF assms(1,5)]) (auto simp: flat_pos_eq word_le_nat_alt algebra_simps)

lemma flat_range_append:
  assumes a: "flat_range r nid i off n as" and c: "flat_range r nid i (off + n) (len - n) cs" and le: "n \<le> len"
  shows "flat_range r nid i off len (as @ cs)"
proof -
  have ln: "unat (len - n) = unat len - unat n" "unat n \<le> unat len"
    using le by (simp_all add: unat_sub word_le_nat_alt)
  have "(as @ cs) ! k = rd_mmap r ! unat (flat_pos r nid i (off + word_of_nat k))" if k: "k < unat len" for k
  proof (cases "k < unat n")
    case True
    then show ?thesis using a by (simp add: nth_append)
  next
    case False
    then have e: "k = unat n + (k - unat n)" by simp
    have "off + word_of_nat k = off + n + word_of_nat (k - unat n)" by (subst e) simp
    then show ?thesis using a c False k ln by (simp add: nth_append)
  qed
  then show ?thesis using a c ln by simp
qed

lemma read_flat_data_bytes:
  assumes "length (rd_mmap r) < 2 ^ 64" and "unat off + unat len < 2 ^ 64"
    and "read_flat_data r nid i off len = Inr bs"
  shows "flat_range r nid i off len bs"
proof -
  let ?B = "inline_blocks_size i"
  have sum: "unat (off + len) = unat off + unat len"
    using assms(2) by (simp add: unat_word_ariths)
  consider (plain) "inode_data_layout i = 0" "mmap_slice r (inode_startblk i * 4096 + off) len = Inr bs"
    | (blocks) "inode_data_layout i = 2" "off + len \<le> ?B" "mmap_slice r (inode_startblk i * 4096 + off) len = Inr bs"
    | (tail) "inode_data_layout i = 2" "?B \<le> off"
        "mmap_slice r (nid_to_offset r nid + inline_header_size i + (off - ?B)) len = Inr bs"
    using assms(3) by (auto simp: read_flat_data_def Let_def not_le split: if_splits)
  then show ?thesis
  proof cases
    case plain
    then show ?thesis
      by (intro slice_at [OF assms(1) plain(2)]) (simp add: flat_pos_eq add.assoc)
  next
    case blocks
    then show ?thesis using sum by (intro flat_range_blocks [OF assms(1) _ blocks(1,3)]) (simp add: word_le_nat_alt)
  next
    case tail
    then show ?thesis by (rule flat_range_tail [OF assms(1,2)])
  qed
qed

lemma read_flat_data_vec_bytes:
  assumes "length (rd_mmap r) < 2 ^ 64" and "unat off + unat len < 2 ^ 64"
    and "read_flat_data_vec r nid i off len = Inr bs"
  shows "flat_range r nid i off len bs"
proof (cases "inode_data_layout i = 2 \<and> 0 < inline_blocks_size i \<and> off < inline_blocks_size i \<and> off + len > inline_blocks_size i")
  case False
  then show ?thesis
    using assms read_flat_data_bytes [OF assms(1,2)]
    by (auto simp: read_flat_data_vec_def Let_def)
next
  case True
  let ?B = "inline_blocks_size i"
  let ?n = "?B - off"
  obtain as cs where a: "mmap_slice r (inode_startblk i * 4096 + off) ?n = Inr as"
    and c: "mmap_slice r (nid_to_offset r nid + inline_header_size i) (len - ?n) = Inr cs"
    and bs: "bs = as @ cs"
    using assms(3) True by (auto simp: read_flat_data_vec_def vec_with_capacity_def Let_def split: if_splits)
  have sum: "unat (off + len) = unat off + unat len"
    using assms(2) by (simp add: unat_word_ariths)
  have n: "unat ?n = unat ?B - unat off"
    using True by (simp add: unat_sub word_less_nat_alt word_le_nat_alt)
  have le: "?n \<le> len"
    using True sum n by (auto simp: word_less_nat_alt word_le_nat_alt)
  have "unat (len - ?n) = unat len - unat ?n" using le by (simp add: unat_sub word_le_nat_alt)
  then have "unat ?B + unat (len - ?n) < 2 ^ 64"
    using assms(2) n le by (simp add: word_le_nat_alt)
  then have "flat_range r nid i (off + ?n) (len - ?n) cs"
    using flat_range_tail [OF assms(1), of ?B "len - ?n" i nid cs] True c by simp
  moreover have "flat_range r nid i off ?n as"
    using True n by (intro flat_range_blocks [OF assms(1) _ _ a]) (auto simp: word_less_nat_alt)
  ultimately show ?thesis unfolding bs using flat_range_append le by blast
qed

lemma read_flat_data_vec_extends:
  "read_flat_data r nid i off len = Inr bs \<Longrightarrow> length (rd_mmap r) < 2 ^ 64 \<Longrightarrow>
     unat off + unat len < 2 ^ 64 \<Longrightarrow> read_flat_data_vec r nid i off len = Inr bs"
  by (auto simp: read_flat_data_vec_def read_flat_data_def Let_def not_le split: if_splits)

lemma read_flat_no_panic:
  assumes "length (rd_mmap r) < 2 ^ 64"
  shows "no_panic (read_flat_data r nid i off len)"
proof -
  have "no_panic (Inl InvalidData :: error + u8 list)" by (simp add: no_panic_def)
  then show ?thesis
    using image_map.slice_no_panic [OF assms] by (simp add: read_flat_data_def Let_def)
qed

text \<open>The only panic of a copying read is the allocation of the vector for a range that has both
  blocks and a tail.\<close>

definition spans_tail :: "erofs_inode \<Rightarrow> u64 \<Rightarrow> u64 \<Rightarrow> bool" where
  "spans_tail i off len \<longleftrightarrow>
     inode_data_layout i = EROFS_INODE_FLAT_INLINE \<and> off < inline_blocks_size i \<and> inline_blocks_size i < off + len"

lemma read_flat_vec_overflow:
  "spans_tail i off len \<Longrightarrow> 2 ^ 63 \<le> unat len \<Longrightarrow> read_flat_data_vec r nid i off len = Inl (Panic CapacityOverflow)"
  by (auto simp: read_flat_data_vec_def vec_with_capacity_def spans_tail_def Let_def word_gt_0)

lemma read_flat_vec_no_panic:
  assumes "length (rd_mmap r) < 2 ^ 64" and "\<not> (spans_tail i off len \<and> 2 ^ 63 \<le> unat len)"
  shows "no_panic (read_flat_data_vec r nid i off len)"
  using assms(2) read_flat_no_panic [OF assms(1)] image_map.slice_no_panic [OF assms(1)]
  by (auto simp: read_flat_data_vec_def vec_with_capacity_def spans_tail_def Let_def intro!: no_panic_and_then)

text \<open>The fallback of \<open>for_each_dir_entry\<close> makes it a walk over the copied data.\<close>

lemma for_each_dir_entry_vec:
  assumes "length (rd_mmap r) < 2 ^ 64" and "inode_size i \<noteq> 0"
  shows "for_each_dir_entry r nid i cb s =
    and_then (read_flat_data_vec r nid i 0 (inode_size i)) (\<lambda>data.
      parse_dir_entries data (unat (inode_size i)) 0 cb s)"
proof (cases "read_flat_data r nid i 0 (inode_size i)")
  case (Inr data)
  then have "read_flat_data_vec r nid i 0 (inode_size i) = Inr data"
    using assms(1) unat_lt [of "inode_size i"] by (intro read_flat_data_vec_extends) simp_all
  then show ?thesis
    using Inr assms(2) by (simp add: for_each_dir_entry_def)
next
  case (Inl e)
  then have "no_panic (Inl e :: error + u8 list)"
    using read_flat_no_panic [OF assms(1)] by metis
  then show ?thesis
    using Inl assms(2) by (cases e) (simp_all add: for_each_dir_entry_def no_panic_def Let_def)
qed

subsection \<open>Attributes read back\<close>

definition xattr_pairs :: "xattr list \<Rightarrow> (u8 list \<times> u8 list) list" where
  "xattr_pairs xs = map (\<lambda>(i, suffix, val). (xattr_full_name i suffix, val)) xs"

lemma xattr_entries_step:
  assumes "xattr_fits (i, suffix, val)" and "4 dvd length p"
    and "length p + 4 + length suffix + length val \<le> 2 ^ 63"
  shows "xattr_entries (Suc fuel) (p @ xattr_entry_bytes (i, suffix, val) @ q) (length p) res =
    xattr_entries fuel (p @ xattr_entry_bytes (i, suffix, val) @ q)
      (length p + entry_span (i, suffix, val)) (res @ [(xattr_full_name i suffix, val)])"
proof -
  let ?nl = "word_of_nat (length suffix) :: u8" and ?vl = "set_u16 (word_of_nat (length val))"
  let ?pad = "replicate (pad_len (xattr_entry_size (i, suffix, val)) 4) (0 :: u8)"
  define d where "d = p @ xattr_entry_bytes (i, suffix, val) @ q"
  obtain v0 v1 where v: "?vl = [v0, v1]"
    by (auto simp: set_u16_def numeral_2_eq_2)
  have d: "d = p @ ?nl # i # v0 # v1 # suffix @ val @ ?pad @ q"
    by (simp add: d_def xattr_entry_bytes_def v)
  have nl: "unat ?nl = length suffix" and vl: "unat (get_u16 [v0, v1]) = length val"
    using assms(1) unfolding v [symmetric] by (simp_all add: unat_of_nat xattr_fits_def)
  have idx: "index_at d (length p) = Inr ?nl" "index_at d (length p + 1) = Inr i"
    "index_at d (length p + 2) = Inr v0" "index_at d (length p + 3) = Inr v1"
    by (simp_all add: index_at_def d nth_append numeral_eq_Suc)
  have len: "length d = length p + 4 + length suffix + length val + length ?pad + length q"
    by (simp add: d)
  have s1: "slice_range (length p + 4) (length p + 4 + length suffix) d = Inr suffix"
    using bytes_at_append_exact [of "p @ [?nl, i, v0, v1]" "length p + 4" suffix "length suffix" "val @ ?pad @ q"]
    by (simp add: slice_range_def len) (simp add: d)
  have s2: "slice_range (length p + 4 + length suffix) (length p + 4 + length suffix + length val) d = Inr val"
    using bytes_at_append_exact [of "p @ [?nl, i, v0, v1] @ suffix" "length p + 4 + length suffix" val "length val" "?pad @ q"]
    by (simp add: slice_range_def len) (simp add: d)
  have "pad_len (length p + (4 + length suffix + length val)) 4 = pad_len (4 + length suffix + length val) 4"
    using assms(2) by (auto simp: pad_len_def elim!: dvdE)
  then have up: "round_up (length p + 4 + length suffix + length val) 4 =
      length p + entry_span (i, suffix, val)"
    using assms(3) by (simp add: round_up_4 entry_span_def xattr_entry_size_def add.assoc)
  show ?thesis
    unfolding d_def [symmetric] using idx s1 s2 nl vl up len
    by (simp add: Let_def xattr_full_name_def)
qed

lemma xattr_entries_image:
  assumes "\<forall>x \<in> set xs. xattr_fits x" and "4 dvd length p" and "length xs < fuel"
    and "length p + sum_list (map entry_span xs) \<le> 2 ^ 62"
  shows "xattr_entries fuel (p @ concat (map xattr_entry_bytes xs)) (length p) res =
    Inr (res @ xattr_pairs xs)"
  using assms
proof (induction xs arbitrary: p fuel res)
  case Nil
  then show ?case by (cases fuel) (simp_all add: xattr_pairs_def)
next
  case (Cons x xs)
  obtain i suffix val where x: "x = (i, suffix, val)" by (rule prod_cases3)
  obtain f where f: "fuel = Suc f" using Cons.prems(3) by (cases fuel) auto
  have span: "4 + length suffix + length val \<le> entry_span x"
    by (simp add: x entry_span_def xattr_entry_size_def)
  have "xattr_entries f ((p @ xattr_entry_bytes x) @ concat (map xattr_entry_bytes xs))
      (length (p @ xattr_entry_bytes x)) (res @ [(xattr_full_name i suffix, val)]) =
      Inr ((res @ [(xattr_full_name i suffix, val)]) @ xattr_pairs xs)"
    using Cons.prems f by (intro Cons.IH) (simp_all add: dvd_add entry_span_dvd)
  moreover have "xattr_entries (Suc f) (p @ xattr_entry_bytes x @ concat (map xattr_entry_bytes xs)) (length p) res =
      xattr_entries f (p @ xattr_entry_bytes x @ concat (map xattr_entry_bytes xs))
        (length p + entry_span x) (res @ [(xattr_full_name i suffix, val)])"
    unfolding x using Cons.prems span by (intro xattr_entries_step) (simp_all add: x)
  ultimately show ?case
    by (simp add: f x xattr_pairs_def del: xattr_entries.simps)
qed

text \<open>On any bytes whatever the loop ends, within its fuel and without a panic.\<close>

lemma xattr_entries_ok:
  assumes "length data \<le> 2 ^ 62" and "0 < fuel" and "length data < fuel + pos"
  shows "is_ok (xattr_entries fuel data pos res)"
  using assms
proof (induction fuel arbitrary: pos res)
  case 0
  then show ?case by simp
next
  case (Suc fuel)
  have up: "pos + 4 \<le> round_up e 4" if "pos + 4 \<le> e" "e \<le> length data" for e
    using that Suc.prems(1) by (simp add: round_up_4)
  have next_ok: "is_ok (xattr_entries fuel data (round_up e 4) acc)" if "pos + 4 \<le> e" "e \<le> length data" for e acc
    using up [OF that] Suc.prems that by (intro Suc.IH) simp_all
  show ?case
    by (auto simp: index_at_def slice_range_def Let_def intro!: next_ok)
qed

subsection \<open>Reading what was stored\<close>

definition stored :: "erofs_reader \<Rightarrow> u64 \<Rightarrow> u8 list \<Rightarrow> bool" where
  \<comment> \<open>the image holds these bytes at this address\<close>
  "stored r off bs \<longleftrightarrow>
     length (rd_mmap r) < 2 ^ 64 \<and> unat off + length bs \<le> length (rd_mmap r) \<and>
     bytes_at (unat off) (length bs) (rd_mmap r) = bs"

lemma stored_slice:
  assumes "stored r off bs" and "a + n \<le> length bs"
  shows "mmap_slice r (off + word_of_nat a) (word_of_nat n) = Inr (bytes_at a n bs)"
proof -
  have bd: "length (rd_mmap r) < 2 ^ 64" "unat off + a + n \<le> length (rd_mmap r)"
    using assms by (simp_all add: stored_def)
  then have u: "unat (word_of_nat a :: u64) = a" "unat (word_of_nat n :: u64) = n"
    by (simp_all add: unat_of_nat)
  then have "unat (off + word_of_nat a) = unat off + a"
    using bd by (simp add: unat_word_ariths)
  moreover have "bytes_at a n bs = bytes_at (unat off + a) n (rd_mmap r)"
    using assms by (metis stored_def bytes_at_bytes_at)
  ultimately show ?thesis
    using bd u by (simp add: image_map.slice_Inr_iff)
qed

lemma stored_slice_0: "stored r off bs \<Longrightarrow> mmap_slice r off (word_of_nat (length bs)) = Inr bs"
  using stored_slice [of r off bs 0 "length bs"] by simp

lemma stored_prefix:
  assumes "stored r off bs" and "unat off + n \<le> length (rd_mmap r)"
  obtains rest where "mmap_slice r off (word_of_nat n) = Inr (take n (bs @ rest))"
    and "length (bs @ rest) \<ge> n"
proof
  let ?rest = "drop (unat off + length bs) (rd_mmap r)"
  have "drop (unat off) (rd_mmap r) = bs @ ?rest"
    using assms(1) by (metis append_take_drop_id bytes_at_def drop_drop add.commute stored_def)
  moreover have "unat (word_of_nat n :: u64) = n"
    using assms by (simp add: unat_of_nat stored_def)
  ultimately show "mmap_slice r off (word_of_nat n) = Inr (take n (bs @ ?rest))"
    using assms by (simp add: image_map.slice_Inr_iff stored_def bytes_at_def)
  show "length (bs @ ?rest) \<ge> n"
    using assms by (simp add: stored_def)
qed

lemma inode_cast_take: "64 \<le> length d \<Longrightarrow> inode_cast (take 64 d) = inode_cast d"
proof -
  assume len: "64 \<le> length d"
  have "inode_compact_view (take 64 d) = inode_compact_view d"
    using len inode_compact_codec.view_eq_iff [of "take 64 d" d] by (simp add: min_def)
  moreover have "inode_extended_view (take 64 d) = inode_extended_view d"
    using len inode_extended_codec.view_eq_iff [of "take 64 d" d] by (simp add: min_def)
  ultimately show ?thesis
    using len by (simp add: inode_cast_def cast_ref_def Let_def)
qed

lemma reader_inode_stored:
  assumes "stored r (nid_to_offset r nid) (inode_image inode epoch chunkbits)"
    and "unat (nid_to_offset r nid) + 64 \<le> length (rd_mmap r)"
  shows "reader_inode r nid = Inr (disk_inode inode epoch chunkbits)"
proof -
  obtain rest where s: "mmap_slice r (nid_to_offset r nid) (word_of_nat 64) =
      Inr (take 64 (inode_image inode epoch chunkbits @ rest))"
    and len: "64 \<le> length (inode_image inode epoch chunkbits @ rest)"
    using stored_prefix [OF assms] by metis
  show ?thesis
    using s inode_cast_take [OF len] by (simp add: reader_inode_def inode_cast_image)
qed

definition xattrs_fit :: "inode_info \<Rightarrow> bool" where
  \<comment> \<open>every attribute fits its entry, and their area is one the count field can describe\<close>
  "xattrs_fit inode \<longleftrightarrow>
     (\<forall>x \<in> set (ii_xattrs inode). xattr_fits x) \<and> xattr_ibody_size (ii_xattrs inode) \<le> max_xattr_area"

lemma xattrs_fit_small: "xattrs_fit inode \<Longrightarrow> xattrs_small inode"
  by (simp add: xattrs_fit_def xattrs_small_def fits_small)

lemma disk_inode_xattr_size:
  assumes "xattrs_fit inode"
  shows "inode_xattr_size (disk_inode inode epoch chunkbits) = xattr_ibody_size (ii_xattrs inode)"
proof (cases "ii_xattrs inode = []")
  case True
  then show ?thesis
    by (simp add: inode_xattr_size_def disk_inode_common xattr_icount_def xattr_ibody_size_def)
next
  case False
  let ?n = "xattr_ibody_size (ii_xattrs inode)"
  have small: "\<forall>x \<in> set (ii_xattrs inode). xattr_small x"
    using assms by (simp add: xattrs_fit_def fits_small)
  have "4 dvd ?n" "12 \<le> ?n" "?n \<le> max_xattr_area"
    using assms False xattr_ibody_size_ge [OF small] xattr_ibody_size_dvd [OF small]
    by (simp_all add: xattrs_fit_def)
  then show ?thesis
    using xattr_icount_inverse [of ?n] xattr_icount_0_iff [of ?n]
    by (simp add: inode_xattr_size_def disk_inode_common)
qed

text \<open>The parts of a stored inode.\<close>

lemma inode_image_area:
  assumes "xattrs_small inode"
  shows "bytes_at (inode_base inode) (xattr_ibody_size (ii_xattrs inode)) (inode_image inode epoch chunkbits) =
    xattr_area (ii_xattrs inode)"
  unfolding inode_image_def using assms
  by (intro bytes_at_append_exact) (simp_all add: disk_inode_def length_header xattrs_small_area)

lemma inode_image_payload:
  assumes "xattrs_small inode" and "a + n \<le> length (inode_payload (ii_data inode))"
  shows "bytes_at (inode_base inode + xattr_ibody_size (ii_xattrs inode) + a) n
      (inode_image inode epoch chunkbits) = bytes_at a n (inode_payload (ii_data inode))"
  using assms
  by (simp add: inode_image_def bytes_at_append_right disk_inode_def length_header xattrs_small_area)

lemma stored_payload:
  assumes "stored r off (inode_image inode epoch chunkbits)" and "xattrs_fit inode"
    and "a + n \<le> length (inode_payload (ii_data inode))"
  shows "mmap_slice r (off + inline_header_size (disk_inode inode epoch chunkbits) + word_of_nat a)
    (word_of_nat n) = Inr (bytes_at a n (inode_payload (ii_data inode)))"
proof -
  let ?h = "inode_base inode + xattr_ibody_size (ii_xattrs inode)"
  have "mmap_slice r (off + word_of_nat (?h + a)) (word_of_nat n) =
      Inr (bytes_at (?h + a) n (inode_image inode epoch chunkbits))"
    using assms
    by (intro stored_slice) (simp_all add: length_inode_image length_inode_payload xattrs_fit_small)
  then show ?thesis
    using inode_image_payload [OF xattrs_fit_small [OF assms(2)] assms(3)]
    by (simp add: inline_header_size_def disk_inode_common disk_inode_xattr_size [OF assms(2)] add.assoc)
qed

lemma length_le_spans: "length xs \<le> sum_list (map entry_span xs)"
proof (induction xs)
  case (Cons x xs)
  then show ?case using entry_span_ge [of x] by simp
qed simp

lemma read_xattrs_stored:
  assumes "stored r (nid_to_offset r nid) (inode_image inode epoch chunkbits)" and "xattrs_fit inode"
  shows "read_xattrs r nid (disk_inode inode epoch chunkbits) = Inr (xattr_pairs (ii_xattrs inode))"
proof (cases "ii_xattrs inode = []")
  case True
  then show ?thesis
    by (simp add: read_xattrs_def disk_inode_xattr_size [OF assms(2)] xattr_ibody_size_def xattr_pairs_def)
next
  case False
  let ?i = "disk_inode inode epoch chunkbits" and ?xs = "ii_xattrs inode"
  let ?n = "xattr_ibody_size ?xs" and ?es = "concat (map xattr_entry_bytes ?xs)"
  have sm: "xattrs_small inode" using assms(2) by (rule xattrs_fit_small)
  have n: "?n = 12 + sum_list (map entry_span ?xs)"
    using sm False by (simp add: xattr_ibody_size_eq xattrs_small_def)
  have sl: "mmap_slice r (nid_to_offset r nid + word_of_nat (inode_base inode)) (word_of_nat ?n) =
      Inr (xattr_area ?xs)"
    using stored_slice [OF assms(1), of "inode_base inode" ?n] inode_image_area [OF sm]
    by (simp add: length_inode_image [OF sm] length_inode_payload)
  have ar: "xattr_area ?xs = replicate 12 0 @ ?es" using False by (simp add: xattr_area_def)
  have len: "length (xattr_area ?xs) = ?n" using sm by (rule xattrs_small_area)
  have "\<exists>x \<in> set ?xs. 0 < entry_span x"
    using False entry_span_ge [of "hd ?xs"] by (intro bexI [of _ "hd ?xs"]) simp_all
  moreover have "length ?xs \<le> sum_list (map entry_span ?xs)"
    by (rule length_le_spans)
  moreover have "xattr_entries (Suc ?n) (replicate 12 0 @ ?es) (length (replicate 12 (0 :: u8))) [] =
      Inr ([] @ xattr_pairs ?xs)"
    using assms(2) calculation n
    by (intro xattr_entries_image) (simp_all add: xattrs_fit_def max_xattr_area_def)
  ultimately show ?thesis
    using sl ar len n
    by (auto simp: read_xattrs_def disk_inode_xattr_size [OF assms(2)] disk_inode_common index_at_def
        nth_append simp del: xattr_entries.simps)
qed

text \<open>Symbolic links and directories.\<close>

lemma small_inline: "unat (inode_size i) < 4096 \<Longrightarrow> inline_blocks_size i = 0"
proof -
  assume small: "unat (inode_size i) < 4096"
  then have "inode_size i mod 4096 = inode_size i"
    by (intro mod_word_less) (simp add: word_less_nat_alt)
  then show ?thesis by (auto simp: inline_blocks_size_def Let_def word_gt_0)
qed

lemma read_symlink_stored:
  assumes "stored r (nid_to_offset r nid) (inode_image inode epoch chunkbits)" and "xattrs_fit inode"
    and "ii_data inode = Symlink target" and "ii_size inode = word_of_nat (length target)"
    and "length target < 4096"
  shows "read_symlink r nid (disk_inode inode epoch chunkbits) = Inr target"
proof -
  let ?i = "disk_inode inode epoch chunkbits"
  have small: "unat (word_of_nat (length target) :: u64) = length target"
    using assms(5) by (simp add: unat_of_nat)
  have sz: "inode_size ?i = word_of_nat (length target)"
  proof (cases "ii_is_extended inode")
    case True
    then show ?thesis
      using assms(3,4) by (simp add: disk_inode_extended inode_size_of_def)
  next
    case False
    have "take_bit 32 (word_of_nat (length target) :: u64) = word_of_nat (length target)"
      using assms(5) small
      by (intro word_unat_eq_iff [THEN iffD2]) (simp add: unsigned_take_bit_eq take_bit_nat_eq_self)
    then show ?thesis
      using False assms(3,4) by (simp add: disk_inode_compact inode_size_of_def)
  qed
  have "mmap_slice r (nid_to_offset r nid + inline_header_size ?i) (word_of_nat (length target)) = Inr target"
    using stored_payload [OF assms(1,2), of 0 "length target"] assms(3) by simp
  moreover have "inline_blocks_size ?i = 0"
    using small assms(5) by (intro small_inline) (simp add: sz)
  moreover have "inode_data_layout ?i = 2"
    using assms(3) by (simp add: disk_inode_layout)
  ultimately show ?thesis
    by (simp add: read_symlink_def read_flat_data_vec_def read_flat_data_def sz Let_def)
qed

lemma visit_names: "visit (\<lambda>nid ft name acc. Inr (True, acc @ [(g name, nid, ft)])) es acc =
    Inr (acc @ map (\<lambda>(name, nid, ft). (g name, nid, ft)) es)"
proof -
  have "visit_block (\<lambda>nid ft name acc. Inr (True, acc @ [(g name, nid, ft)])) es acc =
      Inr (True, acc @ map (\<lambda>(name, nid, ft). (g name, nid, ft)) es)"
    by (induction es arbitrary: acc) auto
  then show ?thesis by (simp add: visit_def)
qed

lemma for_each_dir_entry_stored:
  assumes "names_fit es" and "names_clean es" and "es \<noteq> []"
    and "inode_data_layout i = EROFS_INODE_FLAT_PLAIN"
    and "stored r (inode_startblk i * 4096) (concat (map block_image (dir_blocks_of es)))"
    and "unat (inode_size i) = length (concat (map block_image (dir_blocks_of es)))"
  shows "for_each_dir_entry r nid i cb s = visit cb es s"
proof -
  let ?d = "concat (map block_image (dir_blocks_of es))"
  have sz: "inode_size i = word_of_nat (length ?d)"
    by (simp flip: assms(6))
  have "read_flat_data r nid i 0 (inode_size i) = Inr ?d"
    using stored_slice_0 [OF assms(5)] assms(4) sz by (simp add: read_flat_data_def Let_def)
  moreover have "parse_dir_entries ?d (unat (inode_size i)) 0 cb s = visit cb es s"
    using parse_serialized [OF assms(1,2) refl] by (simp add: assms(6))
  moreover have "dir_blocks_of es \<noteq> []"
    using concat_dir_blocks [OF assms(1)] assms(3) by auto
  then have "inode_size i \<noteq> 0"
    using assms(6) length_dir_image [of es] by auto
  ultimately show ?thesis by (simp add: for_each_dir_entry_def)
qed

lemma read_dir_stored:
  assumes "names_fit es" and "names_clean es" and "es \<noteq> []"
    and "inode_data_layout i = EROFS_INODE_FLAT_PLAIN"
    and "stored r (inode_startblk i * 4096) (concat (map block_image (dir_blocks_of es)))"
    and "unat (inode_size i) = length (concat (map block_image (dir_blocks_of es)))"
  shows "read_dir_cached r nid i = Inr es"
    and "read_dir r nid i = Inr (map (\<lambda>(name, nid, ft). (from_utf8_lossy name, nid, ft)) es)"
  using visit_names [of "\<lambda>x. x" es "[]"] visit_names [of from_utf8_lossy es "[]"]
  by (simp_all add: read_dir_cached_def read_dir_def for_each_dir_entry_stored [OF assms])

subsection \<open>Properties\<close>

lemma xattr_size_bound: "inode_xattr_size i \<le> max_xattr_area"
proof -
  have "unat (inode_xattr_icount i) < 2 ^ 16" using unat_lt [of "inode_xattr_icount i"] by simp
  then show ?thesis by (auto simp: inode_xattr_size_def max_xattr_area_def Let_def)
qed

lemma read_xattrs_settled:
  assumes "length (rd_mmap r) < 2 ^ 64"
    and d: "mmap_slice r (nid_to_offset r nid + word_of_nat (inode_header_size i)) (word_of_nat (inode_xattr_size i)) = Inr d"
  shows "is_ok (read_xattrs r nid i)"
proof (cases "inode_xattr_size i = 0")
  case True
  then show ?thesis by (simp add: read_xattrs_def)
next
  case False
  have "length d = unat (word_of_nat (inode_xattr_size i) :: u64)"
    by (rule image_map.slice_length [OF assms])
  also have "\<dots> \<le> inode_xattr_size i" by (simp add: unsigned_of_nat take_bit_eq_mod)
  finally have len: "length d \<le> 2 ^ 62" using xattr_size_bound [of i] by (simp add: max_xattr_area_def)
  have "is_ok (xattr_entries (Suc (length d)) d pos [])" for pos
    by (rule xattr_entries_ok [OF len]) simp_all
  then show ?thesis
    using False d by (auto simp: read_xattrs_def Let_def index_at_def simp del: xattr_entries.simps)
qed

text \<open>Reading attributes always ends. For arbitrary image bytes the scan of an attribute area ends
  without an index out of range; reading attributes fails only when the area lies outside the image.\<close>

lemma attribute_scan_ends:
  assumes "length (rd_mmap r) < 2 ^ 64"
  shows "(\<exists>xs. read_xattrs r nid i = Inr xs) \<or>
    (\<exists>e. mmap_slice r (nid_to_offset r nid + word_of_nat (inode_header_size i)) (word_of_nat (inode_xattr_size i)) = Inl e \<and>
       no_panic (Inl e :: error + unit) \<and> read_xattrs r nid i = Inl e)"
proof -
  let ?s = "mmap_slice r (nid_to_offset r nid + word_of_nat (inode_header_size i)) (word_of_nat (inode_xattr_size i))"
  show ?thesis
  proof (cases "inode_xattr_size i = 0")
    case True
    then show ?thesis by (simp add: read_xattrs_def)
  next
    case nonempty: False
    show ?thesis
    proof (cases ?s)
      case (Inl e)
      have "no_panic ?s" by (rule image_map.slice_no_panic [OF assms])
      then show ?thesis using Inl nonempty by (simp add: read_xattrs_def Let_def no_panic_def)
    next
      case (Inr d)
      then have "is_ok (read_xattrs r nid i)" by (rule read_xattrs_settled [OF assms])
      then show ?thesis by (auto simp: is_ok_def split: sum.splits)
    qed
  qed
qed

text \<open>C28: Round trip of extended attributes. The builder serialises an inode whose attributes fit, and from
  any image that holds the bytes it wrote at the slot of the inode, with the 64 bytes that a reader maps
  of it, the attributes come back complete, in order, each with its full name and its value.\<close>

theorem xattrs_roundtrip:
  assumes "xattrs_fit inode"
  shows "\<exists>bs. serialize_inode inode epoch chunkbits = Inr bs \<and>
    (\<forall>r nid. stored r (nid_to_offset r nid) bs \<and> unat (nid_to_offset r nid) + 64 \<le> length (rd_mmap r) \<longrightarrow>
       and_then (reader_inode r nid) (read_xattrs r nid) =
         Inr (map (\<lambda>(index, suffix, val). (xattr_full_name index suffix, val)) (ii_xattrs inode)))"
  using serialize_inode_image [OF xattrs_fit_small [OF assms], of epoch chunkbits]
    reader_inode_stored [of _ _ inode epoch chunkbits] read_xattrs_stored [OF _ assms, of _ _ epoch chunkbits]
  by (auto simp: xattr_pairs_def)

text \<open>C31: Flat data, plain or inline, with its tail after the inode or not, is read byte by byte from
  where the format puts it: a read that succeeds returns exactly the requested number of bytes, each the
  byte of the image at its address. A read panics only with a capacity overflow, and exactly when the range
  is longer than \<^verbatim>\<open>isize::MAX\<close> and goes from the blocks into the tail.\<close>

theorem flat_data_refines_addresses:
  assumes "length (rd_mmap r) < 2 ^ 64" and "unat offset + unat len < 2 ^ 64"
  shows "(if inode_data_layout i = EROFS_INODE_FLAT_INLINE \<and> offset < full_blocks i \<and>
        full_blocks i < offset + len \<and> 2 ^ 63 \<le> unat len
      then read_flat_data_vec r nid i offset len = Inl (Panic CapacityOverflow)
      else no_panic (read_flat_data_vec r nid i offset len)) \<and>
    (\<forall>bs. read_flat_data_vec r nid i offset len = Inr bs \<longrightarrow> length bs = unat len \<and>
       (\<forall>k < unat len. bs ! k = rd_mmap r ! unat (flat_pos r nid i (offset + word_of_nat k))))"
  using read_flat_vec_overflow [of i offset len] read_flat_vec_no_panic [OF assms(1), of i offset len]
    read_flat_data_vec_bytes [OF assms]
  by (auto simp: spans_tail_def inline_blocks_size_eq)

end
