(* ===== verification/Reader_Data.thy ===== *)
theory Reader_Data
  imports Reader_Meta
begin

text \<open>
  \<^verbatim>\<open>src/fs/data.rs\<close>: file data. Chunk-based files are read chunk by chunk through their index
  array, either into a vector or straight into a writer. \<open>chunk_span\<close> is the specification both
  loops refine; the last part says that a file stored by the blob writer is read back, at any
  offset and size.
\<close>

unbundle bit_operations_syntax

definition reader_chunkbits :: "erofs_reader \<Rightarrow> erofs_inode \<Rightarrow> u32" where
  "reader_chunkbits r i =
     ucast (sb_blkszbits (reader_sb r)) + (ucast (inode_chunk_format i) AND 0x1F)"

definition chunk_size :: "u32 \<Rightarrow> u64" where
  \<comment> \<open>\<^verbatim>\<open>1u64 << chunkbits\<close>; the release build uses the low six bits of the shift\<close>
  "chunk_size chunkbits = push_bit (unat chunkbits mod 64) 1"

definition chunk_indexes :: "erofs_reader \<Rightarrow> u64 \<Rightarrow> erofs_inode \<Rightarrow> error + u8 list" where
  "chunk_indexes r nid i =
     (if inode_data_layout i \<noteq> EROFS_INODE_CHUNK_BASED then Inl InvalidData
      else
        let chunksize = chunk_size (reader_chunkbits r i);
            nchunks = div_ceil_u64 (inode_size i) chunksize;
            inode_offset = nid_to_offset r nid;
            header_size = word_of_nat (inode_header_size i + inode_xattr_size i);
            ci_offset = inode_offset + header_size;
            ci_total = nchunks * word_of_nat EROFS_CHUNK_INDEX_SIZE
        in mmap_slice r ci_offset ci_total)"

definition chunk_index_at :: "u8 list \<Rightarrow> u64 \<Rightarrow> error + erofs_chunk_index" where
  "chunk_index_at ci_data i =
     (let off = unat (i * word_of_nat EROFS_CHUNK_INDEX_SIZE) in
      and_then (slice_range off (length ci_data) ci_data)
        (cast_ref EROFS_CHUNK_INDEX_SIZE chunk_index_view))"

lemma unat_chunk_size: "unat (chunk_size cb) = 2 ^ (unat cb mod 64)"
proof -
  define k where "k = unat cb mod 64"
  have "k < 64" by (simp add: k_def)
  then have "(2 :: nat) ^ k < 2 ^ LENGTH(64)" by (intro power_strict_increasing) simp_all
  moreover have "chunk_size cb = word_of_nat (2 ^ k)"
    unfolding chunk_size_def k_def [symmetric] by (simp add: push_bit_eq_mult)
  ultimately have "unat (chunk_size cb) = 2 ^ k"
    by (simp only: unat_of_nat mod_less)
  then show ?thesis by (simp only: k_def)
qed

lemma chunk_size_pos: "0 < chunk_size cb"
  by (simp add: word_less_nat_alt unat_chunk_size)

lemma chunk_off_less: "unat (fp mod chunk_size cb) < unat (chunk_size cb)"
  by (simp add: unat_mod unat_chunk_size)

lemma unat_chunk_left:
  "unat (chunk_size cb - fp mod chunk_size cb) = unat (chunk_size cb) - unat (fp mod chunk_size cb)"
  using chunk_off_less [of fp cb] by (intro unat_sub) (simp add: word_le_nat_alt)

lemma unat_to_read:
  "unat (min remaining (chunk_size cb - fp mod chunk_size cb)) =
     min (unat remaining) (unat (chunk_size cb) - unat (fp mod chunk_size cb))"
  by (simp only: unat_min unat_chunk_left)

lemma remaining_decreases:
  assumes "0 < remaining"
  shows "unat (remaining - min remaining (chunk_size cb - fp mod chunk_size cb)) < unat remaining"
proof -
  let ?t = "min remaining (chunk_size cb - fp mod chunk_size cb)"
  have r: "0 < unat remaining" using assms by (simp only: word_less_nat_alt unat_0)
  have t: "unat ?t = min (unat remaining) (unat (chunk_size cb) - unat (fp mod chunk_size cb))"
    by (rule unat_to_read)
  then have "0 < unat ?t" using r chunk_off_less [of fp cb] by linarith
  moreover have "unat (remaining - ?t) = unat remaining - unat ?t"
    using t by (intro unat_sub) (simp only: word_le_nat_alt)
  ultimately show ?thesis using r by linarith
qed

subsection \<open>Writing into a writer\<close>

fun write_zeros :: "nat \<Rightarrow> nat \<Rightarrow> sink \<Rightarrow> error + sink" where
  \<comment> \<open>the loop over a hole, 4096 zeros at a time; the first argument bounds the iterations\<close>
  "write_zeros 0 left w = (if left > 0 then Inl Diverged else Inr w)"
| "write_zeros (Suc fuel) left w =
     (if left > 0 then
        let n = min left 4096 in
        and_then (write_all (replicate n 0) w) (write_zeros fuel (left - n))
      else Inr w)"

function write_chunk_loop ::
  "erofs_reader \<Rightarrow> u32 \<Rightarrow> u8 list \<Rightarrow> u64 \<Rightarrow> u64 \<Rightarrow> u64 \<Rightarrow> sink \<Rightarrow> error + (u64 \<times> sink)" where
  "write_chunk_loop r chunkbits ci_data nchunks remaining file_pos w =
     (if remaining > 0 then
        let chunksize = chunk_size chunkbits;
            chunk_idx = file_pos div chunksize;
            chunk_off = file_pos mod chunksize;
            to_read = min remaining (chunksize - chunk_off)
        in if chunk_idx \<ge> nchunks then Inr (remaining, w)
           else
             and_then (chunk_index_at ci_data chunk_idx) (\<lambda>ci.
             let blkaddr = chunk_index_blkaddr ci in
             and_then
               (if blkaddr = - 1 then write_zeros (unat to_read) (unat to_read) w
                else if chunk_index_device_id ci > 0 then
                  let blob_offset = blkaddr * word_of_nat EROFS_BLOCK_SIZE + chunk_off in
                  and_then (blob_mmap_slice r blob_offset to_read) (\<lambda>slice. write_all slice w)
                else
                  let data_offset = blkaddr * word_of_nat EROFS_BLOCK_SIZE + chunk_off in
                  and_then (mmap_slice r data_offset to_read) (\<lambda>slice. write_all slice w)) (\<lambda>w.
             write_chunk_loop r chunkbits ci_data nchunks (remaining - to_read) (file_pos + to_read) w))
      else Inr (remaining, w))"
  by pat_completeness auto
termination
  by (relation "measure (\<lambda>(_, _, _, _, remaining, _). unat remaining)") (auto intro: remaining_decreases)

declare write_chunk_loop.simps [simp del]

definition write_chunk_data_to ::
  "erofs_reader \<Rightarrow> u64 \<Rightarrow> erofs_inode \<Rightarrow> u64 \<Rightarrow> u64 \<Rightarrow> sink \<Rightarrow> error + (u64 \<times> sink)" where
  "write_chunk_data_to r nid i offset len w =
     (let chunkbits = reader_chunkbits r i;
          chunksize = chunk_size chunkbits
      in and_then (chunk_indexes r nid i) (\<lambda>ci_data.
         let nchunks = div_ceil_u64 (inode_size i) chunksize in
         and_then (write_chunk_loop r chunkbits ci_data nchunks len offset w) (\<lambda>(remaining, w).
         Inr (len - remaining, w))))"

definition write_flat_data_to ::
  "erofs_reader \<Rightarrow> u64 \<Rightarrow> erofs_inode \<Rightarrow> u64 \<Rightarrow> u64 \<Rightarrow> sink \<Rightarrow> error + (u64 \<times> sink)" where
  "write_flat_data_to r nid i offset len w =
     (let layout = inode_data_layout i;
          blocks_size = inline_blocks_size i
      in if layout = EROFS_INODE_FLAT_INLINE \<and>
            blocks_size > 0 \<and> offset < blocks_size \<and> offset + len > blocks_size then
           let block_read_size = blocks_size - offset;
               startblk = inode_startblk i;
               block_offset = startblk * word_of_nat EROFS_BLOCK_SIZE + offset
           in and_then (mmap_slice r block_offset block_read_size) (\<lambda>block_data.
              and_then (write_all block_data w) (\<lambda>w.
              let inline_read_size = len - block_read_size;
                  inode_offset = nid_to_offset r nid;
                  header_size = inline_header_size i
              in and_then (mmap_slice r (inode_offset + header_size) inline_read_size) (\<lambda>inline_data.
                 and_then (write_all inline_data w) (\<lambda>w.
                 Inr (len, w)))))
         else
           and_then (read_flat_data r nid i offset len) (\<lambda>slice.
           and_then (write_all slice w) (\<lambda>w.
           Inr (len, w))))"

definition write_file_data_to ::
  "erofs_reader \<Rightarrow> u64 \<Rightarrow> erofs_inode \<Rightarrow> u64 \<Rightarrow> u32 \<Rightarrow> sink \<Rightarrow> error + (u64 \<times> sink)" where
  "write_file_data_to r nid i offset len w =
     (if offset \<ge> inode_size i then Inr (0, w)
      else
        let actual_size = min (ucast len) (inode_size i - offset);
            layout = inode_data_layout i
        in if layout = EROFS_INODE_FLAT_PLAIN \<or> layout = EROFS_INODE_FLAT_INLINE
           then write_flat_data_to r nid i offset actual_size w
           else if layout = EROFS_INODE_CHUNK_BASED
           then write_chunk_data_to r nid i offset actual_size w
           else Inl InvalidData)"

subsection \<open>Reading into a vector\<close>

function read_chunk_loop ::
  "erofs_reader \<Rightarrow> u32 \<Rightarrow> u8 list \<Rightarrow> u64 \<Rightarrow> u64 \<Rightarrow> u64 \<Rightarrow> nat \<Rightarrow> u8 list \<Rightarrow> error + u8 list" where
  "read_chunk_loop r chunkbits ci_data nchunks remaining file_pos buf_pos res =
     (if remaining > 0 then
        let chunksize = chunk_size chunkbits;
            chunk_idx = file_pos div chunksize;
            chunk_off = file_pos mod chunksize;
            to_read = min remaining (chunksize - chunk_off)
        in if chunk_idx \<ge> nchunks then Inr res
           else
             and_then (chunk_index_at ci_data chunk_idx) (\<lambda>ci.
             let blkaddr = chunk_index_blkaddr ci in
             and_then
               (if blkaddr = - 1 then Inr res
                else if chunk_index_device_id ci > 0 then
                  let blob_offset = blkaddr * word_of_nat EROFS_BLOCK_SIZE + chunk_off in
                  and_then (blob_mmap_slice r blob_offset to_read) (\<lambda>slice. copy_at buf_pos slice res)
                else
                  let data_offset = blkaddr * word_of_nat EROFS_BLOCK_SIZE + chunk_off in
                  and_then (mmap_slice r data_offset to_read) (\<lambda>slice. copy_at buf_pos slice res)) (\<lambda>res.
             read_chunk_loop r chunkbits ci_data nchunks (remaining - to_read) (file_pos + to_read)
               (buf_pos + unat to_read) res))
      else Inr res)"
  by pat_completeness auto
termination
  by (relation "measure (\<lambda>(_, _, _, _, remaining, _). unat remaining)") (auto intro: remaining_decreases)

declare read_chunk_loop.simps [simp del]

definition read_chunk_data_sync ::
  "erofs_reader \<Rightarrow> u64 \<Rightarrow> erofs_inode \<Rightarrow> u64 \<Rightarrow> u64 \<Rightarrow> error + u8 list" where
  "read_chunk_data_sync r nid i offset len =
     (let chunkbits = reader_chunkbits r i;
          chunksize = chunk_size chunkbits
      in and_then (chunk_indexes r nid i) (\<lambda>ci_data.
         let nchunks = div_ceil_u64 (inode_size i) chunksize in
         read_chunk_loop r chunkbits ci_data nchunks len offset 0 (replicate (unat len) 0)))"

definition read_chunk_data_async ::
  "erofs_reader \<Rightarrow> u64 \<Rightarrow> erofs_inode \<Rightarrow> u64 \<Rightarrow> u64 \<Rightarrow> error + u8 list" where
  \<comment> \<open>an asynchronous function that never awaits: the same body and the same loop\<close>
  "read_chunk_data_async r nid i offset len =
     (let chunkbits = reader_chunkbits r i;
          chunksize = chunk_size chunkbits
      in and_then (chunk_indexes r nid i) (\<lambda>ci_data.
         let nchunks = div_ceil_u64 (inode_size i) chunksize in
         read_chunk_loop r chunkbits ci_data nchunks len offset 0 (replicate (unat len) 0)))"

definition read_file_data_sync ::
  "erofs_reader \<Rightarrow> u64 \<Rightarrow> erofs_inode \<Rightarrow> u64 \<Rightarrow> u32 \<Rightarrow> error + u8 list" where
  "read_file_data_sync r nid i offset len =
     (if offset \<ge> inode_size i then Inr []
      else
        let actual_size = min (ucast len) (inode_size i - offset);
            layout = inode_data_layout i
        in if layout = EROFS_INODE_FLAT_PLAIN \<or> layout = EROFS_INODE_FLAT_INLINE
           then read_flat_data_vec r nid i offset actual_size
           else if layout = EROFS_INODE_CHUNK_BASED
           then read_chunk_data_sync r nid i offset actual_size
           else Inl InvalidData)"

definition read_file_data ::
  "erofs_reader \<Rightarrow> u64 \<Rightarrow> erofs_inode \<Rightarrow> u64 \<Rightarrow> u32 \<Rightarrow> error + u8 list" where
  "read_file_data r nid i offset len =
     (if offset \<ge> inode_size i then Inr []
      else
        let actual_size = min (ucast len) (inode_size i - offset);
            layout = inode_data_layout i
        in if layout = EROFS_INODE_FLAT_PLAIN \<or> layout = EROFS_INODE_FLAT_INLINE
           then read_flat_data_vec r nid i offset actual_size
           else if layout = EROFS_INODE_CHUNK_BASED
           then read_chunk_data_async r nid i offset actual_size
           else Inl InvalidData)"

subsection \<open>What both loops compute\<close>

definition chunk_piece :: "erofs_reader \<Rightarrow> erofs_chunk_index \<Rightarrow> u64 \<Rightarrow> u64 \<Rightarrow> error + u8 list" where
  "chunk_piece r ci chunk_off to_read =
     (let blkaddr = chunk_index_blkaddr ci in
      if blkaddr = - 1 then Inr (replicate (unat to_read) 0)
      else if chunk_index_device_id ci > 0 then blob_mmap_slice r (blkaddr * 4096 + chunk_off) to_read
      else mmap_slice r (blkaddr * 4096 + chunk_off) to_read)"

function chunk_span :: "erofs_reader \<Rightarrow> u32 \<Rightarrow> u8 list \<Rightarrow> u64 \<Rightarrow> u64 \<Rightarrow> error + u8 list" where
  "chunk_span r chunkbits ci_data remaining file_pos =
     (if remaining > 0 then
        let chunk_off = file_pos mod chunk_size chunkbits;
            to_read = min remaining (chunk_size chunkbits - chunk_off)
        in and_then (chunk_index_at ci_data (file_pos div chunk_size chunkbits)) (\<lambda>ci.
           and_then (chunk_piece r ci chunk_off to_read) (\<lambda>piece.
           and_then (chunk_span r chunkbits ci_data (remaining - to_read) (file_pos + to_read)) (\<lambda>rest.
           Inr (piece @ rest))))
      else Inr [])"
  by pat_completeness auto
termination
  by (relation "measure (\<lambda>(_, _, _, remaining, _). unat remaining)") (auto intro: remaining_decreases)

declare chunk_span.simps [simp del]

definition mapped :: "erofs_reader \<Rightarrow> bool" where
  \<comment> \<open>both maps fit the address space\<close>
  "mapped r \<longleftrightarrow> length (rd_mmap r) < 2 ^ 64 \<and> length (blob_data r) < 2 ^ 64"

lemma mapped_slice_length:
  "mapped r \<Longrightarrow> mmap_slice r off len = Inr bs \<Longrightarrow> length bs = unat len"
  "mapped r \<Longrightarrow> blob_mmap_slice r off len = Inr bs \<Longrightarrow> length bs = unat len"
  unfolding mapped_def using image_map.slice_length blob_map.slice_length by blast+

lemma chunk_piece_length:
  "mapped r \<Longrightarrow> chunk_piece r ci chunk_off to_read = Inr bs \<Longrightarrow> length bs = unat to_read"
  unfolding chunk_piece_def Let_def by (force split: if_splits dest: mapped_slice_length)

lemma unat_advance:
  assumes "unat (fp :: u64) + unat remaining \<le> m" and "m < 2 ^ 64" and "t \<le> remaining"
  shows "unat (fp + t) + unat (remaining - t) \<le> m"
proof -
  have t: "unat t \<le> unat remaining" using assms(3) by (simp add: word_le_nat_alt)
  then have "unat (fp + t) = unat fp + unat t"
    using assms(1,2) by (simp add: unat_word_ariths)
  moreover have "unat (remaining - t) = unat remaining - unat t"
    using assms(3) by (rule unat_sub)
  ultimately show ?thesis using t assms(1) by linarith
qed

lemma chunk_idx_in_range:
  assumes "unat fp < unat isize"
  shows "fp div chunk_size cb < div_ceil_u64 isize (chunk_size cb)"
proof -
  have pos: "0 < unat (chunk_size cb)" by (simp add: unat_chunk_size)
  have "unat fp div unat (chunk_size cb) * unat (chunk_size cb) \<le> unat fp" by simp
  then have "unat fp div unat (chunk_size cb) * unat (chunk_size cb) < unat isize"
    using assms by linarith
  then show ?thesis
    using div_ceil_bounds(2) [OF pos] by (simp add: word_less_nat_alt unat_div unat_div_ceil_u64)
qed

lemma no_remaining: "\<not> (remaining :: u64) > 0 \<Longrightarrow> remaining = 0"
  by (simp add: word_gt_0)

lemma loops_end [simp]:
  "chunk_span r cb ci_data 0 fp = Inr []"
  "write_chunk_loop r cb ci_data nchunks 0 fp w = Inr (0, w)"
  "read_chunk_loop r cb ci_data nchunks 0 fp bp res = Inr res"
  by (simp_all add: chunk_span.simps [of r cb ci_data 0 fp]
      write_chunk_loop.simps [of r cb ci_data nchunks 0 fp w]
      read_chunk_loop.simps [of r cb ci_data nchunks 0 fp bp res])

text \<open>The size of the next piece and what it leaves.\<close>

definition piece_size :: "u32 \<Rightarrow> u64 \<Rightarrow> u64 \<Rightarrow> u64" where
  "piece_size cb remaining fp = min remaining (chunk_size cb - fp mod chunk_size cb)"

lemma piece_size_le: "piece_size cb remaining fp \<le> remaining"
  by (simp add: piece_size_def)

lemma unat_piece_size_le: "unat (piece_size cb remaining fp) \<le> unat remaining"
  using piece_size_le by (simp only: word_le_nat_alt)

lemma unat_left:
  "unat (remaining - piece_size cb remaining fp) = unat remaining - unat (piece_size cb remaining fp)"
  by (rule unat_sub) (rule piece_size_le)

lemma left_decreases: "0 < remaining \<Longrightarrow> unat (remaining - piece_size cb remaining fp) < unat remaining"
  unfolding piece_size_def by (rule remaining_decreases)

lemma piece_advance:
  assumes "unat fp + unat remaining \<le> unat isize"
  shows "unat (fp + piece_size cb remaining fp) + unat (remaining - piece_size cb remaining fp) \<le> unat (isize :: u64)"
  using unat_lt [of isize] by (intro unat_advance [OF assms]) (simp_all add: piece_size_le)

lemma chunk_span_step:
  "remaining > 0 \<Longrightarrow> chunk_span r cb ci_data remaining fp =
     and_then (chunk_index_at ci_data (fp div chunk_size cb)) (\<lambda>ci.
     and_then (chunk_piece r ci (fp mod chunk_size cb) (piece_size cb remaining fp)) (\<lambda>piece.
     and_then (chunk_span r cb ci_data (remaining - piece_size cb remaining fp) (fp + piece_size cb remaining fp)) (\<lambda>rest.
     Inr (piece @ rest))))"
  by (simp add: chunk_span.simps [of r cb ci_data remaining fp] piece_size_def Let_def)

lemma chunk_span_length:
  "mapped r \<Longrightarrow> chunk_span r cb ci_data remaining fp = Inr bs \<Longrightarrow> length bs = unat remaining"
proof (induction "unat remaining" arbitrary: remaining fp bs rule: less_induct)
  case less
  show ?case
  proof (cases "remaining > 0")
    case False
    then show ?thesis using less.prems no_remaining [OF False] by simp
  next
    case True
    let ?t = "piece_size cb remaining fp"
    from less.prems(2) True obtain ci piece rest
      where p: "chunk_piece r ci (fp mod chunk_size cb) ?t = Inr piece"
        and q: "chunk_span r cb ci_data (remaining - ?t) (fp + ?t) = Inr rest"
        and bs: "bs = piece @ rest"
      by (auto simp: chunk_span_step)
    have "length rest = unat (remaining - ?t)"
      by (rule less.hyps [OF left_decreases [OF True] less.prems(1) q])
    then show ?thesis
      using chunk_piece_length [OF less.prems(1) p] bs unat_left [of remaining cb fp]
        unat_piece_size_le [of cb remaining fp] by simp
  qed
qed

subsection \<open>The loops compute it\<close>

definition emit :: "u8 list \<Rightarrow> sink \<Rightarrow> sink" where
  "emit bs w = w\<lparr>sink_data := sink_data w @ bs, sink_room := sink_room w - length bs\<rparr>"

lemma write_all_emit: "length bs \<le> sink_room w \<Longrightarrow> write_all bs w = Inr (emit bs w)"
  by (simp add: emit_def write_all_ok)

lemma emit_simps [simp]:
  "emit [] w = w" "emit cs (emit bs w) = emit (bs @ cs) w" "sink_room (emit bs w) = sink_room w - length bs"
  "sink_data (emit bs w) = sink_data w @ bs"
  by (simp_all add: emit_def)

lemma write_zeros_emit:
  "left \<le> fuel \<Longrightarrow> left \<le> sink_room w \<Longrightarrow> write_zeros fuel left w = Inr (emit (replicate left 0) w)"
proof (induction fuel arbitrary: left w)
  case 0
  then show ?case by simp
next
  case (Suc fuel)
  show ?case
  proof (cases "left > 0")
    case True
    let ?n = "min left 4096"
    have "write_zeros fuel (left - ?n) (emit (replicate ?n 0) w) =
        Inr (emit (replicate (left - ?n) 0) (emit (replicate ?n 0) w))"
      using Suc True by (intro Suc.IH) auto
    moreover have "replicate ?n (0 :: u8) @ replicate (left - ?n) 0 = replicate left 0"
      by (simp flip: replicate_add)
    moreover have "write_all (replicate ?n 0) w = Inr (emit (replicate ?n 0) w)"
      using Suc.prems by (intro write_all_emit) simp
    ultimately show ?thesis
      using True by (simp add: Let_def)
  qed simp
qed

lemma write_chunk_loop_step:
  assumes "mapped r" and "remaining > 0" and "unat fp + unat remaining \<le> unat isize"
    and "unat remaining \<le> sink_room w"
  shows "write_chunk_loop r cb ci_data (div_ceil_u64 isize (chunk_size cb)) remaining fp w =
    and_then (chunk_index_at ci_data (fp div chunk_size cb)) (\<lambda>ci.
    and_then (chunk_piece r ci (fp mod chunk_size cb) (piece_size cb remaining fp)) (\<lambda>piece.
    write_chunk_loop r cb ci_data (div_ceil_u64 isize (chunk_size cb)) (remaining - piece_size cb remaining fp)
      (fp + piece_size cb remaining fp) (emit piece w)))"
proof -
  let ?t = "piece_size cb remaining fp" and ?off = "fp mod chunk_size cb"
  have "unat fp < unat isize"
    using assms(2,3) by (simp add: word_less_nat_alt)
  then have idx: "\<not> div_ceil_u64 isize (chunk_size cb) \<le> fp div chunk_size cb"
    using chunk_idx_in_range by (simp add: not_le)
  have room: "unat ?t \<le> sink_room w"
    using unat_piece_size_le [of cb remaining fp] assms(4) by linarith
  have piece: "(if chunk_index_blkaddr ci = - 1 then write_zeros (unat ?t) (unat ?t) w
      else if chunk_index_device_id ci > 0 then
        and_then (blob_mmap_slice r (chunk_index_blkaddr ci * 4096 + ?off) ?t) (\<lambda>slice. write_all slice w)
      else and_then (mmap_slice r (chunk_index_blkaddr ci * 4096 + ?off) ?t) (\<lambda>slice. write_all slice w)) =
      and_then (chunk_piece r ci ?off ?t) (\<lambda>piece. Inr (emit piece w))" for ci
    using room mapped_slice_length [OF assms(1)]
    by (auto simp: chunk_piece_def Let_def write_zeros_emit intro!: and_then_cong write_all_emit)
  show ?thesis
    using assms(2) idx
    by (subst write_chunk_loop.simps)
      (simp add: Let_def and_then_assoc piece [unfolded piece_size_def] piece_size_def cong: if_cong)
qed

lemma write_chunk_loop_span:
  assumes "mapped r" and "unat fp + unat remaining \<le> unat isize" and "unat remaining \<le> sink_room w"
  shows "write_chunk_loop r cb ci_data (div_ceil_u64 isize (chunk_size cb)) remaining fp w =
    and_then (chunk_span r cb ci_data remaining fp) (\<lambda>bs. Inr (0, emit bs w))"
  using assms
proof (induction "unat remaining" arbitrary: remaining fp w rule: less_induct)
  case less
  show ?case
  proof (cases "remaining > 0")
    case False
    then show ?thesis using no_remaining [OF False] by simp
  next
    case True
    let ?t = "piece_size cb remaining fp"
    have IH: "write_chunk_loop r cb ci_data (div_ceil_u64 isize (chunk_size cb)) (remaining - ?t) (fp + ?t) (emit piece w) =
        and_then (chunk_span r cb ci_data (remaining - ?t) (fp + ?t)) (\<lambda>bs. Inr (0, emit bs (emit piece w)))"
      if p: "chunk_piece r ci (fp mod chunk_size cb) ?t = Inr piece" for ci piece
      using left_decreases [OF True] less.prems(1) piece_advance [OF less.prems(2)]
    proof (rule less.hyps)
      show "unat (remaining - ?t) \<le> sink_room (emit piece w)"
        using less.prems(3) unat_left [of remaining cb fp] chunk_piece_length [OF less.prems(1) p] by simp
    qed
    show ?thesis
      unfolding write_chunk_loop_step [OF less.prems(1) True less.prems(2,3)] chunk_span_step [OF True]
      by (auto simp: and_then_def IH split: sum.split)
  qed
qed

lemma read_chunk_loop_step:
  assumes "mapped r" and "remaining > 0" and "unat fp + unat remaining \<le> unat isize"
    and "res = p @ replicate (unat remaining) 0" and "bp = length p"
  shows "read_chunk_loop r cb ci_data (div_ceil_u64 isize (chunk_size cb)) remaining fp bp res =
    and_then (chunk_index_at ci_data (fp div chunk_size cb)) (\<lambda>ci.
    and_then (chunk_piece r ci (fp mod chunk_size cb) (piece_size cb remaining fp)) (\<lambda>piece.
    read_chunk_loop r cb ci_data (div_ceil_u64 isize (chunk_size cb)) (remaining - piece_size cb remaining fp)
      (fp + piece_size cb remaining fp) (bp + unat (piece_size cb remaining fp))
      (p @ piece @ replicate (unat (remaining - piece_size cb remaining fp)) 0)))"
proof -
  let ?t = "piece_size cb remaining fp" and ?off = "fp mod chunk_size cb"
  let ?left = "replicate (unat (remaining - ?t)) (0 :: u8)"
  have "unat fp < unat isize"
    using assms(2,3) by (simp add: word_less_nat_alt)
  then have idx: "\<not> div_ceil_u64 isize (chunk_size cb) \<le> fp div chunk_size cb"
    using chunk_idx_in_range by (simp add: not_le)
  have res: "res = p @ replicate (unat ?t) 0 @ ?left"
    using unat_piece_size_le [of cb remaining fp] unat_left [of remaining cb fp]
    by (simp add: assms(4) flip: replicate_add)
  have copy: "copy_at bp piece res = Inr (p @ piece @ ?left)" if "length piece = unat ?t" for piece
    unfolding res using that assms(5) by (intro copy_at_append) simp_all
  have piece: "(if chunk_index_blkaddr ci = - 1 then Inr res
      else if chunk_index_device_id ci > 0 then
        and_then (blob_mmap_slice r (chunk_index_blkaddr ci * 4096 + ?off) ?t) (\<lambda>slice. copy_at bp slice res)
      else and_then (mmap_slice r (chunk_index_blkaddr ci * 4096 + ?off) ?t) (\<lambda>slice. copy_at bp slice res)) =
      and_then (chunk_piece r ci ?off ?t) (\<lambda>piece. Inr (p @ piece @ ?left))" for ci
    using mapped_slice_length [OF assms(1)]
    by (auto simp: chunk_piece_def Let_def copy res intro!: and_then_cong copy [unfolded res])
  show ?thesis
    using assms(2) idx
    by (subst read_chunk_loop.simps)
      (simp add: Let_def and_then_assoc piece [unfolded piece_size_def] piece_size_def cong: if_cong)
qed

lemma read_chunk_loop_span:
  assumes "mapped r" and "unat fp + unat remaining \<le> unat isize"
  shows "read_chunk_loop r cb ci_data (div_ceil_u64 isize (chunk_size cb)) remaining fp (length p)
      (p @ replicate (unat remaining) 0) =
    and_then (chunk_span r cb ci_data remaining fp) (\<lambda>bs. Inr (p @ bs))"
  using assms
proof (induction "unat remaining" arbitrary: remaining fp p rule: less_induct)
  case less
  show ?case
  proof (cases "remaining > 0")
    case False
    then show ?thesis using no_remaining [OF False] by simp
  next
    case True
    let ?t = "piece_size cb remaining fp"
    have IH: "read_chunk_loop r cb ci_data (div_ceil_u64 isize (chunk_size cb)) (remaining - ?t) (fp + ?t)
          (length p + unat ?t) (p @ piece @ replicate (unat (remaining - ?t)) 0) =
        and_then (chunk_span r cb ci_data (remaining - ?t) (fp + ?t)) (\<lambda>bs. Inr (p @ piece @ bs))"
      if pc: "chunk_piece r ci (fp mod chunk_size cb) ?t = Inr piece" for ci piece
    proof -
      have "read_chunk_loop r cb ci_data (div_ceil_u64 isize (chunk_size cb)) (remaining - ?t) (fp + ?t)
          (length (p @ piece)) ((p @ piece) @ replicate (unat (remaining - ?t)) 0) =
        and_then (chunk_span r cb ci_data (remaining - ?t) (fp + ?t)) (\<lambda>bs. Inr ((p @ piece) @ bs))"
        by (rule less.hyps [OF left_decreases [OF True] less.prems(1) piece_advance [OF less.prems(2)]])
      then show ?thesis
        using chunk_piece_length [OF less.prems(1) pc] by simp
    qed
    show ?thesis
      unfolding read_chunk_loop_step [OF less.prems(1) True less.prems(2) refl refl] chunk_span_step [OF True]
      by (auto simp: and_then_def IH split: sum.split)
  qed
qed

subsection \<open>The three ways to read a file agree\<close>

lemma actual_size_bound:
  assumes "\<not> inode_size i \<le> offset"
  shows "unat offset + unat (min (ucast (len :: u32)) (inode_size i - offset)) \<le> unat (inode_size i)"
proof -
  have "unat (inode_size i - offset) = unat (inode_size i) - unat offset"
    using assms by (intro unat_sub) simp
  then show ?thesis
    using assms unfolding unat_min by (simp add: word_le_nat_alt)
qed

lemma read_chunk_data_span:
  assumes "mapped r" and "unat offset + unat len \<le> unat (inode_size i)"
  shows "read_chunk_data_sync r nid i offset len =
    and_then (chunk_indexes r nid i) (\<lambda>ci_data. chunk_span r (reader_chunkbits r i) ci_data len offset)"
proof -
  have "read_chunk_loop r cb ci_data (div_ceil_u64 (inode_size i) (chunk_size cb)) len offset 0
      (replicate (unat len) 0) = chunk_span r cb ci_data len offset" for cb ci_data
    using read_chunk_loop_span [OF assms, of cb ci_data "[]"]
    by (simp add: and_then_def split: sum.split)
  then show ?thesis by (simp add: read_chunk_data_sync_def Let_def)
qed

lemma write_chunk_data_read:
  assumes "mapped r" and "unat offset + unat len \<le> unat (inode_size i)" and "unat len \<le> sink_room w"
  shows "write_chunk_data_to r nid i offset len w =
    and_then (read_chunk_data_sync r nid i offset len) (\<lambda>bs. Inr (word_of_nat (length bs), emit bs w))"
proof -
  have len: "chunk_span r cb ci_data len offset = Inr bs \<Longrightarrow> word_of_nat (length bs) = len" for cb ci_data bs
    using chunk_span_length [OF assms(1)] by simp
  show ?thesis
    unfolding read_chunk_data_span [OF assms(1,2)]
    using write_chunk_loop_span [OF assms]
    by (auto simp: write_chunk_data_to_def Let_def and_then_assoc len intro!: and_then_cong)
qed

text \<open>Two slices written one after the other.\<close>

lemma write_two_slices:
  assumes "mapped r" and "unat n \<le> unat len" and "unat len \<le> sink_room w"
  shows "and_then (mmap_slice r a n) (\<lambda>x. and_then (write_all x w) (\<lambda>w.
      and_then (mmap_slice r b (len - n)) (\<lambda>y. and_then (write_all y w) (\<lambda>w. Inr (len, w))))) =
    and_then (mmap_slice r a n) (\<lambda>x. and_then (mmap_slice r b (len - n)) (\<lambda>y.
      Inr (word_of_nat (length (x @ y)), emit (x @ y) w)))"
proof (intro and_then_cong refl)
  fix x assume x: "mmap_slice r a n = Inr x"
  have lx: "length x = unat n" by (rule mapped_slice_length(1) [OF assms(1) x])
  have ln: "unat (len - n) = unat len - unat n" using assms(2) by (intro unat_sub) (simp add: word_le_nat_alt)
  have "write_all x w = Inr (emit x w)" using lx assms(2,3) by (intro write_all_emit) simp
  moreover have "and_then (mmap_slice r b (len - n)) (\<lambda>y. and_then (write_all y (emit x w)) (\<lambda>w. Inr (len, w))) =
      and_then (mmap_slice r b (len - n)) (\<lambda>y. Inr (word_of_nat (length (x @ y)), emit (x @ y) w))"
  proof (intro and_then_cong refl)
    fix y assume y: "mmap_slice r b (len - n) = Inr y"
    have ly: "length y = unat len - unat n" using mapped_slice_length(1) [OF assms(1) y] ln by simp
    have "length (x @ y) = unat len" using lx ly assms(2) by simp
    then have "word_of_nat (length (x @ y)) = len" by (simp only: word_of_nat_eq_iff) simp
    moreover have "write_all y (emit x w) = Inr (emit (x @ y) w)"
      using lx ly assms(2,3) by (subst write_all_emit) simp_all
    ultimately show "and_then (write_all y (emit x w)) (\<lambda>w. Inr (len, w)) =
        Inr (word_of_nat (length (x @ y)), emit (x @ y) w)" by simp
  qed
  ultimately show "and_then (write_all x w) (\<lambda>w. and_then (mmap_slice r b (len - n))
      (\<lambda>y. and_then (write_all y w) (\<lambda>w. Inr (len, w)))) =
      and_then (mmap_slice r b (len - n)) (\<lambda>y. Inr (word_of_nat (length (x @ y)), emit (x @ y) w))"
    by simp
qed

lemma read_within_u32: "unat (min (ucast (len :: u32)) (n :: u64)) < 2 ^ 63"
  using unat_lt [of len] unfolding unat_min by simp

lemma write_flat_data_read:
  assumes "mapped r" and "unat offset + unat len \<le> unat (inode_size i)" and "unat len \<le> sink_room w"
    and "unat len < 2 ^ 63"
  shows "write_flat_data_to r nid i offset len w =
    and_then (read_flat_data_vec r nid i offset len) (\<lambda>bs. Inr (word_of_nat (length bs), emit bs w))"
proof -
  let ?B = "inline_blocks_size i"
  have lens: "unat offset + unat len < 2 ^ 64" using assms(2) unat_lt [of "inode_size i"] by simp
  have m: "length (rd_mmap r) < 2 ^ 64" using assms(1) by (simp add: mapped_def)
  show ?thesis
  proof (cases "inode_data_layout i = 2 \<and> 0 < ?B \<and> offset < ?B \<and> offset + len > ?B")
    case False
    have "read_flat_data r nid i offset len = Inr bs \<Longrightarrow> length bs = unat len" for bs
      using read_flat_data_bytes [OF m lens] by blast
    then show ?thesis
      using False assms(3)
      by (auto simp: write_flat_data_to_def read_flat_data_vec_def Let_def write_all_emit intro!: and_then_cong)
  next
    case True
    let ?n = "?B - offset"
    have sum: "unat (offset + len) = unat offset + unat len"
      using lens by (simp add: unat_word_ariths)
    have n: "unat ?n = unat ?B - unat offset"
      using True by (intro unat_sub) auto
    then have nle: "unat ?n < unat len"
      using True sum by (auto simp: word_less_nat_alt)
    have eq: "and_then (mmap_slice r a ?n) (\<lambda>x. and_then (write_all x w) (\<lambda>w.
          and_then (mmap_slice r b (len - ?n)) (\<lambda>y. and_then (write_all y w) (\<lambda>w. Inr (len, w))))) =
        and_then (mmap_slice r a ?n) (\<lambda>x. and_then (mmap_slice r b (len - ?n)) (\<lambda>y.
          Inr (word_of_nat (length (x @ y)), emit (x @ y) w)))" for a b
      using nle by (intro write_two_slices [OF assms(1) _ assms(3)]) simp
    show ?thesis
      using True eq assms(4)
      by (simp add: write_flat_data_to_def read_flat_data_vec_def vec_with_capacity_def Let_def and_then_assoc)
  qed
qed

lemma write_file_data_read:
  assumes "mapped r" and "unat len \<le> sink_room w"
  shows "write_file_data_to r nid i offset len w =
    and_then (read_file_data_sync r nid i offset len) (\<lambda>bs. Inr (word_of_nat (length bs), emit bs w))"
proof (cases "inode_size i \<le> offset")
  case True
  then show ?thesis by (simp add: write_file_data_to_def read_file_data_sync_def)
next
  case False
  let ?n = "min (ucast len) (inode_size i - offset)"
  have room: "unat ?n \<le> sink_room w"
    using assms(2) unfolding unat_min by simp
  note bound = actual_size_bound [OF False, of len]
  show ?thesis
    using False write_flat_data_read [OF assms(1) bound room read_within_u32] write_chunk_data_read [OF assms(1) bound room]
    by (simp add: write_file_data_to_def read_file_data_sync_def Let_def cong: if_cong)
qed

text \<open>A read never returns more than was asked for.\<close>

lemma read_flat_vec_length:
  assumes "mapped r" and "unat offset + unat len \<le> unat (inode_size i)"
    and "read_flat_data_vec r nid i offset len = Inr bs"
  shows "length bs = unat len"
proof -
  have "length (rd_mmap r) < 2 ^ 64" using assms(1) by (simp add: mapped_def)
  moreover have "unat offset + unat len < 2 ^ 64"
    using assms(2) unat_lt [of "inode_size i"] by simp
  ultimately show ?thesis using read_flat_data_vec_bytes assms(3) by blast
qed

lemma read_length:
  assumes "mapped r" and "read_file_data_sync r nid i offset len = Inr bs"
  shows "length bs \<le> unat len"
proof (cases "inode_size i \<le> offset")
  case True
  then show ?thesis using assms(2) by (simp add: read_file_data_sync_def)
next
  case False
  let ?n = "min (ucast len) (inode_size i - offset) :: u64"
  note bound = actual_size_bound [OF False, of len]
  have "length bs = unat ?n"
    using assms(2) False read_flat_vec_length [OF assms(1) bound]
      chunk_span_length [OF assms(1)]
    by (auto simp: read_file_data_sync_def Let_def read_chunk_data_span [OF assms(1) bound] split: if_splits)
  then show ?thesis unfolding unat_min by simp
qed

lemma read_file_data_same: "read_file_data r nid i offset len = read_file_data_sync r nid i offset len"
  by (simp add: read_file_data_def read_file_data_sync_def read_chunk_data_async_def read_chunk_data_sync_def
      Let_def)

subsection \<open>Reading a file the blob writer stored\<close>

definition blob_holds :: "erofs_reader \<Rightarrow> u64 \<Rightarrow> u8 list \<Rightarrow> bool" where
  "blob_holds r a c \<longleftrightarrow>
     4096 * unat a + length c \<le> length (blob_data r) \<and>
     bytes_at (4096 * unat a) (length c) (blob_data r) = c"

definition refs_hold :: "erofs_reader \<Rightarrow> nat \<Rightarrow> chunk_ref list \<Rightarrow> u8 list \<Rightarrow> bool" where
  \<comment> \<open>the indexes of a file name, in order, blob blocks that hold its chunks\<close>
  "refs_hold r cs refs content \<longleftrightarrow>
     mapped r \<and> rd_blob_mmap r \<noteq> None \<and> length refs < 2 ^ 60 \<and>
     list_all2 (\<lambda>ck c. ck_device_id ck = 1 \<and> unat (ck_blkaddr ck) < 2 ^ 48 \<and> blob_holds r (ck_blkaddr ck) c)
       refs (split_chunks cs content)"

lemma chunk_index_at_payload:
  assumes "unat j < length refs" and "length refs < 2 ^ 60"
  shows "chunk_index_at (inode_payload (RegularFile refs)) j =
    Inr (chunk_index_new (ck_blkaddr (refs ! unat j)) (ck_device_id (refs ! unat j)))"
proof -
  let ?xs = "map (\<lambda>ci. chunk_index_new (ck_blkaddr ci) (ck_device_id ci)) refs"
  let ?data = "concat (map chunk_index_as_bytes ?xs)"
  have len: "length ?data = 8 * length refs"
    using chunk_index_codec.length_concat_enc [of ?xs] by simp
  have off: "unat (j * 8) = unat j * 8"
    using assms by (simp add: unat_word_ariths)
  have "slice_range (unat j * 8) (length ?data) ?data = Inr (drop (unat j * 8) ?data)"
    using len assms(1) by (simp add: slice_range_def bytes_at_def)
  moreover have "cast_ref 8 chunk_index_view (drop (unat j * 8) ?data) = Inr (?xs ! unat j)"
    using chunk_index_codec.cast_nth [of ?xs "unat j" "[]"] assms(1) by simp
  ultimately show ?thesis
    using assms(1) off by (simp add: chunk_index_at_def Let_def)
qed

lemma blob_holds_slice:
  assumes "mapped r" and "rd_blob_mmap r \<noteq> None" and "blob_holds r a c" and "unat a < 2 ^ 48"
    and "unat off + unat t \<le> length c"
  shows "blob_mmap_slice r (a * 4096 + off) t = Inr (bytes_at (unat off) (unat t) c)"
proof -
  have le: "4096 * unat a + unat off + unat t \<le> length (blob_data r)" "length (blob_data r) < 2 ^ 64"
    using assms by (simp_all add: blob_holds_def mapped_def)
  have "unat (a * 4096) = 4096 * unat a"
    using assms(4) by (simp add: unat_word_ariths)
  then have o: "unat (a * 4096 + off) = 4096 * unat a + unat off"
    using le by (simp add: unat_word_ariths)
  have "bytes_at (4096 * unat a + unat off) (unat t) (blob_data r) = bytes_at (unat off) (unat t) c"
    using assms(3,5) by (metis blob_holds_def bytes_at_bytes_at)
  then show ?thesis
    using le o assms(2) by (simp add: blob_map.slice_Inr_iff)
qed

lemma chunk_piece_content:
  assumes hold: "refs_hold r (unat (chunk_size cb)) refs content"
    and fp: "unat fp + unat t \<le> length content" and t: "0 < unat t"
    and left: "unat (fp mod chunk_size cb) + unat t \<le> unat (chunk_size cb)"
  shows "unat (fp div chunk_size cb) < length refs"
    and "chunk_piece r (chunk_index_new (ck_blkaddr (refs ! unat (fp div chunk_size cb)))
           (ck_device_id (refs ! unat (fp div chunk_size cb)))) (fp mod chunk_size cb) t =
         Inr (bytes_at (unat fp) (unat t) content)"
proof -
  define cs j off where "cs = unat (chunk_size cb)" and "j = unat (fp div chunk_size cb)"
    and "off = unat (fp mod chunk_size cb)"
  have pos: "0 < cs" by (simp add: cs_def unat_chunk_size)
  have fpe: "j * cs + off = unat fp"
    by (simp add: j_def cs_def off_def unat_div unat_mod)
  have len: "length refs = length (split_chunks cs content)"
    using hold by (auto simp: refs_hold_def cs_def dest: list_all2_lengthD)
  have "j * cs < length content" using fpe fp t by linarith
  then have j: "j < length (split_chunks cs content)"
    using pos div_ceil_bounds(2) [OF pos] by (simp add: length_split_chunks)
  then show "unat (fp div chunk_size cb) < length refs" using len by (simp add: j_def)
  let ?c = "split_chunks cs content ! j" and ?a = "ck_blkaddr (refs ! j)"
  have c: "?c = bytes_at (j * cs) cs content" using pos j by (rule nth_split_chunks)
  have ck: "ck_device_id (refs ! j) = 1" "unat ?a < 2 ^ 48" "blob_holds r ?a ?c"
    using hold j len list_all2_nthD [of _ refs "split_chunks cs content" j]
    by (fastforce simp: refs_hold_def cs_def)+
  have m: "mapped r" "rd_blob_mmap r \<noteq> None" using hold by (simp_all add: refs_hold_def)
  have "length ?c = min cs (length content - j * cs)" by (simp add: c)
  then have offt: "off + unat t \<le> length ?c"
    using left fp fpe unfolding off_def [symmetric] cs_def [symmetric] by simp
  have "bytes_at off (unat t) ?c = bytes_at (unat fp) (unat t) content"
    using left fpe unfolding c off_def [symmetric] cs_def [symmetric] by (simp add: bytes_at_bytes_at)
  moreover have "blob_mmap_slice r (?a * 4096 + fp mod chunk_size cb) t = Inr (bytes_at off (unat t) ?c)"
    using blob_holds_slice [OF m ck(3,2), of "fp mod chunk_size cb" t] offt by (simp add: off_def)
  moreover have "?a \<noteq> - 1"
  proof
    assume "?a = - 1"
    then have "unat ?a = 2 ^ 64 - 1"
      by (simp add: unsigned_minus_1_eq_mask mask_eq_exp_minus_1)
    then show False using ck(2) by simp
  qed
  ultimately show "chunk_piece r (chunk_index_new (ck_blkaddr (refs ! unat (fp div chunk_size cb)))
      (ck_device_id (refs ! unat (fp div chunk_size cb)))) (fp mod chunk_size cb) t =
      Inr (bytes_at (unat fp) (unat t) content)"
    unfolding j_def [symmetric] using ck blkaddr_new [OF ck(2)] by (simp add: chunk_piece_def Let_def)
qed

lemma chunk_span_content:
  assumes "refs_hold r (unat (chunk_size cb)) refs content"
    and "unat fp + unat remaining \<le> length content" and "length content < 2 ^ 64"
  shows "chunk_span r cb (inode_payload (RegularFile refs)) remaining fp =
    Inr (bytes_at (unat fp) (unat remaining) content)"
  using assms(2)
proof (induction "unat remaining" arbitrary: remaining fp rule: less_induct)
  case less
  show ?case
  proof (cases "remaining > 0")
    case False
    then show ?thesis using no_remaining [OF False] by (simp add: bytes_at_def)
  next
    case True
    let ?t = "piece_size cb remaining fp" and ?j = "fp div chunk_size cb"
    have tle: "unat ?t \<le> unat remaining" by (rule unat_piece_size_le)
    have t: "unat ?t = min (unat remaining) (unat (chunk_size cb) - unat (fp mod chunk_size cb))"
      unfolding piece_size_def by (rule unat_to_read)
    have pos: "0 < unat ?t"
      using t True chunk_off_less [of fp cb] by (simp add: word_less_nat_alt)
    have left: "unat (fp mod chunk_size cb) + unat ?t \<le> unat (chunk_size cb)"
      using t chunk_off_less [of fp cb] by linarith
    have le: "unat fp + unat ?t \<le> length content" using less.prems tle by linarith
    note piece = chunk_piece_content [OF assms(1) le pos left]
    have fpt: "unat (fp + ?t) = unat fp + unat ?t"
      using le assms(3) by (simp add: unat_word_ariths)
    have "chunk_span r cb (inode_payload (RegularFile refs)) (remaining - ?t) (fp + ?t) =
        Inr (bytes_at (unat (fp + ?t)) (unat (remaining - ?t)) content)"
      using less.prems tle fpt unat_left [of remaining cb fp]
      by (intro less.hyps left_decreases [OF True]) simp
    moreover have "chunk_index_at (inode_payload (RegularFile refs)) ?j =
        Inr (chunk_index_new (ck_blkaddr (refs ! unat ?j)) (ck_device_id (refs ! unat ?j)))"
      using piece(1) assms(1) by (intro chunk_index_at_payload) (simp_all add: refs_hold_def)
    moreover have "bytes_at (unat fp) (unat remaining) content =
        bytes_at (unat fp) (unat ?t) content @ bytes_at (unat fp + unat ?t) (unat remaining - unat ?t) content"
      using tle bytes_at_split [of "unat fp" "unat ?t" "unat remaining - unat ?t" content] by simp
    ultimately show ?thesis
      using piece(2) fpt unat_left [of remaining cb fp]
      by (simp add: chunk_span_step [OF True] del: inode_payload.simps)
  qed
qed

lemma chunk_format_bits:
  assumes "unat d < 32"
  shows "(ucast (ucast (ucast (EROFS_CHUNK_FORMAT_INDEXES OR ucast (d :: u32)) :: u32) :: u16) :: u32) AND 0x1F = d"
proof -
  have "d \<in> set (map word_of_nat [0 ..< 32])"
    using assms by (auto intro!: image_eqI [of _ _ "unat d"])
  then show ?thesis by (auto simp: upt_rec)
qed

lemma reader_chunkbits_image:
  assumes "sb_blkszbits (reader_sb r) = EROFS_BLKSZBITS" and "ii_data inode = RegularFile refs"
    and "12 \<le> unat chunkbits" and "unat chunkbits < 44"
  shows "reader_chunkbits r (disk_inode inode epoch chunkbits) = chunkbits"
proof -
  have "unat (chunkbits - 12) < 32"
    using assms(3,4) by (simp add: unat_sub word_le_nat_alt)
  note chunk_format_bits [OF this]
  then show ?thesis
    using assms(1,2)
    by (simp add: reader_chunkbits_def inode_chunk_format_def disk_inode_common chunk_format_def)
qed

definition size_fits :: "inode_info \<Rightarrow> bool" where
  \<comment> \<open>a compact inode stores 32 bits of the size\<close>
  "size_fits inode \<longleftrightarrow> ii_is_extended inode \<or> unat (ii_size inode) < 2 ^ 32"

lemma disk_inode_size:
  "size_fits inode \<Longrightarrow> inode_size (disk_inode inode epoch chunkbits) = inode_size_of inode"
proof (cases "ii_is_extended inode")
  case False
  assume "size_fits inode"
  then have "unat (take_bit 32 (inode_size_of inode)) = unat (inode_size_of inode)"
    using False
    by (auto simp: size_fits_def unsigned_take_bit_eq inode_size_of_def
        intro!: take_bit_nat_eq_self split: inode_data.split)
  then show ?thesis using False by (simp add: disk_inode_compact word_unat_eq_iff)
qed (simp add: disk_inode_extended)

lemma read_file_data_stored:
  assumes st: "stored r (nid_to_offset r nid) (inode_image inode epoch chunkbits)"
    and fit: "xattrs_fit inode" "size_fits inode"
    and data: "ii_data inode = RegularFile refs"
    and sz: "unat (ii_size inode) = length content"
    and sb: "sb_blkszbits (reader_sb r) = EROFS_BLKSZBITS"
    and cb: "12 \<le> unat chunkbits" "unat chunkbits < 44"
    and hold: "refs_hold r (2 ^ unat chunkbits) refs content"
  shows "read_file_data r nid (disk_inode inode epoch chunkbits) offset len =
    Inr (bytes_at (unat offset) (unat len) content)"
proof -
  let ?i = "disk_inode inode epoch chunkbits"
  have isz: "inode_size ?i = ii_size inode"
    using fit(2) data by (simp add: disk_inode_size inode_size_of_def)
  have cs: "unat (chunk_size chunkbits) = 2 ^ unat chunkbits"
    using cb by (simp add: unat_chunk_size)
  have rcb: "reader_chunkbits r ?i = chunkbits"
    using reader_chunkbits_image [OF sb data cb] .
  have lt: "length content < 2 ^ 64" using sz unat_lt [of "ii_size inode"] by simp
  show ?thesis
  proof (cases "ii_size inode \<le> offset")
    case True
    then show ?thesis
      using sz by (simp add: read_file_data_def isz word_le_nat_alt bytes_at_def)
  next
    case False
    let ?n = "min (ucast len) (inode_size ?i - offset)"
    have sub: "unat (inode_size ?i - offset) = length content - unat offset"
      using False sz unfolding isz by (simp add: unat_sub)
    have n: "unat ?n = min (unat len) (length content - unat offset)"
      unfolding unat_min sub by simp
    have bound: "unat offset + unat ?n \<le> unat (inode_size ?i)"
      using False by (intro actual_size_bound) (simp add: isz)
    have nref: "length refs = div_ceil (length content) (2 ^ unat chunkbits)"
      using hold by (auto simp: refs_hold_def length_split_chunks dest!: list_all2_lengthD)
    have nchunks: "div_ceil_u64 (inode_size ?i) (chunk_size chunkbits) = word_of_nat (length refs)"
    proof -
      have "unat (div_ceil_u64 (inode_size ?i) (chunk_size chunkbits)) = length refs"
        by (simp add: unat_div_ceil_u64 isz sz cs nref)
      then show ?thesis by (metis of_nat_unat ucast_id)
    qed
    have plen: "length (inode_payload (RegularFile refs)) = 8 * length refs"
      by (simp add: length_concat comp_def sum_list_triv)
    have "mmap_slice r (nid_to_offset r nid + inline_header_size ?i + word_of_nat 0) (word_of_nat (8 * length refs)) =
        Inr (inode_payload (RegularFile refs))"
      using stored_payload [OF st fit(1), of 0 "8 * length refs"] plen unfolding data by simp
    then have idx: "chunk_indexes r nid ?i = Inr (inode_payload (RegularFile refs))"
      by (simp add: chunk_indexes_def disk_inode_layout data rcb nchunks inline_header_size_def Let_def
          mult.commute del: inode_payload.simps)
    have m: "mapped r" using hold by (simp add: refs_hold_def)
    have "chunk_span r chunkbits (inode_payload (RegularFile refs)) ?n offset =
        Inr (bytes_at (unat offset) (unat ?n) content)"
      using hold bound lt by (intro chunk_span_content) (simp_all add: cs isz sz)
    moreover have "bytes_at (unat offset) (unat ?n) content = bytes_at (unat offset) (unat len) content"
      unfolding n by (simp add: bytes_at_def min_def)
    ultimately show ?thesis
      using read_chunk_data_span [OF m bound, of nid] False idx
      by (simp add: read_file_data_same read_file_data_sync_def isz disk_inode_layout data rcb Let_def
          del: inode_payload.simps)
  qed
qed

subsection \<open>Properties of file data\<close>

text \<open>C25: Round trip of file contents. An inode whose chunk indexes name blob blocks that hold the
  chunks of a file reads back, through the stored inode and at every offset and size, exactly the
  requested part of that file, clipped at its end.\<close>

theorem file_content_roundtrip:
  assumes "stored r (nid_to_offset r nid) (inode_image inode epoch chunkbits)"
    and "unat (nid_to_offset r nid) + 64 \<le> length (rd_mmap r)"
    and "xattrs_fit inode" and "size_fits inode" and "ii_data inode = RegularFile refs"
    and "unat (ii_size inode) = length content"
    and "sb_blkszbits (reader_sb r) = EROFS_BLKSZBITS" and "12 \<le> unat chunkbits" and "unat chunkbits < 44"
    and "refs_hold r (2 ^ unat chunkbits) refs content"
  shows "and_then (reader_inode r nid) (\<lambda>i. read_file_data r nid i offset len) =
    Inr (bytes_at (unat offset) (unat len) content)"
  using reader_inode_stored [OF assms(1,2)] read_file_data_stored [OF assms(1,3-10)] by simp

text \<open>C29: The three ways to read agree. Writing file data to a writer with enough room succeeds
  exactly when the synchronous read does, with the same error otherwise, appends exactly the bytes
  that read returns and reports their number; the asynchronous read equals the synchronous one.\<close>

theorem write_agrees_with_read:
  assumes "mapped r" and "unat len \<le> sink_room w"
  shows "write_file_data_to r nid i offset len w =
      and_then (read_file_data_sync r nid i offset len) (\<lambda>bs. Inr (word_of_nat (length bs), emit bs w)) \<and>
    read_file_data r nid i offset len = read_file_data_sync r nid i offset len"
  using write_file_data_read [OF assms] read_file_data_same by blast

end
