(* ===== verification/Build_Spec.thy ===== *)
theory Build_Spec
  imports Build_Walk Mkfs_Layout Reader_Data
begin

text \<open>
  What the walk over the source tree promises. \<open>represents\<close> relates a source node to an inode of
  the list it produced, down to the contents of files in the blob; \<open>tree_inv\<close> is the invariant of
  the walk. The main result is that a successful walk produces a list that represents the source,
  numbered in pre-order and linked as a tree.
\<close>

unbundle bit_operations_syntax

subsection \<open>Representation\<close>

text \<open>The inode of a node, up to its number; \<open>fetch\<close> is the blob and \<open>cs\<close> the chunk size.\<close>

definition leaf_data :: "nat \<Rightarrow> (u64 \<Rightarrow> nat \<Rightarrow> u8 list option) \<Rightarrow> src \<Rightarrow> file_stat \<Rightarrow> u64 \<Rightarrow> inode_data \<Rightarrow> bool" where
  "leaf_data cs fetch n meta sz dat \<longleftrightarrow>
     (if is_file meta then
        sz = st_size meta \<and>
        (\<exists>refs. dat = RegularFile refs \<and>
           (st_size meta = 0 \<or> (\<exists>f. src_content n = Some f \<and> unat (st_size meta) \<le> length f)) \<and>
           file_stored fetch cs refs
             (take (unat (st_size meta)) (case src_content n of Some f \<Rightarrow> f | None \<Rightarrow> [])))
      else if is_symlink meta then
        (\<exists>t. src_target n = Some t \<and> sz = word_of_nat (length t) \<and> dat = Symlink t)
      else
        sz = 0 \<and>
        dat = (if (ucast (st_mode meta) :: u16) AND 0xF000 = 0x2000 \<or> (ucast (st_mode meta) :: u16) AND 0xF000 = 0x6000
               then SpecialDev (ucast (st_rdev meta)) else SpecialNoData))"

definition leaf_inode :: "nat \<Rightarrow> (u64 \<Rightarrow> nat \<Rightarrow> u8 list option) \<Rightarrow> src \<Rightarrow> file_stat \<Rightarrow> inode_info \<Rightarrow> bool" where
  "leaf_inode cs fetch n meta i \<longleftrightarrow>
     (\<exists>ino sz dat. i = new_inode meta ino sz dat (read_xattrs_from_path n) \<and> leaf_data cs fetch n meta sz dat)"

inductive represents ::
  "nat \<Rightarrow> (u64 \<Rightarrow> nat \<Rightarrow> u8 list option) \<Rightarrow> inode_info list \<Rightarrow> src \<Rightarrow> nat \<Rightarrow> bool"
  for cs fetch inodes where
  leaf: "src_stat n = Some meta \<Longrightarrow> \<not> is_dir meta \<Longrightarrow> k < length inodes \<Longrightarrow>
     leaf_inode cs fetch n meta (inodes ! k) \<Longrightarrow> represents cs fetch inodes n k"
| dir: "src_stat n = Some meta \<Longrightarrow> is_dir meta \<Longrightarrow> src_entries n = Some es \<Longrightarrow> k < length inodes \<Longrightarrow>
     inodes ! k = new_inode meta ino 0 (Directory ch 0 0 0) (read_xattrs_from_path n) \<Longrightarrow>
     list_all2 (\<lambda>e de. dn_name de = from_utf8_lossy (fst e) \<and>
       (\<exists>m. src_stat (snd e) = Some m \<and> dn_file_type de = mode_to_file_type (ucast (st_mode m))) \<and>
       represents cs fetch inodes (snd e) (dn_inode_idx de)) (by_name es) ch \<Longrightarrow>
     represents cs fetch inodes n k"

lemma leaf_data_grows: "fetch_grows f g \<Longrightarrow> leaf_data cs f n meta sz dat \<Longrightarrow> leaf_data cs g n meta sz dat"
  unfolding leaf_data_def using file_stored_grows [of f g cs] by (auto split: if_splits)

lemma leaf_inode_grows: "fetch_grows f g \<Longrightarrow> leaf_inode cs f n meta i \<Longrightarrow> leaf_inode cs g n meta i"
  unfolding leaf_inode_def using leaf_data_grows by blast

lemma represents_grows: "represents cs f is n k \<Longrightarrow> fetch_grows f g \<Longrightarrow> represents cs g is n k"
proof (induction rule: represents.induct)
  case (leaf n meta k)
  then show ?case using leaf_inode_grows by (intro represents.leaf) blast+
next
  case (dir n meta es k ino ch)
  then show ?case by (intro represents.dir [OF dir(1-5)]) (auto elim: list_all2_mono)
qed

lemma represents_stat: "represents cs f is n k \<Longrightarrow> \<exists>meta. src_stat n = Some meta"
  by (auto elim: represents.cases)

subsection \<open>The source\<close>

text \<open>
  The set \<open>U\<close> of the nodes of the source, and what the walk needs of them: hard links to the same
  file show the same file, chunks belong to the set \<open>C\<close> on which the hash has no collision.
\<close>

definition node_chunks :: "nat \<Rightarrow> src \<Rightarrow> u8 list set" where
  "node_chunks cs n =
     (case src_stat n of None \<Rightarrow> {} | Some meta \<Rightarrow>
        (case src_content n of None \<Rightarrow> {} | Some f \<Rightarrow>
           if is_file meta then set (split_chunks cs (take (unat (st_size meta)) f)) else {}))"

definition source_ok :: "nat \<Rightarrow> u8 list set \<Rightarrow> src set \<Rightarrow> bool" where
  "source_ok cs C U \<longleftrightarrow>
     (\<forall>n \<in> U. node_chunks cs n \<subseteq> C) \<and>
     (\<forall>n \<in> U. \<forall>es. src_entries n = Some es \<longrightarrow> snd ` set es \<subseteq> U) \<and>
     (\<forall>n1 \<in> U. \<forall>n2 \<in> U. \<forall>m1 m2 key. src_stat n1 = Some m1 \<longrightarrow> src_stat n2 = Some m2 \<longrightarrow>
        link_key m1 = Some key \<longrightarrow> link_key m2 = Some key \<longrightarrow> n1 = n2)"

lemma source_ok_entries: "source_ok cs C U \<Longrightarrow> n \<in> U \<Longrightarrow> src_entries n = Some es \<Longrightarrow> e \<in> set es \<Longrightarrow> snd e \<in> U"
  unfolding source_ok_def by blast

subsection \<open>File types\<close>

lemma format_mask:
  "(0xF000 :: u16) = push_bit 12 (mask 4)" "(0xF000 :: u32) = push_bit 12 (mask 4)"
  by (simp_all add: mask_eq_exp_minus_1 push_bit_eq_mult)

lemma ucast_format: "(ucast ((ucast (m :: u32) :: u16) AND 0xF000) :: u32) = m AND 0xF000"
  unfolding format_mask by (rule bit_word_eqI) (auto simp: bit_simps)

lemma ucast_format_eq:
  "(ucast (m :: u32) :: u16) AND 0xF000 = v \<longleftrightarrow> m AND 0xF000 = ucast v"
proof
  assume "m AND 0xF000 = ucast v"
  then have "(ucast ((ucast m :: u16) AND 0xF000) :: u32) = ucast v"
    by (simp only: ucast_format)
  then have "unat (ucast ((ucast m :: u16) AND 0xF000) :: u32) = unat (ucast v :: u32)"
    by (simp only:)
  then show "(ucast m :: u16) AND 0xF000 = v"
    by (simp only: unat_widen word_unat_eq_iff)
qed (metis ucast_format)

lemma file_type_dir: "mode_to_file_type (ucast (st_mode s)) = EROFS_FT_DIR \<longleftrightarrow> is_dir s"
  by (simp add: mode_to_file_type_def is_dir_def ucast_format_eq Let_def)

subsection \<open>The invariant of the walk\<close>

definition links_inv ::
  "nat \<Rightarrow> src set \<Rightarrow> (u64 \<Rightarrow> nat \<Rightarrow> u8 list option) \<Rightarrow> inode_info list \<Rightarrow> (u64 \<times> u64 \<Rightarrow> nat option) \<Rightarrow> bool" where
  \<comment> \<open>a recorded hard link names the inode of a node with that key\<close>
  "links_inv cs U fetch inodes links \<longleftrightarrow>
     (\<forall>key k. links key = Some k \<longrightarrow> k < length inodes \<and>
        (\<exists>n \<in> U. \<exists>meta. src_stat n = Some meta \<and> link_key meta = Some key \<and>
           leaf_inode cs fetch n meta (inodes ! k)))"

definition tree_inv :: "(u8 list \<Rightarrow> 'h) \<Rightarrow> u8 list set \<Rightarrow> src set \<Rightarrow> u32 \<Rightarrow> 'h build_state \<Rightarrow> bool" where
  "tree_inv hash C U chunksize st \<longleftrightarrow>
     blob_inv hash C (bs_blob st) \<and> bw_chunksize (bs_blob st) = chunksize \<and> 0 < chunksize \<and>
     bs_ino_counter st = word_of_nat (length (bs_inodes st)) \<and>
     (\<forall>k < length (bs_inodes st). ii_ino (bs_inodes st ! k) = word_of_nat (Suc k)) \<and>
     links_inv (unat chunksize) U (blob_fetch (bs_blob st)) (bs_inodes st) (bs_hardlink_map st)"

text \<open>How a step extends the state.\<close>

definition extends :: "'h build_state \<Rightarrow> 'h build_state \<Rightarrow> bool" where
  "extends st st' \<longleftrightarrow>
     (\<exists>new. bs_inodes st' = bs_inodes st @ new) \<and>
     fetch_grows (blob_fetch (bs_blob st)) (blob_fetch (bs_blob st')) \<and>
     ran (bs_hardlink_map st') \<subseteq> ran (bs_hardlink_map st) \<union> {length (bs_inodes st) ..< length (bs_inodes st')}"

definition agrees :: "inode_info list \<Rightarrow> 'h build_state \<Rightarrow> 'h build_state \<Rightarrow> bool" where
  \<comment> \<open>a list that holds the inodes added between two states, and the targets of earlier links\<close>
  "agrees js st st' \<longleftrightarrow>
     length (bs_inodes st') \<le> length js \<and>
     (\<forall>k. (length (bs_inodes st) \<le> k \<and> k < length (bs_inodes st')) \<or> k \<in> ran (bs_hardlink_map st) \<longrightarrow>
        js ! k = bs_inodes st' ! k)"

lemma extends_refl: "extends st st"
  by (simp add: extends_def)

lemma extends_trans: "extends st st1 \<Longrightarrow> extends st1 st2 \<Longrightarrow> extends st st2"
proof -
  assume a: "extends st st1" and b: "extends st1 st2"
  have le: "length (bs_inodes st) \<le> length (bs_inodes st1)" "length (bs_inodes st1) \<le> length (bs_inodes st2)"
    using a b by (auto simp: extends_def)
  have "ran (bs_hardlink_map st2) \<subseteq> ran (bs_hardlink_map st) \<union> {length (bs_inodes st) ..< length (bs_inodes st2)}"
  proof
    fix k assume "k \<in> ran (bs_hardlink_map st2)"
    then have "k \<in> ran (bs_hardlink_map st1) \<or> length (bs_inodes st1) \<le> k \<and> k < length (bs_inodes st2)"
      using b unfolding extends_def by fastforce
    moreover have "k \<in> ran (bs_hardlink_map st) \<or> length (bs_inodes st) \<le> k \<and> k < length (bs_inodes st1)"
      if "k \<in> ran (bs_hardlink_map st1)"
      using a that unfolding extends_def by fastforce
    ultimately show "k \<in> ran (bs_hardlink_map st) \<union> {length (bs_inodes st) ..< length (bs_inodes st2)}"
      using le by auto
  qed
  then show ?thesis
    using a b unfolding extends_def by (auto intro: fetch_grows_trans)
qed

lemma extends_length: "extends st st' \<Longrightarrow> length (bs_inodes st) \<le> length (bs_inodes st')"
  by (auto simp: extends_def)

lemma extends_nth: "extends st st' \<Longrightarrow> k < length (bs_inodes st) \<Longrightarrow> bs_inodes st' ! k = bs_inodes st ! k"
  by (auto simp: extends_def nth_append)

lemma extends_fetch: "extends st st' \<Longrightarrow> fetch_grows (blob_fetch (bs_blob st)) (blob_fetch (bs_blob st'))"
  by (simp add: extends_def)

lemma links_inv_bound: "links_inv cs U f is links \<Longrightarrow> k \<in> ran links \<Longrightarrow> k < length is"
  by (auto simp: links_inv_def ran_def)

lemma agrees_first:
  assumes "agrees js st st2" and "extends st1 st2" and "\<forall>k \<in> ran (bs_hardlink_map st). k < length (bs_inodes st1)"
  shows "agrees js st st1"
  using assms extends_length [OF assms(2)] extends_nth [OF assms(2)]
  unfolding agrees_def by (metis le_trans less_le_trans)

lemma agrees_second:
  assumes "agrees js st st2" and "extends st st1" and "extends st1 st2"
  shows "agrees js st1 st2"
proof -
  have le: "length (bs_inodes st) \<le> length (bs_inodes st1)" "length (bs_inodes st1) \<le> length (bs_inodes st2)"
    using assms(2,3) by (auto dest: extends_length)
  have "k \<in> ran (bs_hardlink_map st) \<or> (length (bs_inodes st) \<le> k \<and> k < length (bs_inodes st2))"
    if "k \<in> ran (bs_hardlink_map st1)" for k
    using assms(2) that le by (fastforce simp: extends_def)
  moreover have "length (bs_inodes st) \<le> k" if "length (bs_inodes st1) \<le> k" for k
    using that le by simp
  ultimately show ?thesis
    using assms(1) unfolding agrees_def by blast
qed

lemma agrees_self: "agrees (bs_inodes st') st st'"
  by (simp add: agrees_def)

definition entry_matches ::
  "nat \<Rightarrow> (u64 \<Rightarrow> nat \<Rightarrow> u8 list option) \<Rightarrow> inode_info list \<Rightarrow> u8 list \<times> src \<Rightarrow> dir_entry \<Rightarrow> bool" where
  "entry_matches cs fetch js e de \<longleftrightarrow>
     dn_name de = from_utf8_lossy (fst e) \<and>
     (\<exists>m. src_stat (snd e) = Some m \<and> dn_file_type de = mode_to_file_type (ucast (st_mode m))) \<and>
     represents cs fetch js (snd e) (dn_inode_idx de)"

lemma entry_matches_grows:
  "fetch_grows f g \<Longrightarrow> entry_matches cs f js e de \<Longrightarrow> entry_matches cs g js e de"
  unfolding entry_matches_def using represents_grows by blast

definition walked ::
  "(u8 list \<Rightarrow> 'h) \<Rightarrow> u8 list set \<Rightarrow> src set \<Rightarrow> u32 \<Rightarrow> src \<Rightarrow> 'h build_state \<Rightarrow> nat \<times> 'h build_state \<Rightarrow> bool" where
  "walked hash C U chunksize n st r \<longleftrightarrow>
     tree_inv hash C U chunksize (snd r) \<and> extends st (snd r) \<and>
     fst r = length (bs_inodes st) \<and> fst r < length (bs_inodes (snd r)) \<and>
     (\<forall>js. agrees js st (snd r) \<longrightarrow>
        represents (unat chunksize) (blob_fetch (bs_blob (snd r))) js n (fst r))"

definition entered ::
  "(u8 list \<Rightarrow> 'h) \<Rightarrow> u8 list set \<Rightarrow> src set \<Rightarrow> u32 \<Rightarrow> (u8 list \<times> src) list \<Rightarrow> dir_entry list \<Rightarrow>
     'h build_state \<Rightarrow> dir_entry list \<times> 'h build_state \<Rightarrow> bool" where
  "entered hash C U chunksize es children st r \<longleftrightarrow>
     tree_inv hash C U chunksize (snd r) \<and> extends st (snd r) \<and>
     (\<exists>new. fst r = children @ new \<and>
       (\<forall>js. agrees js st (snd r) \<longrightarrow>
          list_all2 (entry_matches (unat chunksize) (blob_fetch (bs_blob (snd r))) js) es new))"

lemma links_inv_grows:
  "links_inv cs U f is links \<Longrightarrow> fetch_grows f g \<Longrightarrow> links_inv cs U g (is @ js) links"
  unfolding links_inv_def using leaf_inode_grows by (fastforce simp: nth_append)

text \<open>Pushing the inode of a node.\<close>

lemma tree_inv_push:
  assumes inv: "tree_inv hash C U chunksize st"
    and bw: "blob_inv hash C bw" "bw_chunksize bw = chunksize"
    and grows: "fetch_grows (blob_fetch (bs_blob st)) (blob_fetch bw)"
    and ino: "ii_ino i = bs_ino_counter st + 1"
  defines "st' \<equiv> push_inode i (st\<lparr>bs_ino_counter := bs_ino_counter st + 1, bs_blob := bw\<rparr>)"
  shows "tree_inv hash C U chunksize st' \<and> extends st st'"
proof -
  have s: "bs_inodes st' = bs_inodes st @ [i]" "bs_blob st' = bw" "bs_hardlink_map st' = bs_hardlink_map st"
    "bs_ino_counter st' = bs_ino_counter st + 1"
    by (simp_all add: st'_def push_inode_def)
  have "links_inv (unat chunksize) U (blob_fetch bw) (bs_inodes st @ [i]) (bs_hardlink_map st)"
    using inv grows by (intro links_inv_grows) (simp_all add: tree_inv_def)
  moreover have "\<forall>k < length (bs_inodes st'). ii_ino (bs_inodes st' ! k) = word_of_nat (Suc k)"
    using inv ino by (auto simp: s nth_append tree_inv_def less_Suc_eq)
  ultimately show ?thesis
    using inv bw grows by (auto simp: s tree_inv_def extends_def add.commute)
qed

lemma walked_leaf:
  assumes inv: "tree_inv hash C U chunksize st"
    and n: "src_stat n = Some meta" "\<not> is_dir meta"
    and bw: "blob_inv hash C bw" "bw_chunksize bw = chunksize"
    and grows: "fetch_grows (blob_fetch (bs_blob st)) (blob_fetch bw)"
    and data: "leaf_data (unat chunksize) (blob_fetch bw) n meta sz dat"
  shows "walked hash C U chunksize n st
    (length (bs_inodes st),
     push_inode (new_inode meta (bs_ino_counter st + 1) sz dat (read_xattrs_from_path n))
       (st\<lparr>bs_ino_counter := bs_ino_counter st + 1, bs_blob := bw\<rparr>))"
proof -
  let ?i = "new_inode meta (bs_ino_counter st + 1) sz dat (read_xattrs_from_path n)"
  let ?st' = "push_inode ?i (st\<lparr>bs_ino_counter := bs_ino_counter st + 1, bs_blob := bw\<rparr>)"
  have s: "bs_inodes ?st' = bs_inodes st @ [?i]" "bs_blob ?st' = bw"
    by (simp_all add: push_inode_def)
  have "ii_ino ?i = bs_ino_counter st + 1" by (simp add: new_inode_def)
  note inv' = tree_inv_push [OF inv bw grows this]
  have "represents (unat chunksize) (blob_fetch bw) js n (length (bs_inodes st))" if "agrees js st ?st'" for js
  proof (rule represents.leaf [OF n])
    show "length (bs_inodes st) < length js" using that by (simp add: agrees_def s)
    have "js ! length (bs_inodes st) = ?i" using that by (simp add: agrees_def s)
    then show "leaf_inode (unat chunksize) (blob_fetch bw) n meta (js ! length (bs_inodes st))"
      using data by (auto simp: leaf_inode_def)
  qed
  then show ?thesis using inv' by (simp add: walked_def s)
qed

lemma leaf_not_directory: "leaf_inode cs f n meta i \<Longrightarrow> \<not> is_directory i"
  by (auto simp: leaf_inode_def leaf_data_def new_inode_def is_directory_def split: if_splits)

lemma walked_dir:
  assumes inv1: "tree_inv hash C U chunksize st1" and ext1: "extends st st1"
    and st1: "bs_inodes st1 = bs_inodes st @ [new_inode meta ino 0 (Directory [] 0 0 0) (read_xattrs_from_path n)]"
    and links1: "bs_hardlink_map st1 = bs_hardlink_map st"
    and inv: "tree_inv hash C U chunksize st"
    and n: "src_stat n = Some meta" "is_dir meta" "src_entries n = Some es"
    and ent: "entered hash C U chunksize (by_name es) [] st1 (children, st2)"
  shows "walked hash C U chunksize n st (length (bs_inodes st), set_children (length (bs_inodes st)) children st2)"
proof -
  let ?k = "length (bs_inodes st)" and ?i = "new_inode meta ino 0 (Directory [] 0 0 0) (read_xattrs_from_path n)"
  let ?j = "new_inode meta ino 0 (Directory children 0 0 0) (read_xattrs_from_path n)"
  let ?st' = "set_children ?k children st2"
  have inv2: "tree_inv hash C U chunksize st2" and ext2: "extends st1 st2"
    and reps: "\<And>js. agrees js st1 st2 \<Longrightarrow>
      list_all2 (entry_matches (unat chunksize) (blob_fetch (bs_blob st2)) js) (by_name es) children"
    using ent by (auto simp: entered_def)
  have klt: "?k < length (bs_inodes st2)" using extends_length [OF ext2] st1 by simp
  have at: "bs_inodes st2 ! ?k = ?i"
    using extends_nth [OF ext2, of ?k] by (simp add: st1)
  have s: "?st' = st2\<lparr>bs_inodes := (bs_inodes st2)[?k := ?j]\<rparr>"
    by (simp add: set_children_def at new_inode_def)
  have dirk: "is_directory ?i" by (simp add: is_directory_def new_inode_def)
  have linkne: "k \<noteq> ?k" if l: "bs_hardlink_map st2 key = Some k" for key k
  proof -
    have "links_inv (unat chunksize) U (blob_fetch (bs_blob st2)) (bs_inodes st2) (bs_hardlink_map st2)"
      using inv2 by (simp add: tree_inv_def)
    then obtain n' meta' where "leaf_inode (unat chunksize) (blob_fetch (bs_blob st2)) n' meta' (bs_inodes st2 ! k)"
      using l unfolding links_inv_def by blast
    then show ?thesis using leaf_not_directory dirk at by metis
  qed
  have inv': "tree_inv hash C U chunksize ?st'"
  proof -
    have "links_inv (unat chunksize) U (blob_fetch (bs_blob st2)) (bs_inodes st2) (bs_hardlink_map st2)"
      and inos: "\<forall>k < length (bs_inodes st2). ii_ino (bs_inodes st2 ! k) = word_of_nat (Suc k)"
      using inv2 by (simp_all add: tree_inv_def)
    then have "links_inv (unat chunksize) U (blob_fetch (bs_blob st2)) ((bs_inodes st2)[?k := ?j]) (bs_hardlink_map st2)"
      using linkne unfolding links_inv_def by (metis length_list_update nth_list_update_neq)
    moreover have "ii_ino ?j = ii_ino ?i" by (simp add: new_inode_def)
    then have "\<forall>k < length (bs_inodes st2). ii_ino ((bs_inodes st2)[?k := ?j] ! k) = word_of_nat (Suc k)"
      using inos klt at by (metis nth_list_update)
    ultimately show ?thesis using inv2 by (simp add: s tree_inv_def)
  qed
  have ext12: "extends st st2" using ext1 ext2 by (rule extends_trans)
  have ext': "extends st ?st'"
  proof -
    obtain new where "bs_inodes st2 = bs_inodes st1 @ new" using ext2 by (auto simp: extends_def)
    then have "(bs_inodes st2)[?k := ?j] = bs_inodes st @ (?j # new)"
      by (simp add: st1 list_update_append)
    then have "\<exists>new. bs_inodes ?st' = bs_inodes st @ new" by (auto simp: s)
    then show ?thesis using ext12 by (simp add: s extends_def)
  qed
  have "represents (unat chunksize) (blob_fetch (bs_blob st2)) js n ?k" if ag: "agrees js st ?st'" for js
  proof (rule represents.dir [OF n])
    show "?k < length js" using ag klt by (simp add: agrees_def s)
    show "js ! ?k = ?j" using ag klt by (simp add: agrees_def s)
    have linkb: "k \<in> ran (bs_hardlink_map st) \<Longrightarrow> k < ?k" for k
      using inv links_inv_bound by (fastforce simp: tree_inv_def)
    have "agrees js st1 st2"
      using ag klt linkb unfolding agrees_def
      by (auto simp: s st1 links1 nth_list_update Suc_le_eq)
    from reps [OF this]
    show "list_all2 (\<lambda>e de. dn_name de = from_utf8_lossy (fst e) \<and>
        (\<exists>m. src_stat (snd e) = Some m \<and> dn_file_type de = mode_to_file_type (ucast (st_mode m))) \<and>
        represents (unat chunksize) (blob_fetch (bs_blob st2)) js (snd e) (dn_inode_idx de)) (by_name es) children"
      by (simp add: entry_matches_def [abs_def])
  qed
  then show ?thesis
    using inv' ext' klt by (simp add: walked_def s)
qed

text \<open>One entry: a further link to a file already walked, or a node of its own.\<close>

lemma linked_entry:
  assumes inv: "tree_inv hash C U chunksize st" and src: "source_ok (unat chunksize) C U"
    and c: "c \<in> U" "src_stat c = Some meta" "link_key meta = Some key" "bs_hardlink_map st key = Some k"
    and js: "agrees js st st'" and fg: "fetch_grows (blob_fetch (bs_blob st)) f"
    and ext: "extends st st'"
  shows "represents (unat chunksize) f js c k"
proof -
  obtain n meta' where n: "n \<in> U" "src_stat n = Some meta'" "link_key meta' = Some key" "k < length (bs_inodes st)"
    "leaf_inode (unat chunksize) (blob_fetch (bs_blob st)) n meta' (bs_inodes st ! k)"
    using inv c(4) unfolding tree_inv_def links_inv_def by blast
  have "n = c"
    using src n(1-3) c(1-3) unfolding source_ok_def by blast
  then have "leaf_inode (unat chunksize) f c meta (bs_inodes st ! k)"
    using n c(2) leaf_inode_grows [OF fg] by simp
  moreover have "k \<in> ran (bs_hardlink_map st)" using c(4) by (rule ranI)
  then have "js ! k = bs_inodes st ! k"
    using js extends_nth [OF ext n(4)] by (simp add: agrees_def)
  moreover have "k < length js"
    using js n(4) extends_length [OF ext] by (simp add: agrees_def)
  moreover have "\<not> is_dir meta" using c(3) by (simp add: link_key_def split: if_splits)
  ultimately show ?thesis using c(2) by (auto intro: represents.leaf)
qed

lemma represents_leaf_inode:
  "represents cs f js n k \<Longrightarrow> src_stat n = Some meta \<Longrightarrow> \<not> is_dir meta \<Longrightarrow>
     leaf_inode cs f n meta (js ! k) \<and> k < length js"
  by (erule represents.cases) auto

lemma walked_add_link:
  assumes w: "walked hash C U chunksize c st (k, st1)"
    and c: "c \<in> U" "src_stat c = Some meta"
  shows "tree_inv hash C U chunksize (add_link (link_key meta) k st1) \<and>
    extends st (add_link (link_key meta) k st1)"
proof -
  have inv: "tree_inv hash C U chunksize st1" and ext: "extends st st1"
    and k: "k = length (bs_inodes st)" "k < length (bs_inodes st1)"
    and rep: "represents (unat chunksize) (blob_fetch (bs_blob st1)) (bs_inodes st1) c k"
    using w agrees_self by (auto simp: walked_def)
  have "links_inv (unat chunksize) U (blob_fetch (bs_blob st1)) (bs_inodes st1)
      (bs_hardlink_map (add_link (link_key meta) k st1))"
  proof (cases "link_key meta")
    case None
    then show ?thesis using inv by (simp add: add_link_def tree_inv_def)
  next
    case (Some key)
    then have "\<not> is_dir meta" by (simp add: link_key_def split: if_splits)
    then have "leaf_inode (unat chunksize) (blob_fetch (bs_blob st1)) c meta (bs_inodes st1 ! k)"
      using rep c(2) represents_leaf_inode by blast
    then show ?thesis
      using inv Some c k(2) by (auto simp: tree_inv_def links_inv_def add_link_def)
  qed
  then have "tree_inv hash C U chunksize (add_link (link_key meta) k st1)"
    using inv by (simp add: tree_inv_def)
  moreover have "ran (bs_hardlink_map (add_link (link_key meta) k st1)) \<subseteq>
      ran (bs_hardlink_map st) \<union> {length (bs_inodes st) ..< length (bs_inodes st1)}"
    using ran_add_link [of "link_key meta" k st1] ext k by (auto simp: extends_def)
  ultimately show ?thesis using ext by (simp add: extends_def)
qed

lemma agrees_add_link: "agrees js st (add_link link k st1) = agrees js st st1"
  by (simp add: agrees_def)

lemma entered_cons:
  assumes inv: "tree_inv hash C U chunksize st2" and ext: "extends st st2"
    and same: "bs_inodes st2 = bs_inodes st1" "bs_blob st2 = bs_blob st1"
    and de: "dn_name de = from_utf8_lossy (fst e)" "src_stat (snd e) = Some meta"
      "dn_file_type de = mode_to_file_type (ucast (st_mode meta))"
    and rep: "\<And>js st' f. agrees js st st' \<Longrightarrow> extends st2 st' \<Longrightarrow>
        fetch_grows (blob_fetch (bs_blob st1)) f \<Longrightarrow> represents (unat chunksize) f js (snd e) (dn_inode_idx de)"
    and rest: "entered hash C U chunksize es (children @ [de]) st2 r"
  shows "entered hash C U chunksize (e # es) children st r"
proof -
  obtain new where new: "fst r = children @ de # new"
    and reps: "\<And>js. agrees js st2 (snd r) \<Longrightarrow>
      list_all2 (entry_matches (unat chunksize) (blob_fetch (bs_blob (snd r))) js) es new"
    using rest by (auto simp: entered_def)
  have inv': "tree_inv hash C U chunksize (snd r)" and ext': "extends st2 (snd r)"
    using rest by (auto simp: entered_def)
  have fg: "fetch_grows (blob_fetch (bs_blob st1)) (blob_fetch (bs_blob (snd r)))"
    using extends_fetch [OF ext'] same by simp
  have "list_all2 (entry_matches (unat chunksize) (blob_fetch (bs_blob (snd r))) js) (e # es) (de # new)"
    if ag: "agrees js st (snd r)" for js
    using reps [OF agrees_second [OF ag ext ext']] rep [OF ag ext' fg] de by (simp add: entry_matches_def)
  then show ?thesis
    using inv' extends_trans [OF ext ext'] new by (auto simp: entered_def)
qed

lemma entered_linked:
  assumes src: "source_ok (unat chunksize) C U" and c: "c \<in> U" "src_stat c = Some meta"
    and inv: "tree_inv hash C U chunksize st" and key: "link_key meta = Some key" "bs_hardlink_map st key = Some k"
    and rest: "entered hash C U chunksize es (children @ [entry_of name meta k]) st r"
  shows "entered hash C U chunksize ((name, c) # es) children st r"
  by (rule entered_cons [OF inv extends_refl refl refl _ _ _ _ rest, where meta = meta])
    (use linked_entry [OF inv src c key] c(2) in auto)

lemma entered_child:
  assumes c: "c \<in> U" "src_stat c = Some meta" and inv: "tree_inv hash C U chunksize st"
    and w: "walked hash C U chunksize c st (k, st1)"
    and rest: "entered hash C U chunksize es (children @ [entry_of name meta k]) (add_link (link_key meta) k st1) r"
  shows "entered hash C U chunksize ((name, c) # es) children st r"
proof -
  note w2 = walked_add_link [OF w c, THEN conjunct1] walked_add_link [OF w c, THEN conjunct2]
  have bound: "\<forall>k \<in> ran (bs_hardlink_map st). k < length (bs_inodes st1)"
  proof
    fix j assume "j \<in> ran (bs_hardlink_map st)"
    then have "j < length (bs_inodes st)" using inv links_inv_bound by (auto simp: tree_inv_def)
    then show "j < length (bs_inodes st1)" using extends_length [OF w2(2)] by simp
  qed
  have rep: "represents (unat chunksize) f js c k"
    if ag: "agrees js st st'" and ext: "extends (add_link (link_key meta) k st1) st'"
      and fg: "fetch_grows (blob_fetch (bs_blob st1)) f" for js st' f
  proof -
    have "agrees js st st1"
      using agrees_first [OF ag ext] bound by (simp add: agrees_add_link)
    then have "represents (unat chunksize) (blob_fetch (bs_blob st1)) js c k"
      using w unfolding walked_def fst_conv snd_conv by blast
    then show ?thesis using fg by (rule represents_grows)
  qed
  show ?thesis
    by (rule entered_cons [OF w2 add_link_simps(1,2) _ _ _ _ rest, where meta = meta]) (use rep c(2) in auto)
qed

lemma walk_file:
  assumes inv: "tree_inv hash C U chunksize st" and src: "source_ok (unat chunksize) C U"
    and n: "n \<in> U" "src_stat n = Some meta" "\<not> is_dir meta" "is_file meta"
    and run: "write_file_chunks hash (bs_blob st) (src_content n) (st_size meta) = Inr (refs, bw)"
  shows "walked hash C U chunksize n st
    (length (bs_inodes st),
     push_inode (new_inode meta (bs_ino_counter st + 1) (st_size meta) (RegularFile refs) (read_xattrs_from_path n))
       (st\<lparr>bs_ino_counter := bs_ino_counter st + 1, bs_blob := bw\<rparr>))"
proof -
  have cs: "bw_chunksize (bs_blob st) = chunksize" and b: "blob_inv hash C (bs_blob st)" "0 < bw_chunksize (bs_blob st)"
    using inv by (auto simp: tree_inv_def)
  have "set (split_chunks (unat (bw_chunksize (bs_blob st))) (take (unat (st_size meta)) f)) \<subseteq> C"
    if "src_content n = Some f" for f
    using src n that unfolding source_ok_def node_chunks_def cs by (force dest!: bspec [of _ _ n])
  note stored = write_file_chunks_stored [OF b run this]
  have "leaf_data (unat chunksize) (blob_fetch bw) n meta (st_size meta) (RegularFile refs)"
    using stored n(4) by (simp add: leaf_data_def cs)
  then show ?thesis
    using stored cs by (intro walked_leaf [OF inv n(2,3)]) auto
qed

lemma walk_leaf_node:
  assumes src: "source_ok (unat chunksize) C U" and n: "n \<in> U" "src_stat n = Some meta" "\<not> is_dir meta"
    and inv: "tree_inv hash C U chunksize st" and run: "build_tree_recursive hash n st = Inr r"
  shows "walked hash C U chunksize n st r"
proof -
  let ?x = "read_xattrs_from_path n" and ?ino = "bs_ino_counter st + 1"
  note step = run [unfolded build_tree_recursive.simps n(2) ok_or_simps and_then_simps Let_def]
  have blob: "blob_inv hash C (bs_blob st)" "bw_chunksize (bs_blob st) = chunksize"
    using inv by (simp_all add: tree_inv_def)
  show ?thesis
  proof (cases "is_file meta")
    case True
    then obtain refs bw where w: "write_file_chunks hash (bs_blob st) (src_content n) (st_size meta) = Inr (refs, bw)"
      and r: "r = (length (bs_inodes st), push_inode (new_inode meta ?ino (st_size meta) (RegularFile refs) ?x)
        (st\<lparr>bs_ino_counter := ?ino, bs_blob := bw\<rparr>))"
      using step n(3) by (auto simp: and_then_Inr_iff)
    show ?thesis unfolding r by (rule walk_file [OF inv src n True w])
  next
    case nofile: False
    obtain sz dat where "leaf_data (unat chunksize) (blob_fetch (bs_blob st)) n meta sz dat"
      and "r = (length (bs_inodes st), push_inode (new_inode meta ?ino sz dat ?x)
        (st\<lparr>bs_ino_counter := ?ino, bs_blob := bs_blob st\<rparr>))"
    proof (cases "is_symlink meta")
      case True
      then obtain t where "src_target n = Some t" using step n(3) nofile
        by (cases "src_target n") auto
      then show ?thesis using step n(3) nofile True
        by (intro that [of "word_of_nat (length t)" "Symlink t"]) (auto simp: leaf_data_def)
    next
      case False
      then show ?thesis using step n(3) nofile
        by (intro that [of 0]) (auto simp: leaf_data_def)
    qed
    then show ?thesis
      using walked_leaf [OF inv n(2,3) blob] by simp
  qed
qed

lemma dir_pushed_inv:
  assumes inv: "tree_inv hash C U chunksize st"
  shows "tree_inv hash C U chunksize (dir_pushed n meta st) \<and> extends st (dir_pushed n meta st)"
proof -
  have eta: "dir_pushed n meta st =
      push_inode (new_inode meta (bs_ino_counter st + 1) 0 (Directory [] 0 0 0) (read_xattrs_from_path n))
        (st\<lparr>bs_ino_counter := bs_ino_counter st + 1, bs_blob := bs_blob st\<rparr>)"
    by (simp add: dir_pushed_def)
  show ?thesis
    unfolding eta by (rule tree_inv_push [OF inv]) (use inv in \<open>simp_all add: tree_inv_def new_inode_def\<close>)
qed

lemma walk_dir_node:
  assumes inv: "tree_inv hash C U chunksize st"
    and n: "src_stat n = Some meta" "is_dir meta" "src_entries n = Some es"
    and ent: "entered hash C U chunksize (by_name es) [] (dir_pushed n meta st) (ch, st2)"
  shows "walked hash C U chunksize n st (length (bs_inodes st), set_children (length (bs_inodes st)) ch st2)"
  using dir_pushed_inv [OF inv, of n meta]
  by (intro walked_dir [OF _ _ dir_pushed_simps(3) dir_pushed_simps(2) inv n ent]) simp_all

interpretation represent: tree_walk hash "\<lambda>n. source_ok (unat chunksize) C U \<and> n \<in> U" "tree_inv hash C U chunksize"
  "\<lambda>n st k st'. walked hash C U chunksize n st (k, st')"
  "\<lambda>es children st ch st'. entered hash C U chunksize es children st (ch, st')"
  for hash :: "u8 list \<Rightarrow> 'h" and C U chunksize
proof unfold_locales
  fix n and e :: "u8 list \<times> src" and es
  assume "source_ok (unat chunksize) C U \<and> n \<in> U" and "src_entries n = Some es" and "e \<in> set es"
  then show "source_ok (unat chunksize) C U \<and> snd e \<in> U" by (auto dest: source_ok_entries)
qed (auto intro: walk_leaf_node walk_dir_node entered_linked entered_child simp: dir_pushed_inv walked_add_link,
  auto simp: entered_def extends_refl)

subsection \<open>The shape of the list\<close>

text \<open>
  Every directory of the list but the first is listed exactly once, and every child index is in
  range. What the walk adds to the list is the segment from the old length on.
\<close>

definition inode_ok :: "inode_info \<Rightarrow> bool" where
  "inode_ok i \<longleftrightarrow> xattrs_fit i \<and> dir_names_ok i \<and> size_fits i \<and> dir_bound i < 2 ^ 32"

definition node_ok :: "src \<Rightarrow> bool" where
  \<comment> \<open>what a Linux file system guarantees of names, targets and link counts, and what the format
    holds: attributes within its fields, directories of less than 4 GiB\<close>
  "node_ok n \<longleftrightarrow>
     (\<forall>x \<in> set (read_xattrs_from_path n). xattr_fits x) \<and>
     xattr_ibody_size (read_xattrs_from_path n) \<le> max_xattr_area \<and>
     (\<forall>t. src_target n = Some t \<longrightarrow> length t < 4096) \<and>
     (\<forall>m. src_stat n = Some m \<longrightarrow> 1 \<le> unat (st_nlink m) \<and> unat (st_nlink m) < 2 ^ 32) \<and>
     (case src_entries n of None \<Rightarrow> True
      | Some es \<Rightarrow> length es + 2 < 2 ^ 20 \<and> (\<forall>e \<in> set es. fst e \<noteq> [] \<and> 0 \<notin> set (fst e) \<and> length (fst e) \<le> 255))"

definition dirs_from :: "inode_info list \<Rightarrow> nat \<Rightarrow> nat multiset" where
  "dirs_from is n = mset (filter (\<lambda>j. is_directory (is ! j)) [n ..< length is])"

definition listed_from :: "inode_info list \<Rightarrow> nat \<Rightarrow> nat multiset" where
  "listed_from is n = mset (concat (map dir_child_indices (drop n is)))"

definition valid_from :: "inode_info list \<Rightarrow> nat \<Rightarrow> bool" where
  "valid_from is n \<longleftrightarrow>
     (\<forall>i \<in> set (drop n is). inode_ok i \<and> (\<forall>k \<in> set (child_indices i). k < length is))"

definition dir_indices :: "dir_entry list \<Rightarrow> nat multiset" where
  "dir_indices ch = mset (map dn_inode_idx (filter (\<lambda>de. dn_file_type de = EROFS_FT_DIR) ch))"

lemma dir_indices_simps [simp]:
  "dir_indices [] = {#}"
  "dir_indices (de # ch) = (if dn_file_type de = EROFS_FT_DIR then {#dn_inode_idx de#} else {#}) + dir_indices ch"
  by (simp_all add: dir_indices_def)

lemma dirs_from_append:
  assumes "n \<le> length is"
  shows "dirs_from (is @ js) n = dirs_from is n + dirs_from (is @ js) (length is)"
proof -
  have "[n ..< length (is @ js)] = [n ..< length is] @ [length is ..< length (is @ js)]"
    using assms upt_add_eq_append [of n "length is" "length js"] by simp
  moreover have "filter (\<lambda>j. is_directory ((is @ js) ! j)) [n ..< length is] =
      filter (\<lambda>j. is_directory (is ! j)) [n ..< length is]"
    by (rule filter_cong) (simp_all add: nth_append)
  ultimately show ?thesis by (simp add: dirs_from_def)
qed

lemma listed_from_append:
  "n \<le> length is \<Longrightarrow> listed_from (is @ js) n = listed_from is n + listed_from (is @ js) (length is)"
  by (simp add: listed_from_def)

lemma valid_from_append:
  "n \<le> length is \<Longrightarrow> valid_from is n \<Longrightarrow> valid_from (is @ js) (length is) \<Longrightarrow> valid_from (is @ js) n"
  unfolding valid_from_def by (fastforce simp: less_le_trans [OF _ le_add1])

lemma from_end [simp]:
  "dirs_from is (length is) = {#}" "listed_from is (length is) = {#}" "valid_from is (length is)"
  by (simp_all add: dirs_from_def listed_from_def valid_from_def)

definition shaped_node :: "'h build_state \<Rightarrow> nat \<times> 'h build_state \<Rightarrow> bool" where
  "shaped_node st r \<longleftrightarrow>
     (let n = length (bs_inodes st); is = bs_inodes (snd r) in
      n < length is \<and> listed_from is n = dirs_from is (Suc n) \<and> valid_from is n)"

definition shaped_entries ::
  "(u8 list \<times> src) list \<Rightarrow> dir_entry list \<Rightarrow> 'h build_state \<Rightarrow> dir_entry list \<times> 'h build_state \<Rightarrow> bool" where
  "shaped_entries es children st r \<longleftrightarrow>
     (let n = length (bs_inodes st); is = bs_inodes (snd r) in
      \<exists>new. fst r = children @ new \<and> map dn_name new = map (from_utf8_lossy \<circ> fst) es \<and>
        dir_indices new + listed_from is n = dirs_from is n \<and> valid_from is n \<and>
        (\<forall>de \<in> set new. dn_inode_idx de < length is))"

lemma dirs_from_Suc:
  "n < length is \<Longrightarrow> dirs_from is n = (if is_directory (is ! n) then {#n#} else {#}) + dirs_from is (Suc n)"
  by (simp add: dirs_from_def upt_conv_Cons)

lemma listed_from_Suc:
  "n < length is \<Longrightarrow> listed_from is n = mset (dir_child_indices (is ! n)) + listed_from is (Suc n)"
  by (simp add: listed_from_def Cons_nth_drop_Suc [symmetric])

lemma valid_from_Suc:
  "n < length is \<Longrightarrow> valid_from is n \<longleftrightarrow>
     inode_ok (is ! n) \<and> (\<forall>k \<in> set (child_indices (is ! n)). k < length is) \<and> valid_from is (Suc n)"
  by (simp add: valid_from_def Cons_nth_drop_Suc [symmetric])

text \<open>The segment after a directory does not depend on the entries recorded in it.\<close>

lemma from_update:
  assumes "n < m"
  shows "dirs_from (is[n := i]) m = dirs_from is m" "listed_from (is[n := i]) m = listed_from is m"
    "valid_from (is[n := i]) m = valid_from is m"
proof -
  have "filter (\<lambda>j. is_directory (is[n := i] ! j)) [m ..< length is] =
      filter (\<lambda>j. is_directory (is ! j)) [m ..< length is]"
    using assms by (intro filter_cong) auto
  then show "dirs_from (is[n := i]) m = dirs_from is m" by (simp add: dirs_from_def)
qed (use assms in \<open>simp_all add: listed_from_def valid_from_def\<close>)

lemma leaf_result:
  assumes "src_stat n = Some meta" and "\<not> is_dir meta" and "build_tree_recursive hash n st = Inr r"
    and "node_ok n"
  obtains i bw where "snd r = push_inode i (st\<lparr>bs_ino_counter := bs_ino_counter st + 1, bs_blob := bw\<rparr>)"
    and "\<not> is_directory i" and "inode_ok i"
proof -
  let ?plain = "\<lambda>dat. case dat of Directory _ _ _ _ \<Rightarrow> False | _ \<Rightarrow> True"
  let ?x = "read_xattrs_from_path n" and ?ino = "bs_ino_counter st + 1"
  let ?r = "\<lambda>bw i. push_inode i (st\<lparr>bs_ino_counter := ?ino, bs_blob := bw\<rparr>)"
  have ok: "inode_ok (new_inode meta ?ino sz dat ?x)"
    if "?plain dat" "unat sz < 2 ^ 32 \<or> sz = st_size meta" for sz dat
    using assms(4) that
    by (auto simp: inode_ok_def node_ok_def xattrs_fit_def dir_names_ok_def size_fits_def new_inode_def dir_bound_def
        split: inode_data.splits)
  have nd: "\<not> is_directory (new_inode meta ?ino sz dat ?x)" if "?plain dat" for sz dat
    using that by (simp add: is_directory_def new_inode_def split: inode_data.splits)
  note run = assms(3) [unfolded build_tree_recursive.simps assms(1) ok_or_simps and_then_simps Let_def]
  consider (a) "is_file meta" | (b) "\<not> is_file meta" "is_symlink meta" | (c) "\<not> is_file meta" "\<not> is_symlink meta"
    by blast
  then show ?thesis
  proof cases
    case a
    then obtain refs bw where "snd r = ?r bw (new_inode meta ?ino (st_size meta) (RegularFile refs) ?x)"
      using run assms(2) by (auto simp: and_then_Inr_iff)
    then show ?thesis by (rule that) (simp_all add: nd ok)
  next
    case b
    then obtain t where t: "src_target n = Some t"
      and r: "snd r = ?r (bs_blob st) (new_inode meta ?ino (word_of_nat (length t)) (Symlink t) ?x)"
      using run assms(2) by (cases "src_target n") auto
    have "length t < 4096" using assms(4) t by (simp add: node_ok_def)
    then have "unat (word_of_nat (length t) :: u64) < 2 ^ 32"
      by (simp add: unsigned_of_nat take_bit_nat_eq_self)
    then show ?thesis by (intro that [OF r]) (simp_all add: nd ok)
  next
    case c
    let ?dev = "(ucast (st_mode meta) :: u16) AND 0xF000 = 0x2000 \<or> (ucast (st_mode meta) :: u16) AND 0xF000 = 0x6000"
    have "snd r = ?r (bs_blob st) (new_inode meta ?ino 0
        (if ?dev then SpecialDev (ucast (st_rdev meta)) else SpecialNoData) ?x)"
      using c run assms(2) by auto
    then show ?thesis by (rule that) (simp_all add: nd ok)
  qed
qed

lemma shaped_leaf:
  assumes "src_stat n = Some meta" and "\<not> is_dir meta" and "build_tree_recursive hash n st = Inr r"
    and "node_ok n"
  shows "shaped_node st r"
proof -
  obtain i bw where r: "snd r = push_inode i (st\<lparr>bs_ino_counter := bs_ino_counter st + 1, bs_blob := bw\<rparr>)"
    and i: "\<not> is_directory i" "inode_ok i"
    by (rule leaf_result [OF assms])
  have "dir_child_indices i = []" "child_indices i = []"
    using i(1) by (auto simp: is_directory_def dir_child_indices_def child_indices_def split: inode_data.splits)
  then show ?thesis
    using i(2) from_end(1) [of "bs_inodes st @ [i]"]
    by (simp add: shaped_node_def r push_inode_def listed_from_def valid_from_def)
qed

lemma shaped_append:
  assumes "is = is1 @ js" and "n \<le> length is1"
    and "A + listed_from is1 n = dirs_from is1 n" and "B + listed_from is (length is1) = dirs_from is (length is1)"
  shows "A + B + listed_from is n = dirs_from is n"
proof -
  have l: "listed_from is n = listed_from is1 n + listed_from is (length is1)"
    unfolding assms(1) by (rule listed_from_append [OF assms(2)])
  have d: "dirs_from is n = dirs_from is1 n + dirs_from is (length is1)"
    unfolding assms(1) by (rule dirs_from_append [OF assms(2)])
  show ?thesis unfolding l d assms(3,4) [symmetric] by (simp only: ac_simps)
qed

lemma represents_is_directory:
  "represents cs f js n k \<Longrightarrow> src_stat n = Some meta \<Longrightarrow> is_directory (js ! k) = is_dir meta"
  by (erule represents.cases) (auto simp: leaf_not_directory, simp add: is_directory_def new_inode_def)

lemma shaped_child:
  assumes w: "walked hash C U chunksize c st (k, st1)" and sh: "shaped_node st (k, st1)"
    and meta: "src_stat c = Some meta"
    and de: "dn_file_type de = mode_to_file_type (ucast (st_mode meta))" "dn_inode_idx de = k"
  shows "dir_indices [de] + listed_from (bs_inodes st1) (length (bs_inodes st)) =
      dirs_from (bs_inodes st1) (length (bs_inodes st))"
    and "valid_from (bs_inodes st1) (length (bs_inodes st))" and "k < length (bs_inodes st1)"
proof -
  have k: "k = length (bs_inodes st)" "k < length (bs_inodes st1)"
    and rep: "represents (unat chunksize) (blob_fetch (bs_blob st1)) (bs_inodes st1) c k"
    using w agrees_self by (auto simp: walked_def)
  have "is_directory (bs_inodes st1 ! k) \<longleftrightarrow> dn_file_type de = EROFS_FT_DIR"
    using represents_is_directory [OF rep meta] by (simp only: de file_type_dir)
  then show "dir_indices [de] + listed_from (bs_inodes st1) (length (bs_inodes st)) =
      dirs_from (bs_inodes st1) (length (bs_inodes st))"
    using sh k by (simp add: shaped_node_def Let_def dirs_from_Suc de)
  show "valid_from (bs_inodes st1) (length (bs_inodes st))" "k < length (bs_inodes st1)"
    using sh k by (simp_all add: shaped_node_def Let_def)
qed

lemma shaped_entries_cons:
  assumes same: "bs_inodes st2 = bs_inodes st1" and ext: "extends st st2" and ext': "extends st2 (snd r)"
    and de: "dn_name de = from_utf8_lossy (fst e)" "dn_inode_idx de < length (bs_inodes st1)"
    and step: "dir_indices [de] + listed_from (bs_inodes st1) (length (bs_inodes st)) =
        dirs_from (bs_inodes st1) (length (bs_inodes st))"
      "valid_from (bs_inodes st1) (length (bs_inodes st))"
    and rest: "shaped_entries es (children @ [de]) st2 r"
  shows "shaped_entries (e # es) children st r"
proof -
  let ?is1 = "bs_inodes st1" and ?is = "bs_inodes (snd r)" and ?n = "length (bs_inodes st)"
  have le: "?n \<le> length ?is1" using extends_length [OF ext] same by simp
  obtain js where js: "?is = ?is1 @ js" using ext' same by (auto simp: extends_def)
  obtain new where new: "fst r = children @ de # new" "map dn_name new = map (from_utf8_lossy \<circ> fst) es"
    and multi: "dir_indices new + listed_from ?is (length ?is1) = dirs_from ?is (length ?is1)"
    and valid: "valid_from ?is (length ?is1)" "\<forall>de \<in> set new. dn_inode_idx de < length ?is"
    using rest by (auto simp: shaped_entries_def same Let_def)
  have "dir_indices (de # new) + listed_from ?is ?n = dirs_from ?is ?n"
    using shaped_append [OF js le step(1) multi] by simp
  moreover have "valid_from ?is ?n"
    using valid_from_append [OF le step(2)] valid(1) js by simp
  ultimately show ?thesis
    using new valid(2) de js by (auto simp: shaped_entries_def Let_def)
qed

lemma shaped_linked:
  assumes ext: "extends st (snd r)" and inv: "tree_inv hash C U chunksize st"
    and key: "link_key meta = Some key" "bs_hardlink_map st key = Some k"
    and rest: "shaped_entries es (children @ [entry_of name meta k]) st r"
  shows "shaped_entries ((name, c) # es) children st r"
proof -
  have k: "k < length (bs_inodes st)"
    using inv key(2) unfolding tree_inv_def links_inv_def by blast
  have "\<not> is_dir meta" using key(1) by (simp add: link_key_def split: if_splits)
  then have "mode_to_file_type (ucast (st_mode meta)) \<noteq> EROFS_FT_DIR" by (simp only: file_type_dir simp_thms)
  then show ?thesis
    using k by (intro shaped_entries_cons [OF refl extends_refl ext _ _ _ _ rest]) simp_all
qed

lemma shaped_walked:
  assumes c: "c \<in> U" "src_stat c = Some meta"
    and w: "walked hash C U chunksize c st (k, st1)" "shaped_node st (k, st1)"
    and ext: "extends (add_link (link_key meta) k st1) (snd r)"
    and rest: "shaped_entries es (children @ [entry_of name meta k]) (add_link (link_key meta) k st1) r"
  shows "shaped_entries ((name, c) # es) children st r"
proof -
  note child = shaped_child [OF w c(2), where de = "entry_of name meta k", simplified]
  show ?thesis
    by (rule shaped_entries_cons [OF add_link_simps(1) walked_add_link [OF w(1) c, THEN conjunct2] ext _ _ _ _ rest])
      (use child in simp_all)
qed

lemma shaped_dir:
  assumes ext: "extends st1 st2" and sh: "shaped_entries (by_name es) [] st1 (ch, st2)"
    and es: "src_entries n = Some es" and ok: "node_ok n"
    and st1: "bs_inodes st1 = bs_inodes st @ [new_inode meta ino 0 (Directory [] 0 0 0) (read_xattrs_from_path n)]"
  shows "shaped_node st (length (bs_inodes st), set_children (length (bs_inodes st)) ch st2)"
proof -
  let ?k = "length (bs_inodes st)" and ?x = "read_xattrs_from_path n"
  let ?j = "new_inode meta ino 0 (Directory ch 0 0 0) ?x" and ?is2 = "bs_inodes st2"
  have klt: "?k < length ?is2" using extends_length [OF ext] st1 by simp
  have at: "?is2 ! ?k = new_inode meta ino 0 (Directory [] 0 0 0) ?x"
    using extends_nth [OF ext, of ?k] by (simp add: st1)
  have s: "bs_inodes (set_children ?k ch st2) = ?is2[?k := ?j]"
    by (simp add: set_children_def at new_inode_def)
  have names: "map dn_name ch = map (from_utf8_lossy \<circ> fst) (by_name es)"
    and multi: "dir_indices ch + listed_from ?is2 (Suc ?k) = dirs_from ?is2 (Suc ?k)"
    and valid: "valid_from ?is2 (Suc ?k)" "\<forall>de \<in> set ch. dn_inode_idx de < length ?is2"
    using sh by (simp_all add: shaped_entries_def Let_def st1)
  have "dn_name de \<noteq> [] \<and> 0 \<notin> set (dn_name de) \<and> length (dn_name de) \<le> 4084" if de: "de \<in> set ch" for de
  proof -
    have "dn_name de \<in> set (map (from_utf8_lossy \<circ> fst) (by_name es))"
      using de unfolding names [symmetric] by simp
    then obtain e where e: "e \<in> set es" "dn_name de = from_utf8_lossy (fst e)"
      by (auto simp: by_name_def)
    then have "fst e \<noteq> []" "0 \<notin> set (fst e)" "length (fst e) \<le> 255"
      using ok es by (auto simp: node_ok_def)
    then show ?thesis using lossy_file_name [of "fst e"] e(2) by auto
  qed
  then have nm: "dir_names_ok ?j" by (simp add: dir_names_ok_def new_inode_def)
  have "length ch = length es"
    using arg_cong [OF names, of length] by (simp add: by_name_def)
  moreover have "length es + 2 < 2 ^ 20"
    using ok unfolding node_ok_def es by simp
  ultimately have "dir_bound ?j < 2 ^ 32" by (simp add: dir_bound_def new_inode_def)
  moreover have "xattrs_fit ?j" "size_fits ?j"
    using ok by (simp_all add: node_ok_def xattrs_fit_def size_fits_def new_inode_def)
  ultimately have jok: "inode_ok ?j" using nm by (simp add: inode_ok_def)
  have idx: "child_indices ?j = map dn_inode_idx ch" "mset (dir_child_indices ?j) = dir_indices ch"
    by (simp_all add: child_indices_def dir_child_indices_def dir_indices_def new_inode_def)
  have "listed_from (?is2[?k := ?j]) ?k = dirs_from (?is2[?k := ?j]) (Suc ?k)"
    using multi klt by (simp add: listed_from_Suc from_update idx del: mset_map)
  moreover have "valid_from (?is2[?k := ?j]) ?k"
    using valid klt jok by (simp add: valid_from_Suc from_update idx)
  ultimately show ?thesis
    using klt by (simp add: shaped_node_def s)
qed

text \<open>The shape is proved together with the representation, which gives that states extend each other.\<close>

definition well_shaped ::
  "(u8 list \<Rightarrow> 'h) \<Rightarrow> u8 list set \<Rightarrow> src set \<Rightarrow> u32 \<Rightarrow> src \<Rightarrow> 'h build_state \<Rightarrow> nat \<Rightarrow> 'h build_state \<Rightarrow> bool" where
  "well_shaped hash C U chunksize n st k st' \<longleftrightarrow>
     walked hash C U chunksize n st (k, st') \<and> shaped_node st (k, st')"

definition well_entered ::
  "(u8 list \<Rightarrow> 'h) \<Rightarrow> u8 list set \<Rightarrow> src set \<Rightarrow> u32 \<Rightarrow> (u8 list \<times> src) list \<Rightarrow> dir_entry list \<Rightarrow> 'h build_state \<Rightarrow>
     dir_entry list \<Rightarrow> 'h build_state \<Rightarrow> bool" where
  "well_entered hash C U chunksize es children st ch st' \<longleftrightarrow>
     entered hash C U chunksize es children st (ch, st') \<and> shaped_entries es children st (ch, st')"

lemma entered_extends: "entered hash C U chunksize es children st r \<Longrightarrow> extends st (snd r)"
  by (simp add: entered_def)

interpretation shape: tree_walk hash "\<lambda>n. source_ok (unat chunksize) C U \<and> n \<in> U \<and> (\<forall>n \<in> U. node_ok n)"
  "tree_inv hash C U chunksize" "well_shaped hash C U chunksize" "well_entered hash C U chunksize"
  for hash :: "u8 list \<Rightarrow> 'h" and C U chunksize
proof unfold_locales
  fix n and e :: "u8 list \<times> src" and es
  assume "source_ok (unat chunksize) C U \<and> n \<in> U \<and> (\<forall>n \<in> U. node_ok n)" and "src_entries n = Some es" and "e \<in> set es"
  then show "source_ok (unat chunksize) C U \<and> snd e \<in> U \<and> (\<forall>n \<in> U. node_ok n)" by (auto dest: source_ok_entries)
next
  fix n meta k and st st' :: "'h build_state"
  assume "source_ok (unat chunksize) C U \<and> n \<in> U \<and> (\<forall>n \<in> U. node_ok n)" "tree_inv hash C U chunksize st"
    "src_stat n = Some meta" "\<not> is_dir meta" "build_tree_recursive hash n st = Inr (k, st')"
  then show "well_shaped hash C U chunksize n st k st'"
    by (auto simp: well_shaped_def intro: walk_leaf_node shaped_leaf)
next
  fix n meta es ch and st st2 :: "'h build_state"
  assume n: "source_ok (unat chunksize) C U \<and> n \<in> U \<and> (\<forall>n \<in> U. node_ok n)" "tree_inv hash C U chunksize st"
    "src_stat n = Some meta" "is_dir meta" "src_entries n = Some es"
    and ent: "well_entered hash C U chunksize (by_name es) [] (dir_pushed n meta st) ch st2"
  have e: "entered hash C U chunksize (by_name es) [] (dir_pushed n meta st) (ch, st2)"
    and s: "shaped_entries (by_name es) [] (dir_pushed n meta st) (ch, st2)"
    using ent by (simp_all add: well_entered_def)
  have "node_ok n" using n(1) by blast
  note shaped_dir [OF entered_extends [OF e, unfolded snd_conv] s n(5) this dir_pushed_simps(3)]
  then show "well_shaped hash C U chunksize n st (length (bs_inodes st)) (set_children (length (bs_inodes st)) ch st2)"
    using walk_dir_node [OF n(2-5) e] by (simp add: well_shaped_def)
next
  fix st :: "'h build_state" and children
  assume "tree_inv hash C U chunksize st"
  then show "well_entered hash C U chunksize [] children st children st"
    using represent.walk_none by (simp add: well_entered_def shaped_entries_def)
next
  fix c meta key k es name children ch and st st' :: "'h build_state"
  assume "source_ok (unat chunksize) C U \<and> c \<in> U \<and> (\<forall>n \<in> U. node_ok n)" "tree_inv hash C U chunksize st"
    "src_stat c = Some meta" "link_key meta = Some key" "bs_hardlink_map st key = Some k"
    "well_entered hash C U chunksize es (children @ [entry_of name meta k]) st ch st'"
  then show "well_entered hash C U chunksize ((name, c) # es) children st ch st'"
    by (auto simp: well_entered_def intro: entered_linked shaped_linked entered_extends)
next
  fix c meta k es name children ch and st st1 st' :: "'h build_state"
  assume "source_ok (unat chunksize) C U \<and> c \<in> U \<and> (\<forall>n \<in> U. node_ok n)" "tree_inv hash C U chunksize st"
    "src_stat c = Some meta" "well_shaped hash C U chunksize c st k st1"
    "well_entered hash C U chunksize es (children @ [entry_of name meta k]) (add_link (link_key meta) k st1) ch st'"
  then show "well_entered hash C U chunksize ((name, c) # es) children st ch st'"
    by (auto simp: well_entered_def well_shaped_def intro: entered_child shaped_walked entered_extends)
qed (auto simp: well_shaped_def dir_pushed_inv walked_add_link)

subsection \<open>A whole walk\<close>

definition source_valid :: "(u8 list \<Rightarrow> 'h) \<Rightarrow> nat \<Rightarrow> src set \<Rightarrow> src \<Rightarrow> bool" where
  \<comment> \<open>a source directory with its nodes \<open>U\<close>, on whose chunks the hash has no collision\<close>
  "source_valid hash cs U source \<longleftrightarrow>
     source \<in> U \<and> (\<forall>n \<in> U. node_ok n) \<and>
     (\<exists>C. source_ok cs C U \<and> inj_on hash C) \<and>
     (\<exists>meta. src_stat source = Some meta \<and> is_dir meta)"

lemma shaped_tree_like:
  assumes "shaped_node \<lparr>bs_blob = b, bs_inodes = [], bs_ino_counter = c, bs_hardlink_map = l\<rparr> (k, st)"
  shows "tree_like (bs_inodes st)" and "\<forall>i \<in> set (bs_inodes st). inode_ok i"
proof -
  let ?is = "bs_inodes st" and ?ks = "concat (map dir_child_indices (bs_inodes st))"
  have len: "0 < length ?is" and m: "mset ?ks = mset (filter (\<lambda>j. is_directory (?is ! j)) [1 ..< length ?is])"
    and valid: "valid_from ?is 0"
    using assms by (simp_all add: shaped_node_def Let_def listed_from_def dirs_from_def del: mset_filter)
  have "distinct ?ks" using m by (metis mset_eq_imp_distinct_iff distinct_filter distinct_upt)
  moreover have "set ?ks = {k. 0 < k \<and> k < length ?is \<and> is_directory (?is ! k)}"
    unfolding mset_eq_setD [OF m] by auto
  ultimately show "tree_like ?is"
    using len valid unfolding tree_like_def links_valid_def valid_from_def by (simp only: drop_0) auto
  show "\<forall>i \<in> set ?is. inode_ok i" using valid by (simp add: valid_from_def)
qed

lemma build_tree_valid:
  assumes src: "source_valid hash (unat chunksize) U source" and cs: "0 < chunksize" and room: "room \<le> 2 ^ 60"
    and run: "build_tree hash source (blob_writer_new room chunksize) = Inr (inodes, bw)"
  shows "represents (unat chunksize) (blob_fetch bw) inodes source 0"
    and "tree_like inodes" and "is_directory (inodes ! 0)" and "\<forall>i \<in> set inodes. inode_ok i"
    and "\<forall>k < length inodes. ii_ino (inodes ! k) = word_of_nat (Suc k)"
    and "sink_capacity (bw_file bw) \<le> 2 ^ 60"
    and "length (sink_data (bw_file bw)) = 4096 * unat (bw_total_blocks bw)"
proof -
  let ?st = "\<lparr>bs_blob = blob_writer_new room chunksize, bs_inodes = [], bs_ino_counter = 0,
    bs_hardlink_map = (\<lambda>_. None)\<rparr>"
  obtain C meta where U: "source \<in> U" "\<forall>n \<in> U. node_ok n" and ok: "source_ok (unat chunksize) C U" "inj_on hash C"
    and meta: "src_stat source = Some meta" "is_dir meta"
    using src unfolding source_valid_def by blast
  obtain k st where r: "build_tree_recursive hash source ?st = Inr (k, st)"
    and out: "inodes = bs_inodes st" "bw = bs_blob st"
    using run by (auto simp: build_tree_def and_then_Inr_iff)
  have inv: "tree_inv hash C U chunksize ?st"
    using ok(2) room cs by (simp add: tree_inv_def blob_inv_def blob_writer_new_def sink_capacity_def links_inv_def)
  have w: "walked hash C U chunksize source ?st (k, st)"
    by (rule represent.node_walked [OF _ inv r]) (simp add: ok(1) U(1))
  then have k: "k = 0" and rep: "represents (unat chunksize) (blob_fetch (bs_blob st)) (bs_inodes st) source k"
    using agrees_self by (auto simp: walked_def)
  have "well_shaped hash C U chunksize source ?st k st"
    by (rule shape.node_walked [OF _ inv r]) (simp add: ok(1) U)
  then have sh: "shaped_node ?st (k, st)" by (simp add: well_shaped_def)
  show "represents (unat chunksize) (blob_fetch bw) inodes source 0" using rep by (simp add: out k)
  show "is_directory (inodes ! 0)"
    using represents_is_directory [OF rep meta(1)] meta(2) by (simp add: out k)
  show "tree_like inodes" "\<forall>i \<in> set inodes. inode_ok i"
    using shaped_tree_like [OF sh] by (simp_all add: out)
  show "\<forall>k < length inodes. ii_ino (inodes ! k) = word_of_nat (Suc k)"
    using w by (simp add: walked_def tree_inv_def out)
  show "sink_capacity (bw_file bw) \<le> 2 ^ 60" "length (sink_data (bw_file bw)) = 4096 * unat (bw_total_blocks bw)"
    using w by (simp_all add: walked_def tree_inv_def blob_inv_def bw_total_blocks_def out)
qed

subsection \<open>Properties\<close>

text \<open>C18: The walk represents the source. A successful walk produces a list of inodes numbered 1, 2, 3,
  ... that represents the source tree, names, types, metadata, attributes, targets and the contents of
  files in the blob included, in which a further hard link names the inode of the first.\<close>

theorem walk_represents_source:
  assumes "source_valid hash (unat chunksize) U source" and "0 < chunksize" and "room \<le> 2 ^ 60"
    and "build_tree hash source (blob_writer_new room chunksize) = Inr (inodes, bw)"
  shows "represents (unat chunksize) (blob_fetch bw) inodes source 0 \<and>
    (\<forall>k < length inodes. ii_ino (inodes ! k) = word_of_nat (Suc k))"
  using build_tree_valid [OF assms] by blast

text \<open>C19: The walk builds a tree. In the list a successful walk produces, every child index is in range,
  every directory but the root is listed by exactly one directory, and every inode has names,
  attributes and sizes that the format can hold.\<close>

theorem walk_builds_tree:
  assumes "source_valid hash (unat chunksize) U source" and "0 < chunksize" and "room \<le> 2 ^ 60"
    and "build_tree hash source (blob_writer_new room chunksize) = Inr (inodes, bw)"
  shows "tree_like inodes \<and> is_directory (inodes ! 0) \<and> (\<forall>i \<in> set inodes. inode_ok i)"
  using build_tree_valid [OF assms] by blast

end
