(* ===== verification/Build_Size.thy ===== *)
theory Build_Size
  imports Build_Spec
begin

text \<open>
  How much metadata a source takes, computed from the source alone: for every node its inode with
  attributes and chunk references or target, and for a directory a block for each entry. The walk
  stays within this bound, whatever is stored only once or linked twice; so the conditions on the
  size of an image are conditions on the source.
\<close>

subsection \<open>Bytes of a node\<close>

definition node_bytes :: "nat \<Rightarrow> file_stat \<Rightarrow> src \<Rightarrow> nat" where
  "node_bytes cs meta n =
     EROFS_INODE_EXTENDED_SIZE + xattr_ibody_size (read_xattrs_from_path n) + (EROFS_SLOTSIZE - 1) +
     (if is_dir meta then 4096 * ((case src_entries n of Some es \<Rightarrow> length es | None \<Rightarrow> 0) + 2)
      else if is_file meta then EROFS_CHUNK_INDEX_SIZE * div_ceil (unat (st_size meta)) cs
      else if is_symlink meta then (case src_target n of Some t \<Rightarrow> length t | None \<Rightarrow> 0)
      else 0)"

function tree_bytes :: "nat \<Rightarrow> src \<Rightarrow> nat" where
  "tree_bytes cs n =
     (case src_stat n of
        None \<Rightarrow> 0
      | Some meta \<Rightarrow>
          node_bytes cs meta n +
          (if is_dir meta then
             (case src_entries n of
                None \<Rightarrow> 0
              | Some es \<Rightarrow> sum_list (map (\<lambda>e. tree_bytes cs (snd e)) es))
           else 0))"
  by pat_completeness auto

termination
  by (relation "measure (\<lambda>(cs, n). size n)") (use size_child in \<open>simp_all add: split_paired_all\<close>)

declare tree_bytes.simps [simp del]

definition metadata_size :: "nat \<Rightarrow> src \<Rightarrow> nat" where
  \<comment> \<open>the block before the inodes included\<close>
  "metadata_size cs source = 4096 + tree_bytes cs source"

subsection \<open>Bytes of an inode list\<close>

definition list_bytes :: "inode_info list \<Rightarrow> nat" where
  "list_bytes is = sum_list (map (\<lambda>i. slot_size i + dir_bound i) is)"

lemma list_bytes_simps [simp]:
  "list_bytes [] = 0" "list_bytes (i # is) = slot_size i + dir_bound i + list_bytes is"
  "list_bytes (is @ js) = list_bytes is + list_bytes js"
  by (simp_all add: list_bytes_def)

lemma metadata_bound_bytes: "metadata_bound is = 4096 + list_bytes is"
  by (induction "is") (simp_all add: metadata_bound_def)

definition payload_bytes :: "inode_data \<Rightarrow> nat" where
  "payload_bytes dat =
     (case dat of
        RegularFile refs \<Rightarrow> EROFS_CHUNK_INDEX_SIZE * length refs
      | Directory ch _ _ _ \<Rightarrow> 4096 * (length ch + 2)
      | Symlink t \<Rightarrow> length t
      | _ \<Rightarrow> 0)"

lemma new_inode_bytes:
  "slot_size (new_inode meta ino sz dat xs) + dir_bound (new_inode meta ino sz dat xs) \<le>
     EROFS_INODE_EXTENDED_SIZE + xattr_ibody_size xs + (EROFS_SLOTSIZE - 1) + payload_bytes dat"
proof -
  let ?i = "new_inode meta ino sz dat xs"
  have "slot_size ?i \<le> inode_meta_size ?i + 31"
    using pad_len_less [of 32 "inode_meta_size ?i"] by (simp add: slot_size_def)
  moreover have "inode_meta_size ?i + dir_bound ?i \<le> 64 + xattr_ibody_size xs + payload_bytes dat"
    by (cases dat) (simp_all add: inode_meta_size_def inode_base_def dir_bound_def payload_bytes_def new_inode_def Let_def)
  ultimately show ?thesis by simp
qed

lemma store_seq_length: "store_seq store s cs = Inr (as, s') \<Longrightarrow> length as = length cs"
  by (induction cs arbitrary: s as) (auto simp: and_then_Inr_iff)

lemma write_file_refs:
  assumes "0 < bw_chunksize bw" and "write_file_chunks hash bw content fs = Inr (refs, bw')"
  shows "length refs = div_ceil (unat fs) (unat (bw_chunksize bw)) \<and> bw_chunksize bw' = bw_chunksize bw"
proof (cases "fs = 0")
  case True
  then show ?thesis using assms(2) by (simp add: write_file_chunks_def div_ceil_def)
next
  case False
  then obtain f where f: "content = Some f" using assms(2) by (cases content) (simp_all add: write_file_chunks_def)
  have le: "unat fs \<le> length f" by (rule write_file_enough [OF assms(1) assms(2) [unfolded f] False])
  have pos: "0 < unat (bw_chunksize bw)" using assms(1) by (simp add: word_less_nat_alt)
  obtain as where st: "store_seq (store_chunk hash) bw (split_chunks (unat (bw_chunksize bw)) (take (unat fs) f)) = Inr (as, bw')"
    and refs: "refs = device_refs as"
    using assms(2) write_file_chunks_eq [OF assms(1) le, of hash] by (auto simp: f)
  show ?thesis
    using store_seq_length [OF st] store_seq_chunksize [OF st] le pos by (simp add: refs length_split_chunks)
qed

subsection \<open>The walk\<close>

definition adds :: "nat \<Rightarrow> nat \<Rightarrow> 'h build_state \<Rightarrow> 'h build_state \<Rightarrow> bool" where
  \<comment> \<open>a step that adds inodes of at most \<open>b\<close> bytes, when the chunks have \<open>cs\<close> bytes\<close>
  "adds cs b st st' \<longleftrightarrow>
     0 < cs \<longrightarrow> unat (bw_chunksize (bs_blob st)) = cs \<longrightarrow>
       unat (bw_chunksize (bs_blob st')) = cs \<and>
       (\<exists>new. bs_inodes st' = bs_inodes st @ new \<and> list_bytes new \<le> b)"

lemma adds_refl: "adds cs 0 st st"
  by (simp add: adds_def)

lemma adds_trans: "adds cs a st st1 \<Longrightarrow> adds cs b st1 st2 \<Longrightarrow> adds cs (a + b) st st2"
  by (force simp: adds_def)

lemma adds_push:
  assumes "unat (bw_chunksize (bs_blob st)) = cs \<longrightarrow> 0 < cs \<longrightarrow> unat (bw_chunksize (bs_blob st')) = cs"
    and "bs_inodes st' = bs_inodes st"
    and "unat (bw_chunksize (bs_blob st)) = cs \<longrightarrow> 0 < cs \<longrightarrow>
      EROFS_INODE_EXTENDED_SIZE + xattr_ibody_size xs + (EROFS_SLOTSIZE - 1) + payload_bytes dat \<le> b"
  shows "adds cs b st (push_inode (new_inode meta ino sz dat xs) st')"
  using assms new_inode_bytes [of meta ino sz dat xs] by (auto simp: adds_def push_inode_def)

lemma tree_bytes_dir:
  assumes "src_stat n = Some meta" and "is_dir meta" and "src_entries n = Some es"
  shows "tree_bytes cs n = EROFS_INODE_EXTENDED_SIZE + xattr_ibody_size (read_xattrs_from_path n) + (EROFS_SLOTSIZE - 1) +
    4096 * (length es + 2) + sum_list (map (\<lambda>e. tree_bytes cs (snd e)) (by_name es))"
proof -
  have "mset (map (\<lambda>e. tree_bytes cs (snd e)) (by_name es)) = mset (map (\<lambda>e. tree_bytes cs (snd e)) es)"
    by (simp add: by_name_def)
  then have "sum_list (map (\<lambda>e. tree_bytes cs (snd e)) (by_name es)) = sum_list (map (\<lambda>e. tree_bytes cs (snd e)) es)"
    by (metis sum_mset_sum_list)
  then show ?thesis using assms by (simp add: tree_bytes.simps [of cs n] node_bytes_def)
qed

lemma adds_directory:
  assumes n: "src_stat n = Some meta" "is_dir meta" "src_entries n = Some es" and ch: "length ch = length es"
    and kids: "adds cs (sum_list (map (\<lambda>e. tree_bytes cs (snd e)) (by_name es))) (dir_pushed n meta st) st2"
  shows "adds cs (tree_bytes cs n) st (set_children (length (bs_inodes st)) ch st2)"
proof -
  let ?ino = "bs_ino_counter st + 1" and ?xs = "read_xattrs_from_path n"
  let ?i = "new_inode meta ?ino 0 (Directory [] 0 0 0) ?xs" and ?j = "new_inode meta ?ino 0 (Directory ch 0 0 0) ?xs"
  let ?st' = "set_children (length (bs_inodes st)) ch st2"
  have "unat (bw_chunksize (bs_blob ?st')) = cs \<and>
      (\<exists>new. bs_inodes ?st' = bs_inodes st @ new \<and> list_bytes new \<le> tree_bytes cs n)"
    if cs: "0 < cs" "unat (bw_chunksize (bs_blob st)) = cs"
  proof -
    obtain new where new: "bs_inodes st2 = bs_inodes st @ ?i # new" "unat (bw_chunksize (bs_blob st2)) = cs"
      "list_bytes new \<le> sum_list (map (\<lambda>e. tree_bytes cs (snd e)) (by_name es))"
      using kids cs by (auto simp: adds_def)
    then have "bs_inodes ?st' = bs_inodes st @ ?j # new" and "bs_blob ?st' = bs_blob st2"
      by (simp_all add: set_children_def new_inode_def list_update_append)
    moreover have "list_bytes (?j # new) \<le> tree_bytes cs n"
      using new_inode_bytes [of meta ?ino 0 "Directory ch 0 0 0" ?xs] new(3) ch
      by (simp add: payload_bytes_def tree_bytes_dir [OF n])
    ultimately show ?thesis using new(2) by auto
  qed
  then show ?thesis by (simp add: adds_def)
qed

lemma adds_leaf:
  assumes meta: "src_stat n = Some meta" "\<not> is_dir meta" and run: "build_tree_recursive hash n st = Inr (k, st')"
  shows "adds cs (tree_bytes cs n) st st'"
proof -
  note step = run [unfolded build_tree_recursive.simps meta ok_or_simps and_then_simps Let_def]
  let ?st = "st\<lparr>bs_ino_counter := bs_ino_counter st + 1\<rparr>" and ?x = "read_xattrs_from_path n"
  have stay: "adds cs b ?st st'' = adds cs b st st''" for b and st'' :: "'a build_state" by (simp add: adds_def)
  note bytes = tree_bytes.simps [of cs n] node_bytes_def meta
  consider (reg) "is_file meta" | (link) "\<not> is_file meta" "is_symlink meta" | (other) "\<not> is_file meta" "\<not> is_symlink meta"
    by blast
  then show ?thesis
  proof cases
    case reg
    then obtain refs bw where w: "write_file_chunks hash (bs_blob st) (src_content n) (st_size meta) = Inr (refs, bw)"
      and st': "st' = push_inode (new_inode meta (bs_ino_counter st + 1) (st_size meta) (RegularFile refs) ?x)
        (?st\<lparr>bs_blob := bw\<rparr>)"
      using step meta(2) by (auto simp: and_then_Inr_iff)
    have "length refs = div_ceil (unat (st_size meta)) cs \<and> bw_chunksize bw = bw_chunksize (bs_blob st)"
      if "unat (bw_chunksize (bs_blob st)) = cs" "0 < cs"
      using write_file_refs [OF _ w] that by (simp add: word_less_nat_alt)
    then show ?thesis
      unfolding st' using reg meta(2) by (intro adds_push) (simp_all add: bytes payload_bytes_def)
  next
    case link
    then obtain t where t: "src_target n = Some t" using step meta(2) by (cases "src_target n") auto
    then show ?thesis
      using step link meta(2) by (auto intro!: adds_push simp: bytes payload_bytes_def)
  next
    case other
    then show ?thesis
      using step meta(2) by (auto intro!: adds_push simp: bytes payload_bytes_def Let_def)
  qed
qed

interpretation metadata_account: walk_account hash "adds cs" "tree_bytes cs"
  "\<lambda>es. sum_list (map (\<lambda>e. tree_bytes cs (snd e)) es)" "\<lambda>_. True"
  for hash :: "u8 list \<Rightarrow> 'h" and cs
proof unfold_locales
  fix c :: src and meta key k and es :: "(u8 list \<times> src) list" and st st' :: "'h build_state" and name :: "u8 list"
  assume "adds cs (sum_list (map (\<lambda>e. tree_bytes cs (snd e)) es)) st st'"
  then show "adds cs (sum_list (map (\<lambda>e. tree_bytes cs (snd e)) ((name, c) # es))) st st'" by (auto simp: adds_def)
next
  fix c :: src and meta k and es :: "(u8 list \<times> src) list" and st st1 st' :: "'h build_state" and name :: "u8 list"
  assume "adds cs (tree_bytes cs c) st st1"
    and rest: "adds cs (sum_list (map (\<lambda>e. tree_bytes cs (snd e)) es)) (add_link (link_key meta) k st1) st'"
  then have "adds cs (tree_bytes cs c) st (add_link (link_key meta) k st1)" by (simp add: adds_def)
  from adds_trans [OF this rest] show "adds cs (sum_list (map (\<lambda>e. tree_bytes cs (snd e)) ((name, c) # es))) st st'" by simp
qed (auto intro: adds_leaf adds_directory adds_refl)

lemma tree_within_size:
  assumes "build_tree hash source (blob_writer_new room chunksize) = Inr (inodes, bw)" and "0 < unat chunksize"
  shows "metadata_bound inodes \<le> metadata_size (unat chunksize) source"
proof -
  obtain st where "adds (unat chunksize) (tree_bytes (unat chunksize) source)
      \<lparr>bs_blob = blob_writer_new room chunksize, bs_inodes = [], bs_ino_counter = 0, bs_hardlink_map = (\<lambda>_. None)\<rparr> st"
    and "inodes = bs_inodes st" and "bw = bs_blob st"
    by (rule metadata_account.build_accounts [where cs = "unat chunksize", OF TrueI assms(1)])
  then show ?thesis using assms(2) by (auto simp: adds_def blob_writer_new_def metadata_bound_bytes metadata_size_def)
qed

end
