(* ===== verification/Roundtrip.thy ===== *)
theory Roundtrip
  imports Build_Size Mkfs
begin

text \<open>
  From the source tree to the reader: the image that \<^verbatim>\<open>mkfs\<close> writes, opened by \<open>reader_open\<close>, shows
  every node of the source with its metadata, its attributes and its contents, and every directory
  with its entries in order, the number of its parent under \<open>..\<close> included. The relation \<open>presents\<close>
  says what that means through the operations of the reader alone.
\<close>

unbundle bit_operations_syntax

subsection \<open>An image with its inodes\<close>

definition dir_stored :: "erofs_reader \<Rightarrow> inode_info list \<Rightarrow> inode_info \<Rightarrow> bool" where
  "dir_stored r final i \<longleftrightarrow>
     (\<exists>ch sb sz p. ii_data i = Directory ch sb sz p \<and> unat sb < 2 ^ 48 \<and>
        stored r (sb * 4096) (concat (map block_image (dir_blocks_of (inode_entries final i)))) \<and>
        unat (ii_size i) = length (concat (map block_image (dir_blocks_of (inode_entries final i)))))"

definition holds_image :: "erofs_reader \<Rightarrow> inode_info list \<Rightarrow> u64 \<Rightarrow> u32 \<Rightarrow> bool" where
  \<comment> \<open>the mapped image holds these inodes and directories\<close>
  "holds_image r final epoch chunkbits \<longleftrightarrow>
     sb_blkszbits (reader_sb r) = EROFS_BLKSZBITS \<and>
     (\<forall>k < length final.
        stored r (nid_to_offset r (ii_nid (final ! k))) (inode_image (final ! k) epoch chunkbits) \<and>
        unat (nid_to_offset r (ii_nid (final ! k))) + 64 \<le> length (rd_mmap r)) \<and>
     (\<forall>k < length final. is_directory (final ! k) \<longrightarrow> dir_stored r final (final ! k))"

lemma stored_image:
  assumes "length uuid = 16" and "small_image buf" and "off + length bs \<le> length buf"
    and "bytes_at off (length bs) buf = bs" and "unat o64 = 4096 + off"
  shows "stored (image_reader (image_bytes buf root_nid inos epoch blocks uuid) b) o64 bs"
proof -
  let ?im = "image_bytes buf root_nid inos epoch blocks uuid"
  have "pad_len (length buf) 4096 < 4096" by (rule pad_len_less) simp
  then have len: "length ?im < 2 ^ 64"
    using assms(2) by (simp add: image_bytes_def length_block0 [OF assms(1)] small_image_def)
  have "bytes_at (4096 + off) (length bs) ?im = bs"
    using assms by (simp add: image_bytes_def bytes_at_append_right length_block0 bytes_at_append_left)
  then show ?thesis
    using len assms by (simp add: stored_def image_reader_def image_bytes_def length_block0)
qed

lemma image_holds:
  assumes uuid: "length uuid = 16" and laid: "laid_out inodes final buf epoch chunkbits"
    and bound: "metadata_bound inodes \<le> 2 ^ 59" and small: "\<forall>i \<in> set final. xattrs_small i"
  shows "holds_image (image_reader (image_bytes buf root_nid inos epoch blocks uuid) b) final epoch chunkbits"
proof -
  let ?r = "image_reader (image_bytes buf root_nid inos epoch blocks uuid) b"
  have len: "length buf \<le> 2 ^ 59" using laid bound by (simp add: laid_out_def)
  then have sm: "small_image buf" by (simp add: small_image_def)
  note st = stored_image [OF uuid sm]
  have "stored ?r (nid_to_offset ?r (ii_nid i)) (inode_image i epoch chunkbits) \<and>
      unat (nid_to_offset ?r (ii_nid i)) + 64 \<le> length (rd_mmap ?r)"
    if i: "i \<in> set final" "inode_at buf epoch chunkbits i" for i
  proof -
    have at: "32 * unat (ii_nid i) + max (inode_meta_size i) 64 \<le> length buf"
      "bytes_at (32 * unat (ii_nid i)) (inode_meta_size i) buf = inode_image i epoch chunkbits"
      using i(2) by (simp_all add: inode_at_def)
    have il: "length (inode_image i epoch chunkbits) = inode_meta_size i"
      using small i(1) by (simp add: length_inode_image)
    have off: "unat (nid_to_offset ?r (ii_nid i)) = 4096 + 32 * unat (ii_nid i)"
      using at(1) len by (intro nid_to_offset_image [OF uuid]) simp
    have "stored ?r (nid_to_offset ?r (ii_nid i)) (inode_image i epoch chunkbits)"
      using at by (intro st [where off = "32 * unat (ii_nid i)"]) (simp_all add: il off)
    moreover have "unat (nid_to_offset ?r (ii_nid i)) + 64 \<le> length (rd_mmap ?r)"
      unfolding off using at(1) by (simp add: image_reader_def image_bytes_def length_block0 [OF uuid])
    ultimately show ?thesis by blast
  qed
  moreover have "dir_stored ?r final i" if at: "dir_at buf final i" for i
  proof -
    obtain ch sb sz p where d: "ii_data i = Directory ch sb sz p"
      and sb: "4096 \<le> 4096 * unat sb"
      and inb: "4096 * unat sb - 4096 + length (concat (map block_image (dir_blocks_of (inode_entries final i)))) \<le> length buf"
      and got: "bytes_at (4096 * unat sb - 4096) (length (concat (map block_image (dir_blocks_of (inode_entries final i))))) buf =
        concat (map block_image (dir_blocks_of (inode_entries final i)))"
      and sz: "unat (ii_size i) = length (concat (map block_image (dir_blocks_of (inode_entries final i))))"
      using at unfolding dir_at_def Let_def by blast
    have "4096 * unat sb \<le> 2 ^ 59 + 4096" using inb len by linarith
    then have sb48: "unat sb < 2 ^ 48" by simp
    have "unat (sb * 4096) = 4096 + (4096 * unat sb - 4096)"
      using sb48 sb by (simp add: unat_word_ariths)
    then have "stored ?r (sb * 4096) (concat (map block_image (dir_blocks_of (inode_entries final i))))"
      by (rule st [OF inb got])
    then show ?thesis using d sz sb48 by (auto simp: dir_stored_def)
  qed
  ultimately show ?thesis
    using laid by (simp add: holds_image_def laid_out_def image_reader_sb [OF uuid] image_superblock_def superblock_new_def)
qed

subsection \<open>What the reader shows\<close>

definition stat_shown :: "erofs_reader \<Rightarrow> file_stat \<Rightarrow> erofs_inode \<Rightarrow> bool" where
  \<comment> \<open>a compact inode keeps 32 bits of the distance of the time from the epoch\<close>
  "stat_shown r meta i \<longleftrightarrow>
     inode_mode i = ucast (st_mode meta) \<and> inode_uid i = st_uid meta \<and> inode_gid i = st_gid meta \<and>
     inode_nlink i = ucast (st_nlink meta) \<and>
     (\<not> inode_is_compact i \<or> unat (st_mtime meta - superblock_epoch (reader_sb r)) < 2 ^ 32 \<longrightarrow>
        inode_mtime i (superblock_epoch (reader_sb r)) = st_mtime meta)"

definition content_shown :: "erofs_reader \<Rightarrow> src \<Rightarrow> u64 \<Rightarrow> file_stat \<Rightarrow> erofs_inode \<Rightarrow> bool" where
  "content_shown r n nid meta i \<longleftrightarrow>
     (if is_file meta then
        inode_size i = st_size meta \<and>
        (\<exists>content. length content = unat (st_size meta) \<and>
           (st_size meta = 0 \<or> (\<exists>f. src_content n = Some f \<and> content = take (unat (st_size meta)) f)) \<and>
           (\<forall>offset len. read_file_data r nid i offset len = Inr (bytes_at (unat offset) (unat len) content)))
      else if is_symlink meta then
        \<exists>t. src_target n = Some t \<and> inode_size i = word_of_nat (length t) \<and> read_symlink r nid i = Inr t
      else
        inode_size i = 0 \<and>
        (mode_to_file_type (ucast (st_mode meta)) \<in> {EROFS_FT_CHRDEV, EROFS_FT_BLKDEV} \<longrightarrow>
           inode_rdev i = ucast (st_rdev meta)))"

definition node_shown :: "erofs_reader \<Rightarrow> src \<Rightarrow> u64 \<Rightarrow> file_stat \<Rightarrow> erofs_inode \<Rightarrow> bool" where
  "node_shown r n nid meta i \<longleftrightarrow>
     reader_inode r nid = Inr i \<and> stat_shown r meta i \<and>
     read_xattrs r nid i = Inr (xattr_pairs (read_xattrs_from_path n))"

text \<open>\<open>p\<close> is the number of the directory that lists the node; it matters for directories only.\<close>

inductive presents :: "erofs_reader \<Rightarrow> u64 \<Rightarrow> src \<Rightarrow> u64 \<Rightarrow> bool" for r where
  leaf: "src_stat n = Some meta \<Longrightarrow> \<not> is_dir meta \<Longrightarrow> node_shown r n nid meta i \<Longrightarrow>
     content_shown r n nid meta i \<Longrightarrow> presents r p n nid"
| dir: "src_stat n = Some meta \<Longrightarrow> is_dir meta \<Longrightarrow> src_entries n = Some es \<Longrightarrow> node_shown r n nid meta i \<Longrightarrow>
     read_dir_cached r nid i = Inr ((bytes ''.'', nid, EROFS_FT_DIR) # (bytes ''..'', p, EROFS_FT_DIR) # ents) \<Longrightarrow>
     list_all2 (\<lambda>e x. fst x = from_utf8_lossy (fst e) \<and>
       (\<exists>m. src_stat (snd e) = Some m \<and> snd (snd x) = mode_to_file_type (ucast (st_mode m))) \<and>
       presents r nid (snd e) (fst (snd x))) (by_name es) ents \<Longrightarrow>
     presents r p n nid"

inductive_cases presents_cases: "presents r p n nid"

subsection \<open>One inode\<close>

definition built_from :: "inode_info \<Rightarrow> inode_info \<Rightarrow> bool" where
  \<comment> \<open>the inode \<open>i\<close> after its slot, parent and directory data are filled in\<close>
  "built_from i j \<longleftrightarrow>
     ii_mode j = ii_mode i \<and> ii_uid j = ii_uid i \<and> ii_gid j = ii_gid i \<and> ii_mtime j = ii_mtime i \<and>
     ii_nlink j = ii_nlink i \<and> ii_is_extended j = ii_is_extended i \<and> ii_xattrs j = ii_xattrs i \<and>
     (\<not> is_directory i \<longrightarrow> ii_data j = ii_data i \<and> ii_size j = ii_size i) \<and>
     (\<forall>ch sb sz p. ii_data i = Directory ch sb sz p \<longrightarrow> (\<exists>sb sz p. ii_data j = Directory ch sb sz p))"

lemma laid_out_built_from:
  assumes "laid_out inodes final buf epoch chunkbits" and "k < length inodes"
  shows "built_from (inodes ! k) (final ! k)"
proof -
  let ?i = "place 0 inodes ! k" and ?j = "final ! k"
  have "map skel final = map skel (place 0 inodes)" using assms(1) by (simp add: laid_out_def)
  then have s: "skel ?i = skel ?j" using map_skel_nth [of "place 0 inodes" final k] assms(2) by simp
  have p: "ii_mode ?i = ii_mode (inodes ! k)" "ii_uid ?i = ii_uid (inodes ! k)" "ii_gid ?i = ii_gid (inodes ! k)"
    "ii_mtime ?i = ii_mtime (inodes ! k)" "ii_nlink ?i = ii_nlink (inodes ! k)"
    "ii_is_extended ?i = ii_is_extended (inodes ! k)" "ii_xattrs ?i = ii_xattrs (inodes ! k)"
    "ii_data ?i = ii_data (inodes ! k)" "ii_size ?i = ii_size (inodes ! k)"
    using assms(2) by (simp_all add: nth_place)
  have "ii_data ?j = ii_data ?i \<and> ii_size ?j = ii_size ?i" if "\<not> is_directory (inodes ! k)"
  proof -
    have "\<forall>ch sb sz p. ii_data ?i \<noteq> Directory ch sb sz p"
      using that unfolding p is_directory_def by (auto split: inode_data.splits)
    then show ?thesis using skel_eqD(13) [OF s] by simp
  qed
  moreover have "\<exists>sb sz p. ii_data ?j = Directory ch sb sz p" if "ii_data (inodes ! k) = Directory ch sb sz p" for ch sb sz p
    using skel_eqD(12) [OF s, of ch sb sz p] that unfolding p by blast
  ultimately show ?thesis
    unfolding built_from_def using skel_eqD [OF s] p by simp
qed

lemma built_from_fits: "built_from i j \<Longrightarrow> inode_ok i \<Longrightarrow> xattrs_fit j"
  by (simp add: built_from_def inode_ok_def xattrs_fit_def)

lemma stat_shown_disk:
  assumes "xattrs_fit j" and "superblock_epoch (reader_sb r) = epoch"
    and "ii_mode j = ucast (st_mode meta)" "ii_uid j = st_uid meta" "ii_gid j = st_gid meta"
      "ii_mtime j = st_mtime meta" "ii_nlink j = ucast (st_nlink meta)"
      "ii_is_extended j = (unat (st_size meta) > 2 ^ 32 - 1 \<or> unat (st_uid meta) > 2 ^ 16 - 1 \<or>
        unat (st_gid meta) > 2 ^ 16 - 1 \<or> (ucast (st_nlink meta) :: u32) > 1)"
    and nl: "1 \<le> unat (st_nlink meta)" "unat (st_nlink meta) < 2 ^ 32"
  shows "stat_shown r meta (disk_inode j epoch chunkbits)"
proof (cases "ii_is_extended j")
  case True
  then show ?thesis
    using assms by (simp add: stat_shown_def disk_inode_extended disk_inode_common)
next
  case False
  then have small: "unat (st_uid meta) < 2 ^ 16" "unat (st_gid meta) < 2 ^ 16" "\<not> (ucast (st_nlink meta) :: u32) > 1"
    using assms(8) by auto
  have "take_bit 16 (st_uid meta) = st_uid meta" "take_bit 16 (st_gid meta) = st_gid meta"
    using small by (simp_all add: word_unat_eq_iff unsigned_take_bit_eq take_bit_nat_eq_self)
  moreover have "unat (ucast (st_nlink meta) :: u32) = unat (st_nlink meta)"
    using nl by (simp add: unsigned_ucast_eq take_bit_nat_eq_self)
  then have "(ucast (st_nlink meta) :: u32) = 1"
    using small(3) nl(1) by (simp add: word_less_nat_alt word_unat_eq_iff)
  moreover have "epoch + take_bit 32 (st_mtime meta - epoch) = st_mtime meta"
    if "unat (st_mtime meta - epoch) < 2 ^ 32"
  proof -
    have "take_bit 32 (st_mtime meta - epoch) = st_mtime meta - epoch"
      using that by (simp add: word_unat_eq_iff unsigned_take_bit_eq take_bit_nat_eq_self)
    then show ?thesis by simp
  qed
  ultimately show ?thesis
    using False assms by (simp add: stat_shown_def disk_inode_compact disk_inode_common)
qed

subsection \<open>From the inode list to the reader\<close>

definition mounted ::
  "erofs_reader \<Rightarrow> inode_info list \<Rightarrow> inode_info list \<Rightarrow> 'h blob_writer \<Rightarrow> u64 \<Rightarrow> u32 \<Rightarrow> bool" where
  \<comment> \<open>the reader has the image of the inodes and the blob open\<close>
  "mounted r inodes final bw epoch chunkbits \<longleftrightarrow>
     holds_image r final epoch chunkbits \<and> mapped r \<and> superblock_epoch (reader_sb r) = epoch \<and>
     rd_blob_mmap r = Some (sink_data (bw_file bw)) \<and> 12 \<le> unat chunkbits \<and> unat chunkbits < 44 \<and>
     length final = length inodes \<and> tree_like final \<and>
     (\<forall>k < length inodes. inode_ok (inodes ! k) \<and> built_from (inodes ! k) (final ! k) \<and>
        (is_directory (final ! k) \<longrightarrow> dir_parent (final ! k) = ii_nid (final ! parent_of final k)))"

lemma new_inode_simps [simp]:
  "ii_mode (new_inode meta ino sz dat xs) = ucast (st_mode meta)"
  "ii_uid (new_inode meta ino sz dat xs) = st_uid meta"
  "ii_gid (new_inode meta ino sz dat xs) = st_gid meta"
  "ii_mtime (new_inode meta ino sz dat xs) = st_mtime meta"
  "ii_nlink (new_inode meta ino sz dat xs) = ucast (st_nlink meta)"
  "ii_data (new_inode meta ino sz dat xs) = dat"
  "ii_size (new_inode meta ino sz dat xs) = sz"
  "ii_xattrs (new_inode meta ino sz dat xs) = xs"
  "ii_is_extended (new_inode meta ino sz dat xs) = (unat (st_size meta) > 2 ^ 32 - 1 \<or>
     unat (st_uid meta) > 2 ^ 16 - 1 \<or> unat (st_gid meta) > 2 ^ 16 - 1 \<or> (ucast (st_nlink meta) :: u32) > 1)"
  by (simp_all add: new_inode_def)

lemma node_shown_mounted:
  assumes m: "mounted r inodes final bw epoch chunkbits" and k: "k < length inodes"
    and new: "inodes ! k = new_inode meta ino sz dat (read_xattrs_from_path n)"
    and ok: "node_ok n" "src_stat n = Some meta"
  shows "node_shown r n (ii_nid (final ! k)) meta (disk_inode (final ! k) epoch chunkbits)"
proof -
  let ?j = "final ! k"
  have st: "stored r (nid_to_offset r (ii_nid ?j)) (inode_image ?j epoch chunkbits)"
    and room: "unat (nid_to_offset r (ii_nid ?j)) + 64 \<le> length (rd_mmap r)"
    and b: "built_from (inodes ! k) ?j" and fit: "xattrs_fit ?j"
    and ep: "superblock_epoch (reader_sb r) = epoch"
    using m k by (auto simp: mounted_def holds_image_def intro: built_from_fits)
  have nl: "1 \<le> unat (st_nlink meta)" "unat (st_nlink meta) < 2 ^ 32"
    using ok by (simp_all add: node_ok_def)
  have "stat_shown r meta (disk_inode ?j epoch chunkbits)"
    using b unfolding built_from_def new by (intro stat_shown_disk [OF fit ep _ _ _ _ _ _ nl]) simp_all
  moreover have "ii_xattrs ?j = read_xattrs_from_path n"
    using b unfolding built_from_def new by simp
  then have "read_xattrs r (ii_nid ?j) (disk_inode ?j epoch chunkbits) = Inr (xattr_pairs (read_xattrs_from_path n))"
    using read_xattrs_stored [OF st fit] by simp
  ultimately show ?thesis
    using reader_inode_stored [OF st room] by (simp add: node_shown_def)
qed

lemma file_stored_refs_hold:
  assumes "mapped r" and blob: "rd_blob_mmap r = Some (sink_data (bw_file bw))"
    and st: "file_stored (blob_fetch bw) (2 ^ unat chunkbits) refs content"
    and cb: "12 \<le> unat chunkbits" and len: "length content < 2 ^ 64"
  shows "refs_hold r (2 ^ unat chunkbits) refs content"
proof -
  have "list_all2 (\<lambda>ck c. ck_device_id ck = 1 \<and> unat (ck_blkaddr ck) < 2 ^ 48 \<and> blob_holds r (ck_blkaddr ck) c)
      refs (split_chunks (2 ^ unat chunkbits) content)"
    using st unfolding file_stored_def
    by (rule list_all2_mono) (auto simp: blob_fetch_def blob_holds_def blob_data_def blob split: if_splits)
  moreover have "length refs = div_ceil (length content) (2 ^ unat chunkbits)"
    using st length_split_chunks [of "2 ^ unat chunkbits" content]
    by (auto simp: file_stored_def dest: list_all2_lengthD)
  then have "length refs \<le> length content div 2 ^ unat chunkbits + 1" by (simp add: div_ceil_def)
  moreover have "(2 :: nat) ^ 12 \<le> 2 ^ unat chunkbits" using cb by (rule power_increasing) simp
  then have "length content div 2 ^ unat chunkbits \<le> length content div 2 ^ 12"
    by (rule div_le_mono2 [rotated]) simp
  moreover have "length content div 2 ^ 12 \<le> 2 ^ 52" using len by simp
  ultimately show ?thesis using assms(1) blob by (simp add: refs_hold_def)
qed

lemma file_shown_mounted:
  assumes st: "stored r (nid_to_offset r (ii_nid j)) (inode_image j epoch chunkbits)"
    and fit: "xattrs_fit j" "size_fits j"
    and kind: "is_file meta" and data: "leaf_data (2 ^ unat chunkbits) (blob_fetch bw) n meta (ii_size j) (ii_data j)"
    and map: "mapped r" "rd_blob_mmap r = Some (sink_data (bw_file bw))" "12 \<le> unat chunkbits" "unat chunkbits < 44"
      "sb_blkszbits (reader_sb r) = EROFS_BLKSZBITS"
  shows "content_shown r n (ii_nid j) meta (disk_inode j epoch chunkbits)"
proof -
  let ?c = "take (unat (st_size meta)) (case src_content n of Some f \<Rightarrow> f | None \<Rightarrow> [])" and ?i = "disk_inode j epoch chunkbits"
  obtain refs where d: "ii_size j = st_size meta" "ii_data j = RegularFile refs"
    and have_f: "st_size meta = 0 \<or> (\<exists>f. src_content n = Some f \<and> unat (st_size meta) \<le> length f)"
    and fs: "file_stored (blob_fetch bw) (2 ^ unat chunkbits) refs ?c"
    using data kind by (auto simp: leaf_data_def)
  have len: "length ?c = unat (st_size meta)" using have_f by auto
  have "refs_hold r (2 ^ unat chunkbits) refs ?c"
  proof (rule file_stored_refs_hold [OF map(1,2) fs map(3)])
    show "length ?c < 2 ^ 64" unfolding len using unat_lt [of "st_size meta"] by simp
  qed
  from read_file_data_stored [OF st fit _ _ map(5,3,4) this]
  have "\<forall>offset l. read_file_data r (ii_nid j) ?i offset l = Inr (bytes_at (unat offset) (unat l) ?c)"
    using d len by simp
  moreover have "inode_size ?i = st_size meta"
    using fit(2) d by (simp add: disk_inode_size inode_size_of_def)
  moreover have "st_size meta = 0 \<or> (\<exists>f. src_content n = Some f \<and> ?c = take (unat (st_size meta)) f)"
    using have_f by auto
  ultimately show ?thesis unfolding content_shown_def using kind len by metis
qed

lemma content_shown_mounted:
  assumes m: "mounted r inodes final bw epoch chunkbits" and k: "k < length inodes"
    and leaf: "leaf_inode (2 ^ unat chunkbits) (blob_fetch bw) n meta (inodes ! k)"
    and ok: "node_ok n"
  shows "content_shown r n (ii_nid (final ! k)) meta (disk_inode (final ! k) epoch chunkbits)"
proof -
  let ?j = "final ! k" and ?i = "disk_inode (final ! k) epoch chunkbits"
  obtain ino sz dat where new: "inodes ! k = new_inode meta ino sz dat (read_xattrs_from_path n)"
    and data: "leaf_data (2 ^ unat chunkbits) (blob_fetch bw) n meta sz dat"
    using leaf by (auto simp: leaf_inode_def)
  have st: "stored r (nid_to_offset r (ii_nid ?j)) (inode_image ?j epoch chunkbits)"
    and b: "built_from (inodes ! k) ?j" and fit: "xattrs_fit ?j" and iok: "inode_ok (inodes ! k)"
    and map: "mapped r" "rd_blob_mmap r = Some (sink_data (bw_file bw))" "12 \<le> unat chunkbits" "unat chunkbits < 44"
      "sb_blkszbits (reader_sb r) = EROFS_BLKSZBITS"
    using m k by (auto simp: mounted_def holds_image_def intro: built_from_fits)
  have j: "ii_data ?j = dat" "ii_size ?j = sz"
    using b leaf_not_directory [OF leaf] unfolding built_from_def new by simp_all
  have sf: "size_fits ?j"
    using b iok j unfolding inode_ok_def size_fits_def built_from_def new by simp
  consider (a) "is_file meta" | (b) "\<not> is_file meta" "is_symlink meta" | (c) "\<not> is_file meta" "\<not> is_symlink meta"
    by blast
  then show ?thesis
  proof cases
    case a
    then show ?thesis using data by (intro file_shown_mounted [OF st fit sf _ _ map]) (simp_all add: j)
  next
    case b
    then obtain t where t: "src_target n = Some t" "sz = word_of_nat (length t)" "dat = Symlink t"
      using data by (auto simp: leaf_data_def)
    have "length t < 4096" using ok t by (simp add: node_ok_def)
    then have "read_symlink r (ii_nid ?j) ?i = Inr t"
      using t j by (intro read_symlink_stored [OF st fit]) simp_all
    then show ?thesis
      using b t sf j by (simp add: content_shown_def disk_inode_size inode_size_of_def)
  next
    case c
    then show ?thesis
      using data j sf
      by (auto simp: content_shown_def leaf_data_def disk_inode_size inode_size_of_def inode_rdev_def
          disk_inode_common mode_to_file_type_def Let_def split: if_splits)
  qed
qed

lemma inode_startblk_directory:
  assumes "ii_data j = Directory ch sb sz p" and "unat sb < 2 ^ 48"
  shows "inode_startblk (disk_inode j epoch chunkbits) = sb"
proof -
  have "take_bit 48 sb = sb"
    using assms(2) by (simp add: word_unat_eq_iff unsigned_take_bit_eq take_bit_nat_eq_self)
  then have hi: "bit sb n \<Longrightarrow> n < 48" for n by (metis bit_take_bit_iff)
  have "(push_bit 32 (ucast (ucast (drop_bit 32 sb) :: u16)) :: u64) OR ucast (ucast sb :: u32) = sb"
    by (rule bit_word_eqI) (auto simp: bit_simps not_less dest: hi)
  then show ?thesis using assms(1) by (simp add: inode_startblk_def disk_inode_common)
qed

lemma directory_mounted:
  assumes m: "mounted r inodes final bw epoch chunkbits" and k: "k < length inodes"
    and data: "ii_data (inodes ! k) = Directory ch sb0 sz0 p0"
  defines "es \<equiv> dir_entries (map (child_of final) ch) (ii_nid (final ! k)) (dir_parent (final ! k))"
  shows "dir_child_indices (final ! k) = dir_child_indices (inodes ! k)"
    and "names_fit es" and "names_clean es" and "es \<noteq> []"
    and "inode_data_layout (disk_inode (final ! k) epoch chunkbits) = EROFS_INODE_FLAT_PLAIN"
    and "stored r (inode_startblk (disk_inode (final ! k) epoch chunkbits) * 4096)
      (concat (map block_image (dir_blocks_of es)))"
    and "unat (inode_size (disk_inode (final ! k) epoch chunkbits)) = length (concat (map block_image (dir_blocks_of es)))"
proof -
  let ?j = "final ! k"
  have b: "built_from (inodes ! k) ?j" and iok: "inode_ok (inodes ! k)" and hold: "holds_image r final epoch chunkbits"
    and len: "length final = length inodes"
    using m k by (simp_all add: mounted_def)
  obtain sb sz p where j: "ii_data ?j = Directory ch sb sz p"
    using b data unfolding built_from_def by blast
  then have dirj: "is_directory ?j" by (simp add: is_directory_def)
  have es: "inode_entries final ?j = es"
    by (simp add: inode_entries_def j es_def dir_parent_def)
  have "dir_stored r final ?j"
    using hold dirj k len by (simp add: holds_image_def)
  then have sb: "unat sb < 2 ^ 48"
    and st: "stored r (sb * 4096) (concat (map block_image (dir_blocks_of es)))"
    and sz: "unat (ii_size ?j) = length (concat (map block_image (dir_blocks_of es)))"
    unfolding dir_stored_def es by (simp_all add: j)
  show kids: "dir_child_indices ?j = dir_child_indices (inodes ! k)"
    by (simp add: dir_child_indices_def j data)
  have nok: "dir_names_ok (inodes ! k)" and bd: "dir_bound (inodes ! k) < 2 ^ 32"
    using iok by (simp_all add: inode_ok_def)
  show fit: "names_fit es" and clean: "names_clean es"
    unfolding es_def by (rule info_entries_names [OF nok data])+
  have "length (dir_blocks_of es) \<le> length ch + 2"
    using length_dir_blocks [OF fit] by (simp add: es_def dir_entries_def)
  then have "unat (ii_size ?j) < 2 ^ 32"
    using bd data sz by (simp add: length_dir_image dir_bound_def)
  then have "size_fits ?j" by (simp add: size_fits_def)
  then show "unat (inode_size (disk_inode ?j epoch chunkbits)) = length (concat (map block_image (dir_blocks_of es)))"
    using sz by (simp add: disk_inode_size inode_size_of_def j)
  show "es \<noteq> []" by (simp add: es_def dir_entries_def)
  show "inode_data_layout (disk_inode ?j epoch chunkbits) = EROFS_INODE_FLAT_PLAIN"
    by (simp add: disk_inode_layout j)
  show "stored r (inode_startblk (disk_inode ?j epoch chunkbits) * 4096) (concat (map block_image (dir_blocks_of es)))"
    using st by (simp add: inode_startblk_directory [OF j sb])
qed

lemma read_dir_mounted:
  assumes m: "mounted r inodes final bw epoch chunkbits" and k: "k < length inodes"
    and data: "ii_data (inodes ! k) = Directory ch sb0 sz0 p0"
  defines "es \<equiv> dir_entries (map (child_of final) ch) (ii_nid (final ! k)) (dir_parent (final ! k))"
  shows "read_dir_cached r (ii_nid (final ! k)) (disk_inode (final ! k) epoch chunkbits) = Inr es"
    and "for_each_dir_entry r (ii_nid (final ! k)) (disk_inode (final ! k) epoch chunkbits) cb s = visit cb es s"
    and "dir_child_indices (final ! k) = dir_child_indices (inodes ! k)"
    and "names_fit es" and "names_clean es"
proof -
  note d = directory_mounted [OF m k data, folded es_def]
  show "read_dir_cached r (ii_nid (final ! k)) (disk_inode (final ! k) epoch chunkbits) = Inr es"
    by (rule read_dir_stored(1) [OF d(2-7)])
  show "for_each_dir_entry r (ii_nid (final ! k)) (disk_inode (final ! k) epoch chunkbits) cb s = visit cb es s"
    by (rule for_each_dir_entry_stored [OF d(2-7)])
qed (rule directory_mounted [OF m k data, folded es_def])+

lemma listed_directory:
  assumes m: "mounted r inodes final bw epoch chunkbits" and rep: "represents (2 ^ unat chunkbits) (blob_fetch bw) inodes n k"
    and meta: "src_stat n = Some meta" and d: "is_directory (final ! k)"
  shows "is_dir meta"
proof -
  have "k < length inodes" using rep by (auto elim: represents.cases)
  then have "built_from (inodes ! k) (final ! k)" using m by (simp add: mounted_def)
  then have "is_directory (inodes ! k)"
    using d unfolding built_from_def is_directory_def by (auto split: inode_data.splits)
  then show ?thesis using represents_is_directory [OF rep meta] by simp
qed

lemma represents_presents:
  assumes m: "mounted r inodes final bw epoch chunkbits"
    and rep: "represents (2 ^ unat chunkbits) (blob_fetch bw) inodes n k"
    and ok: "\<forall>n \<in> U. node_ok n" and closed: "\<forall>n \<in> U. \<forall>es. src_entries n = Some es \<longrightarrow> snd ` set es \<subseteq> U"
  shows "n \<in> U \<Longrightarrow> (is_directory (final ! k) \<longrightarrow> p = ii_nid (final ! parent_of final k)) \<Longrightarrow>
    presents r p n (ii_nid (final ! k))"
  using rep
proof (induction n k arbitrary: p rule: represents.induct)
  case (leaf n meta k)
  obtain ino sz dat where new: "inodes ! k = new_inode meta ino sz dat (read_xattrs_from_path n)"
    using leaf.hyps(4) by (auto simp: leaf_inode_def)
  have nok: "node_ok n" using ok leaf.prems(1) by blast
  show ?case
    using node_shown_mounted [OF m leaf.hyps(3) new nok leaf.hyps(1)]
      content_shown_mounted [OF m leaf.hyps(3,4) nok]
    by (rule presents.leaf [OF leaf.hyps(1,2)])
next
  case (dir n meta es k ino ch)
  have nok: "node_ok n" using ok dir.prems(1) by blast
  have data: "ii_data (inodes ! k) = Directory ch 0 0 0" by (simp add: dir.hyps(5))
  have len: "length final = length inodes" and tree: "tree_like final"
    and b: "built_from (inodes ! k) (final ! k)"
    and par: "is_directory (final ! k) \<Longrightarrow> dir_parent (final ! k) = ii_nid (final ! parent_of final k)"
    using m dir.hyps(4) by (simp_all add: mounted_def)
  have isd: "is_directory (final ! k)"
    using b data unfolding built_from_def by (auto simp: is_directory_def)
  have p: "dir_parent (final ! k) = p" using par isd dir.prems(2) by simp
  have kids: "dir_child_indices (final ! k) = map dn_inode_idx (filter (\<lambda>de. dn_file_type de = EROFS_FT_DIR) ch)"
    unfolding read_dir_mounted(3) [OF m dir.hyps(4) data] by (simp add: dir_child_indices_def data)
  have kid: "parent_of final (dn_inode_idx de) = k" if "de \<in> set ch" "dn_file_type de = EROFS_FT_DIR" for de
    using that dir.hyps(4) by (intro parent_of_eq [OF tree]) (simp_all add: len kids)
  have "list_all2 (\<lambda>e x. fst x = from_utf8_lossy (fst e) \<and>
       (\<exists>m. src_stat (snd e) = Some m \<and> snd (snd x) = mode_to_file_type (ucast (st_mode m))) \<and>
       presents r (ii_nid (final ! k)) (snd e) (fst (snd x))) (by_name es)
     (map (\<lambda>c. (dc_name c, dc_nid c, dc_file_type c)) (map (child_of final) ch))"
    unfolding list.rel_map
  proof (rule list.rel_mono_strong [OF dir.IH], goal_cases)
    case (1 e de)
    then have e: "snd e \<in> U"
      using closed dir.prems(1) dir.hyps(3) by (auto simp: by_name_def)
    obtain m' where m': "src_stat (snd e) = Some m'" "dn_file_type de = mode_to_file_type (ucast (st_mode m'))"
      and rp: "represents (2 ^ unat chunkbits) (blob_fetch bw) inodes (snd e) (dn_inode_idx de)"
      and IH: "\<And>p. snd e \<in> U \<Longrightarrow> (is_directory (final ! dn_inode_idx de) \<longrightarrow>
        p = ii_nid (final ! parent_of final (dn_inode_idx de))) \<Longrightarrow> presents r p (snd e) (ii_nid (final ! dn_inode_idx de))"
      using 1(3) by blast
    have "dn_file_type de = EROFS_FT_DIR" if "is_directory (final ! dn_inode_idx de)"
      unfolding m'(2) file_type_dir by (rule listed_directory [OF m rp m'(1) that])
    then have "presents r (ii_nid (final ! k)) (snd e) (ii_nid (final ! dn_inode_idx de))"
      using kid 1(2) by (intro IH [OF e]) blast
    then show ?case using 1(3) m' by (auto simp: child_of_def)
  qed
  with dir.hyps(1-3) node_shown_mounted [OF m dir.hyps(4,5) nok dir.hyps(1)]
  show ?case
    using read_dir_mounted(1) [OF m dir.hyps(4) data]
    by (intro presents.dir [of n meta es]) (simp_all add: dir_entries_def p)
qed

subsection \<open>The chunk size\<close>

lemma only_one:
  assumes "length (filter P [0 ..< n]) = 1"
  obtains k where "k < n" and "\<forall>i < n. P i \<longleftrightarrow> i = k" and "length (takeWhile (\<lambda>i. \<not> P i) [0 ..< n]) = k"
proof -
  obtain k where k: "filter P [0 ..< n] = [k]" using assms by (auto simp: length_Suc_conv)
  then have "set (filter P [0 ..< n]) = {k}" by simp
  then have P: "k < n" "\<forall>i < n. P i \<longleftrightarrow> i = k" by (auto simp: set_eq_iff)
  have "[0 ..< n] = [0 ..< k] @ k # [Suc k ..< n]"
    using P(1) upt_add_eq_append [of 0 k "n - k"] by (simp add: upt_conv_Cons)
  moreover have "takeWhile (\<lambda>i. \<not> P i) ([0 ..< k] @ k # [Suc k ..< n]) = [0 ..< k]"
    using P by (subst takeWhile_append2) auto
  ultimately have "length (takeWhile (\<lambda>i. \<not> P i) [0 ..< n]) = k" by simp
  then show ?thesis using P that by blast
qed

lemma chunkbits_of_size:
  assumes "is_power_of_two w" and "4096 \<le> unat w"
  shows "2 ^ unat (trailing_zeros w) = unat w" and "12 \<le> unat (trailing_zeros w)" and "unat (trailing_zeros w) < 32"
proof -
  obtain k where k: "k < 32" "\<forall>i < 32. bit w i \<longleftrightarrow> i = k" "length (takeWhile (\<lambda>i. \<not> bit w i) [0 ..< 32]) = k"
    using only_one [of "bit w" 32] assms(1) unfolding is_power_of_two_def by metis
  have "w = push_bit k 1"
    by (rule bit_word_eqI) (use k in \<open>auto simp: bit_simps\<close>)
  then have "unat w = take_bit 32 (push_bit k 1)" by (simp only: unsigned_push_bit_eq) simp
  then have w: "unat w = 2 ^ k" using k(1) by (simp add: take_bit_push_bit push_bit_eq_mult)
  have t: "unat (trailing_zeros w) = k"
    using k(1,3) by (simp add: trailing_zeros_def unsigned_of_nat take_bit_nat_eq_self)
  have "(2 :: nat) ^ 12 \<le> 2 ^ k" using assms(2) w by simp
  then have "12 \<le> k" by (rule power_le_imp_le_exp [rotated]) simp
  then show "2 ^ unat (trailing_zeros w) = unat w" "12 \<le> unat (trailing_zeros w)" "unat (trailing_zeros w) < 32"
    using w t k(1) by simp_all
qed

subsection \<open>The whole program\<close>

lemma laid_out_tree:
  assumes "laid_out inodes final buf epoch chunkbits" and "tree_like inodes"
  shows "tree_like final" and "length final = length inodes" and "parent_of final 0 = 0"
proof -
  show t: "tree_like final"
    using assms(1) by (intro tree_like_skel [OF _ tree_like_place [OF assms(2), of 0]]) (simp add: laid_out_def)
  show "length final = length inodes" using assms(1) by (simp add: laid_out_def)
  show "parent_of final 0 = 0" by (rule parent_of_root [OF t])
qed

lemma mounted_image:
  assumes laid: "laid_out inodes final buf epoch chunkbits" and tree: "tree_like inodes"
    and ok: "\<forall>i \<in> set inodes. inode_ok i" and bound: "metadata_bound inodes \<le> 2 ^ 59"
    and uuid: "length uuid = 16" and cb: "12 \<le> unat chunkbits" "unat chunkbits < 32"
    and blob: "length (sink_data (bw_file bw)) \<le> 2 ^ 60"
  shows "mounted (image_reader (image_bytes buf root_nid inos epoch blocks uuid) (Some (sink_data (bw_file bw))))
    inodes final bw epoch chunkbits"
proof -
  let ?r = "image_reader (image_bytes buf root_nid inos epoch blocks uuid) (Some (sink_data (bw_file bw)))"
  note final = laid_out_tree [OF laid tree]
  have built: "built_from (inodes ! k) (final ! k)" "inode_ok (inodes ! k)" if "k < length inodes" for k
    using laid_out_built_from [OF laid that] ok that by simp_all
  then have "xattrs_fit (final ! k)" if "k < length inodes" for k
    using that built_from_fits by blast
  then have "\<forall>i \<in> set final. xattrs_small i"
    using final(2) xattrs_fit_small by (metis in_set_conv_nth)
  then have hold: "holds_image ?r final epoch chunkbits"
    by (rule image_holds [OF uuid laid bound])
  have "length buf \<le> 2 ^ 59" using laid bound by (simp add: laid_out_def)
  moreover have "pad_len (length buf) 4096 < 4096" by (rule pad_len_less) simp
  ultimately have "length (rd_mmap ?r) < 2 ^ 64"
    by (simp add: image_reader_def image_bytes_def length_block0 [OF uuid])
  then have "mapped ?r" using blob by (simp add: mapped_def blob_data_def image_reader_def)
  moreover have "superblock_epoch (reader_sb ?r) = epoch"
    by (simp add: image_reader_sb [OF uuid] image_superblock_def)
  ultimately show ?thesis
    using hold cb final built laid
    by (auto simp: mounted_def laid_out_def image_reader_def)
qed

lemma image_fits:
  assumes "length uuid = 16" and "length buf + 8192 \<le> room"
  shows "\<exists>image. write_image \<lparr>sink_data = [], sink_room = room\<rparr> buf root_nid inos epoch blocks uuid = Inr image"
proof -
  have "pad_len (length buf) 4096 < 4096" by (rule pad_len_less) simp
  then have "length (image_bytes buf root_nid inos epoch blocks uuid) \<le> room"
    using assms by (simp add: image_bytes_def length_block0)
  then have "is_ok (write_image \<lparr>sink_data = [], sink_room = room\<rparr> buf root_nid inos epoch blocks uuid)"
    using assms(1) by (intro write_image_ok) simp_all
  then show ?thesis by (auto simp: is_ok_def split: sum.splits)
qed

lemma build_layout_ok:
  assumes "source_valid hash (unat chunksize) U source" and "4096 \<le> unat chunksize" and "room \<le> 2 ^ 60"
    and "build_tree hash source (blob_writer_new room chunksize) = Inr (inodes, bw)"
    and "metadata_bound inodes \<le> 2 ^ 59"
  shows "layout_ok inodes" and "\<forall>i \<in> set inodes. inode_ok i" and "tree_like inodes"
    and "represents (unat chunksize) (blob_fetch bw) inodes source 0" and "length (sink_data (bw_file bw)) \<le> 2 ^ 60"
proof -
  have pos: "0 < chunksize" using assms(2) by (simp add: word_less_nat_alt)
  note b = build_tree_valid [OF assms(1) pos assms(3,4)]
  show "\<forall>i \<in> set inodes. inode_ok i" "tree_like inodes" "represents (unat chunksize) (blob_fetch bw) inodes source 0"
    using b by simp_all
  show "length (sink_data (bw_file bw)) \<le> 2 ^ 60"
    using b(6) by (simp add: sink_capacity_def)
  show "layout_ok inodes"
    using b(2-4) assms(5) xattrs_fit_small by (auto simp: layout_ok_def inode_ok_def)
qed

lemma mkfs_main_ok:
  assumes src: "source_valid hash (unat chunksize) U source"
    and cs: "4096 \<le> unat chunksize" "is_power_of_two chunksize" and uuid: "length uuid = 16"
    and room: "blob_room \<le> 2 ^ 60" "metadata_bound inodes + 8192 \<le> image_room"
    and run: "build_tree hash source (blob_writer_new blob_room chunksize) = Inr (inodes, bw)"
    and bound: "metadata_bound inodes \<le> 2 ^ 59"
  shows "\<exists>img blob. mkfs_main hash chunksize epoch uuid source True (Some blob_room) (Some image_room) = Inr (img, blob)"
proof -
  note b = build_layout_ok [OF src cs(1) room(1) run bound]
  obtain final l where lay: "layout_image inodes epoch (trailing_zeros chunksize) = Inr (final, l)"
    and laid: "laid_out inodes final (lay_buf l) epoch (trailing_zeros chunksize)"
    by (rule layout_image_laid_out [OF b(1)])
  have nid: "ii_nid (final ! 0) = 0" and "length (lay_buf l) \<le> metadata_bound inodes"
    and "length final = length inodes"
    using laid by (simp_all add: laid_out_def)
  moreover have "0 < length final" using b(3) laid by (simp add: tree_like_def laid_out_def)
  moreover obtain image where "write_image \<lparr>sink_data = [], sink_room = image_room\<rparr> (lay_buf l)
      (ucast (ii_nid (final ! 0))) (word_of_nat (length inodes)) epoch (bw_total_blocks bw) uuid = Inr image"
    using image_fits [OF uuid, of "lay_buf l" image_room] calculation(2) room(2) by fastforce
  ultimately show ?thesis
    using cs run lay by (auto simp: mkfs_main_def Let_def index_at_def)
qed

lemma mkfs_presents:
  assumes src: "source_valid hash (unat chunksize) U source" and uuid: "length uuid = 16"
    and room: "blob_room \<le> 2 ^ 60"
    and run: "mkfs_main hash chunksize epoch uuid source source_is_dir (Some blob_room) image_room = Inr (img, blob)"
    and fits: "metadata_size (unat chunksize) source \<le> 2 ^ 59"
  obtains r where "reader_open (Some img) (Some (Some blob)) = Inr r"
    and "presents r (superblock_root_nid (reader_sb r)) source (superblock_root_nid (reader_sb r))"
    and "mapped r" and "superblock_root_nid (reader_sb r) = 0"
proof -
  from run obtain inodes bw final l iroom image where cs: "4096 \<le> unat chunksize" "is_power_of_two chunksize"
    and bt: "build_tree hash source (blob_writer_new blob_room chunksize) = Inr (inodes, bw)"
    and lay: "layout_image inodes epoch (trailing_zeros chunksize) = Inr (final, l)"
    and w: "write_image \<lparr>sink_data = [], sink_room = iroom\<rparr> (lay_buf l) (ucast (ii_nid (final ! 0)))
      (word_of_nat (length inodes)) epoch (bw_total_blocks bw) uuid = Inr image"
    and out: "img = sink_data image" "blob = sink_data (bw_file bw)"
    by (rule mkfs_main_Inr)
  have pos: "0 < unat chunksize" using cs(1) by simp
  have bound: "metadata_bound inodes \<le> 2 ^ 59" using tree_within_size [OF bt pos] fits by simp
  note b = build_layout_ok [OF src cs(1) room bt bound]
  note cb = chunkbits_of_size [OF cs(2,1)]
  have laid: "laid_out inodes final (lay_buf l) epoch (trailing_zeros chunksize)"
    using layout_image_laid_out [OF b(1)] lay by (metis Inr_inject prod.inject)
  define r where "r = image_reader (image_bytes (lay_buf l) (ucast (ii_nid (final ! 0))) (word_of_nat (length inodes))
      epoch (bw_total_blocks bw) uuid) (Some blob)"
  have m: "mounted r inodes final bw epoch (trailing_zeros chunksize)"
    unfolding r_def out by (rule mounted_image [OF laid b(3,2) bound uuid cb(2,3) b(5)])
  have nid: "ii_nid (final ! 0) = 0" using laid by (simp add: laid_out_def)
  have root: "superblock_root_nid (reader_sb r) = 0"
    by (simp add: r_def image_reader_sb [OF uuid] image_superblock_def nid)
  obtain C where U: "source \<in> U" "\<forall>n \<in> U. node_ok n" "source_ok (unat chunksize) C U"
    using src unfolding source_valid_def by blast
  have "presents r 0 source (ii_nid (final ! 0))"
  proof (rule represents_presents [OF m _ U(2)])
    show "represents (2 ^ unat (trailing_zeros chunksize)) (blob_fetch bw) inodes source 0"
      using b(4) cb(1) by simp
    show "\<forall>n \<in> U. \<forall>es. src_entries n = Some es \<longrightarrow> snd ` set es \<subseteq> U"
      using U(3) unfolding source_ok_def by blast
  qed (simp_all add: U(1) laid_out_tree(3) [OF laid b(3)] nid)
  then have "presents r (superblock_root_nid (reader_sb r)) source (superblock_root_nid (reader_sb r))"
    by (simp only: root nid)
  moreover have "reader_open (Some img) (Some (Some blob)) = Inr r"
    using reader_open_image [OF uuid, where b = "Some blob"] write_image_Inr [OF uuid w]
    by (simp add: out(1) r_def)
  moreover have "mapped r" using m by (simp add: mounted_def)
  ultimately show ?thesis using that root by blast
qed

end
