(* ===== verification/Sample.thy ===== *)
theory Sample
  imports Roundtrip
begin

text \<open>
  A small source tree on which the program runs: a directory with a file, a symbolic link, a second
  link to the file and an empty directory. The properties that have hypotheses are applied to it.
\<close>

unbundle bit_operations_syntax

definition sample_stat :: "u64 \<Rightarrow> u32 \<Rightarrow> u64 \<Rightarrow> u64 \<Rightarrow> file_stat" where
  "sample_stat ino mode nlink sz =
     \<lparr>st_dev = 1, st_ino = ino, st_mode = mode, st_nlink = nlink, st_uid = 1000, st_gid = 100, st_rdev = 0,
      st_size = sz, st_mtime = 1700000000, st_mtime_nsec = 5\<rparr>"

definition sample_file :: src where
  "sample_file = Src (Some (sample_stat 2 0x81A4 2 3)) (Some [(bytes ''user.k'', Some [7, 8])]) None (Some [1, 2, 3]) None"

definition sample_link :: src where
  "sample_link = Src (Some (sample_stat 3 0xA1FF 1 1)) (Some []) None None (Some (bytes ''f''))"

definition sample_subdir :: src where
  "sample_subdir = Src (Some (sample_stat 4 0x41ED 2 0)) None (Some []) None None"

definition sample_root :: src where
  "sample_root = Src (Some (sample_stat 1 0x41ED 3 0)) (Some [])
     (Some [(bytes ''f'', sample_file), (bytes ''d'', sample_subdir), (bytes ''l'', sample_link), (bytes ''g'', sample_file)])
     None None"

definition sample_hash :: "u8 list \<Rightarrow> u8 list" where "sample_hash c = c"

definition sample_uuid :: "u8 list" where "sample_uuid = replicate 16 9"

definition sample_nodes :: "src set" where
  "sample_nodes = {sample_root, sample_file, sample_link, sample_subdir}"

lemmas sample_defs = sample_root_def sample_file_def sample_link_def sample_subdir_def

lemma sample_xattrs:
  "read_xattrs_from_path sample_file = [(1, bytes ''k'', [7, 8])]"
  "read_xattrs_from_path sample_root = []" "read_xattrs_from_path sample_link = []"
  "read_xattrs_from_path sample_subdir = []"
  by code_simp+

lemma sample_names:
  "bytes ''f'' = [102]" "bytes ''d'' = [100]" "bytes ''l'' = [108]" "bytes ''g'' = [103]" "bytes ''k'' = [107]"
  "bytes ''user.k'' = [117, 115, 101, 114, 46, 107]" "bytes ''.'' = [46]" "bytes ''..'' = [46, 46]"
  by code_simp+

lemma sample_stats:
  "src_stat sample_root = Some (sample_stat 1 0x41ED 3 0)" "src_stat sample_file = Some (sample_stat 2 0x81A4 2 3)"
  "src_stat sample_link = Some (sample_stat 3 0xA1FF 1 1)" "src_stat sample_subdir = Some (sample_stat 4 0x41ED 2 0)"
  by (simp_all add: sample_defs)

lemma sample_link_keys:
  "link_key (sample_stat 1 0x41ED 3 0) = None" "link_key (sample_stat 2 0x81A4 2 3) = Some (1, 2)"
  "link_key (sample_stat 3 0xA1FF 1 1) = None" "link_key (sample_stat 4 0x41ED 2 0) = None"
  by (simp_all add: link_key_def sample_stat_def is_dir_def)

lemma sample_only_link:
  "n \<in> sample_nodes \<Longrightarrow> src_stat n = Some m \<Longrightarrow> link_key m = Some key \<Longrightarrow> n = sample_file"
  unfolding sample_nodes_def using sample_stats sample_link_keys by fastforce

lemma sample_xattr_area: "xattr_ibody_size [(1, [107], [7, 8])] = 20"
  by (simp add: xattr_ibody_size_eq xattr_small_def xattr_entry_size_def entry_span_def pad_len_def)

lemma sample_no_area: "xattr_ibody_size [] = 0"
  by (simp add: xattr_ibody_size_def)

lemma sample_node_ok: "n \<in> sample_nodes \<Longrightarrow> node_ok n"
proof -
  have "node_ok sample_root" "node_ok sample_link" "node_ok sample_subdir"
    unfolding node_ok_def sample_xattrs by (simp_all add: sample_defs sample_stat_def sample_names xattr_ibody_size_def)
  moreover have "node_ok sample_file"
    unfolding node_ok_def sample_xattrs
    by (simp add: sample_defs sample_stat_def sample_names xattr_fits_def sample_xattr_area max_xattr_area_def)
  ultimately show "n \<in> sample_nodes \<Longrightarrow> node_ok n" by (auto simp: sample_nodes_def)
qed

lemma sample_children: "n \<in> sample_nodes \<Longrightarrow> src_entries n = Some es \<Longrightarrow> snd ` set es \<subseteq> sample_nodes"
  unfolding sample_nodes_def by (elim insertE emptyE; simp) (auto simp: sample_defs)

lemma sample_valid: "source_valid sample_hash 4096 sample_nodes sample_root"
proof -
  have "source_ok 4096 UNIV sample_nodes"
    unfolding source_ok_def using sample_children sample_only_link by (metis subset_UNIV)
  moreover have "\<exists>meta. src_stat sample_root = Some meta \<and> is_dir meta"
    by (simp add: sample_root_def sample_stat_def is_dir_def)
  ultimately show ?thesis
    using sample_node_ok by (auto simp: source_valid_def sample_nodes_def intro!: inj_onI simp: sample_hash_def)
qed


subsection \<open>Building it\<close>

definition sample_refs :: "chunk_ref list" where "sample_refs = [\<lparr>ck_blkaddr = 0, ck_device_id = 1\<rparr>]"

lemma sample_write:
  "\<exists>bw. write_file_chunks sample_hash (blob_writer_new 8192 4096) (Some [1, 2, 3]) 3 = Inr (sample_refs, bw)"
proof -
  have "split_chunks 4096 [1, 2, 3 :: u8] = [[1, 2, 3]]" by (simp add: split_chunks.simps)
  moreover have "\<exists>bw. store_chunk sample_hash (blob_writer_new 8192 4096) [1, 2, 3] = Inr (0, bw)"
    by (simp add: store_chunk_def blob_writer_new_def div_ceil_def write_all_def)
  ultimately show ?thesis
    by (subst write_file_chunks_eq) (auto simp: blob_writer_new_def sample_refs_def device_refs_def)
qed

lemma sample_lossy:
  "from_utf8_lossy [102] = [102]" "from_utf8_lossy [100] = [100]" "from_utf8_lossy [108] = [108]"
  "from_utf8_lossy [103] = [103]"
  by code_simp+

lemma sample_by_name:
  "by_name [([102], sample_file), ([100], sample_subdir), ([108], sample_link), ([103], sample_file)] =
     [([100], sample_subdir), ([102], sample_file), ([103], sample_file), ([108], sample_link)]"
  "by_name [] = []"
  by (simp_all add: by_name_def)

definition sample_inodes :: "inode_info list" where
  "sample_inodes =
     (let de = \<lambda>nm ft k. \<lparr>dn_name = nm, dn_file_type = ft, dn_inode_idx = k\<rparr> in
      [new_inode (sample_stat 1 0x41ED 3 0) 1 0
         (Directory [de [100] 2 1, de [102] 1 2, de [103] 1 2, de [108] 7 3] 0 0 0) [],
       new_inode (sample_stat 4 0x41ED 2 0) 2 0 (Directory [] 0 0 0) [],
       new_inode (sample_stat 2 0x81A4 2 3) 3 3 (RegularFile sample_refs) [(1, [107], [7, 8])],
       new_inode (sample_stat 3 0xA1FF 1 1) 4 1 (Symlink [102]) []])"

lemma sample_kinds:
  "is_dir (sample_stat 1 0x41ED 3 0)" "is_dir (sample_stat 4 0x41ED 2 0)" "\<not> is_dir (sample_stat 2 0x81A4 2 3)"
  "is_file (sample_stat 2 0x81A4 2 3)" "\<not> is_dir (sample_stat 3 0xA1FF 1 1)" "\<not> is_file (sample_stat 3 0xA1FF 1 1)" "is_symlink (sample_stat 3 0xA1FF 1 1)"
  by (simp_all add: is_dir_def is_file_def is_symlink_def sample_stat_def)

lemma sample_sources:
  "src_entries sample_root = Some [([102], sample_file), ([100], sample_subdir), ([108], sample_link), ([103], sample_file)]"
  "src_entries sample_subdir = Some []" "src_content sample_file = Some [1, 2, 3]" "src_target sample_link = Some [102]"
  by (simp_all add: sample_defs sample_names)

lemma sample_tree_size: "metadata_size 4096 sample_root \<le> 2 ^ 16"
proof -
  note nodes = tree_bytes.simps [of _ sample_root] tree_bytes.simps [of _ sample_file]
    tree_bytes.simps [of _ sample_subdir] tree_bytes.simps [of _ sample_link]
  have "div_ceil (unat (st_size (sample_stat 2 0x81A4 2 3))) 4096 = 1" by (simp add: sample_stat_def div_ceil_def)
  then show ?thesis
    by (simp add: metadata_size_def nodes node_bytes_def sample_stats sample_kinds sample_sources
        sample_xattrs [unfolded sample_names] sample_no_area sample_xattr_area)
qed

lemma sample_build:
  "\<exists>bw. build_tree sample_hash sample_root (blob_writer_new 8192 4096) = Inr (sample_inodes, bw)"
proof -
  obtain bw where w: "write_file_chunks sample_hash (blob_writer_new 8192 4096) (Some [1, 2, 3]) 3 = Inr (sample_refs, bw)"
    using sample_write by blast
  have ft: "mode_to_file_type (ucast (st_mode (sample_stat 4 0x41ED 2 0))) = 2"
    "mode_to_file_type (ucast (st_mode (sample_stat 2 0x81A4 2 3))) = 1"
    "mode_to_file_type (ucast (st_mode (sample_stat 3 0xA1FF 1 1))) = 7"
    by (simp_all add: mode_to_file_type_def sample_stat_def)
  have sz: "st_size (sample_stat 2 0x81A4 2 3) = 3" by (simp add: sample_stat_def)
  note nodes = build_tree_recursive.simps [of _ sample_root] build_tree_recursive.simps [of _ sample_file]
    build_tree_recursive.simps [of _ sample_subdir] build_tree_recursive.simps [of _ sample_link]
  show ?thesis
    by (simp add: build_tree_def nodes sample_kinds sample_sources ft sz w sample_stats sample_by_name sample_xattrs [unfolded sample_names]
        build_entries_step push_inode_def set_children_def sample_lossy sample_link_keys add_link_def
        sample_inodes_def new_inode_def Let_def)
qed

lemma sample_bound: "metadata_bound sample_inodes \<le> 2 ^ 16"
  by (simp add: metadata_bound_def slots_size_def slot_size_def sample_inodes_def new_inode_def dir_bound_def
      length_inode_payload inode_base_def sample_no_area sample_xattr_area pad_len_def
      sample_refs_def Let_def sample_stat_def)

lemma sample_image:
  "\<exists>img blob. mkfs_main sample_hash 4096 1700000000 sample_uuid sample_root True (Some 8192) (Some 131072) = Inr (img, blob)"
proof -
  obtain bw where b: "build_tree sample_hash sample_root (blob_writer_new 8192 4096) = Inr (sample_inodes, bw)"
    using sample_build by blast
  have p: "is_power_of_two 4096" by code_simp
  have v: "source_valid sample_hash (unat (4096 :: u32)) sample_nodes sample_root" using sample_valid by simp
  show ?thesis
    using sample_bound by (intro mkfs_main_ok [OF v _ p _ _ _ b]) (simp_all add: sample_uuid_def)
qed

lemma sample_metadata:
  assumes "build_tree sample_hash sample_root (blob_writer_new 8192 4096) = Inr (inodes, bw)"
  shows "metadata_bound inodes \<le> 2 ^ 59"
  using assms sample_build sample_bound by fastforce

end
