(* ===== verification/Fuse.thy ===== *)
theory Fuse
  imports Reader_Data
begin

text \<open>
  \<^verbatim>\<open>src/fs/fuse.rs\<close>: the file system as the FUSE server sees it. The state is the opened reader,
  which no operation changes, the table of open directory handles and the counter they are drawn
  from. Flag sets of the third-party crate are sets of their names; the callback that adds an entry
  to a reply and the \<^verbatim>\<open>write\<close> of the asynchronous reply writer are arguments. Numbers of \<^verbatim>\<open>libc\<close>
  are those of Linux. Fields of type \<^verbatim>\<open>i64\<close> hold the 64 bits of their value.
\<close>

unbundle bit_operations_syntax

subsection \<open>Constants\<close>

definition FUSE_ROOT_ID :: u64 where [simp]: "FUSE_ROOT_ID = 1"
definition EROFS_FUSE_TIMEOUT :: nat where "EROFS_FUSE_TIMEOUT = 86400 * 365 * 10"

abbreviation "ENOENT \<equiv> Errno 2"
abbreviation "EBADF \<equiv> Errno 9"
abbreviation "ENOTDIR \<equiv> Errno 20"
abbreviation "EISDIR \<equiv> Errno 21"
abbreviation "ERR_EROFS \<equiv> Errno 30"
abbreviation "ERANGE \<equiv> Errno 34"
abbreviation "ENODATA \<equiv> Errno 61"

datatype fs_option =
  ASYNC_READ | BIG_WRITES | MAX_PAGES | PARALLEL_DIROPS | DO_READDIRPLUS | READDIRPLUS_AUTO
| ASYNC_DIO | CACHE_SYMLINKS | OtherOption nat

datatype open_option = KEEP_CACHE | CACHE_DIR

definition erofs_ft_to_dt :: "u8 \<Rightarrow> u32" where
  "erofs_ft_to_dt ft =
     (if ft = EROFS_FT_REG_FILE then 8
      else if ft = EROFS_FT_DIR then 4
      else if ft = EROFS_FT_CHRDEV then 2
      else if ft = EROFS_FT_BLKDEV then 6
      else if ft = EROFS_FT_FIFO then 1
      else if ft = EROFS_FT_SOCK then 12
      else if ft = EROFS_FT_SYMLINK then 10
      else 0)"

subsection \<open>State\<close>

record dir_handle =
  dh_entries :: "dir_ent list"

record erofs_fs =
  fs_reader :: erofs_reader
  fs_dir_handles :: "u64 \<Rightarrow> dir_handle option"
  fs_next_dir_handle :: u64

definition fs_new :: "erofs_reader \<Rightarrow> erofs_fs" where
  "fs_new r = \<lparr>fs_reader = r, fs_dir_handles = (\<lambda>_. None), fs_next_dir_handle = 1\<rparr>"

definition to_nid :: "erofs_fs \<Rightarrow> u64 \<Rightarrow> u64" where
  "to_nid fs ino =
     (if ino = FUSE_ROOT_ID then superblock_root_nid (reader_sb (fs_reader fs)) else ino - FUSE_ROOT_ID)"

definition to_ino :: "erofs_fs \<Rightarrow> u64 \<Rightarrow> u64" where
  "to_ino fs nid =
     (if nid = superblock_root_nid (reader_sb (fs_reader fs)) then FUSE_ROOT_ID else nid + FUSE_ROOT_ID)"

subsection \<open>Attributes\<close>

record stat64 =
  s64_ino :: u64
  s64_mode :: u32
  s64_nlink :: u64
  s64_size :: u64
  s64_blocks :: u64
  s64_uid :: u32
  s64_gid :: u32
  s64_atime :: u64
  s64_mtime :: u64
  s64_ctime :: u64
  s64_atime_nsec :: u64
  s64_mtime_nsec :: u64
  s64_ctime_nsec :: u64
  s64_blksize :: u64
  s64_rdev :: u64

definition fs_block_size :: "erofs_fs \<Rightarrow> u64" where
  \<comment> \<open>\<^verbatim>\<open>1u64 << sb.blkszbits\<close>; the shift takes the count modulo 64\<close>
  "fs_block_size fs = push_bit (unat (sb_blkszbits (reader_sb (fs_reader fs))) mod 64) 1"

definition make_stat :: "erofs_fs \<Rightarrow> u64 \<Rightarrow> erofs_inode \<Rightarrow> stat64" where
  "make_stat fs nid inode =
     (let ino = to_ino fs nid;
          sb = reader_sb (fs_reader fs);
          block_size = fs_block_size fs;
          mtime = inode_mtime inode (superblock_epoch sb);
          mtime_nsec = inode_mtime_nsec inode;
          sz = inode_size inode;
          mode = (ucast (inode_mode inode) :: u32)
      in \<lparr>s64_ino = ino,
          s64_mode = ucast (inode_mode inode),
          s64_nlink = ucast (inode_nlink inode),
          s64_size = sz,
          s64_blocks = (sz + block_size - 1) div block_size * block_size div 512,
          s64_uid = inode_uid inode,
          s64_gid = inode_gid inode,
          s64_atime = mtime, s64_mtime = mtime, s64_ctime = mtime,
          s64_atime_nsec = ucast mtime_nsec, s64_mtime_nsec = ucast mtime_nsec, s64_ctime_nsec = ucast mtime_nsec,
          s64_blksize = block_size,
          s64_rdev = (if mode AND 0xF000 = 0x2000 \<or> mode AND 0xF000 = 0x6000
                      then ucast (inode_rdev inode) else 0)\<rparr>)"

record entry =
  en_inode :: u64
  en_generation :: u64
  en_attr :: stat64
  en_attr_flags :: u32
  en_attr_timeout :: nat
  en_entry_timeout :: nat

definition make_entry :: "erofs_fs \<Rightarrow> u64 \<Rightarrow> erofs_inode \<Rightarrow> entry" where
  "make_entry fs nid inode =
     (let ino = to_ino fs nid in
      \<lparr>en_inode = ino, en_generation = 0, en_attr = make_stat fs nid inode, en_attr_flags = 0,
       en_attr_timeout = EROFS_FUSE_TIMEOUT, en_entry_timeout = EROFS_FUSE_TIMEOUT\<rparr>)"

subsection \<open>Lookup, attributes and data\<close>

definition fs_init :: "fs_option set \<Rightarrow> fs_option set" where
  "fs_init capable =
     capable \<inter> {ASYNC_READ, BIG_WRITES, MAX_PAGES, PARALLEL_DIROPS, DO_READDIRPLUS, READDIRPLUS_AUTO,
                ASYNC_DIO, CACHE_SYMLINKS}"

definition iterate_dir :: "erofs_fs \<Rightarrow> u64 \<Rightarrow> 's dir_cb \<Rightarrow> 's \<Rightarrow> error + 's" where
  "iterate_dir fs inode cb s =
     (let nid = to_nid fs inode in
      and_then (reader_inode (fs_reader fs) nid) (\<lambda>vi.
      for_each_dir_entry (fs_reader fs) nid vi cb s))"

definition fs_lookup :: "erofs_fs \<Rightarrow> u64 \<Rightarrow> u8 list \<Rightarrow> error + entry" where
  "fs_lookup fs parent name =
     (let target = name in
      and_then (iterate_dir fs parent
        (\<lambda>entry_nid _ entry_name found. if entry_name = target then Inr (False, Some entry_nid) else Inr (True, found))
        None) (\<lambda>found.
      case found of
        Some child_nid \<Rightarrow>
          and_then (reader_inode (fs_reader fs) child_nid) (\<lambda>child_inode.
          Inr (make_entry fs child_nid child_inode))
      | None \<Rightarrow> Inl ENOENT))"

definition fs_getattr :: "erofs_fs \<Rightarrow> u64 \<Rightarrow> error + (stat64 \<times> nat)" where
  "fs_getattr fs inode =
     (let nid = to_nid fs inode in
      and_then (reader_inode (fs_reader fs) nid) (\<lambda>vi.
      Inr (make_stat fs nid vi, EROFS_FUSE_TIMEOUT)))"

definition fs_open :: "erofs_fs \<Rightarrow> u64 \<Rightarrow> u32 \<Rightarrow> error + (u64 option \<times> open_option set \<times> u32 option)" where
  \<comment> \<open>\<^verbatim>\<open>O_WRONLY\<close> is 1, \<^verbatim>\<open>O_RDWR\<close> is 2\<close>
  "fs_open fs inode flags =
     (if flags AND (1 OR 2) \<noteq> 0 then Inl ERR_EROFS
      else
        let nid = to_nid fs inode in
        and_then (reader_inode (fs_reader fs) nid) (\<lambda>vi.
        if (ucast (inode_mode vi) :: u32) AND 0xF000 \<noteq> 0x8000 then Inl EISDIR
        else Inr (Some nid, {KEEP_CACHE}, None)))"

definition fs_release :: "error + unit" where "fs_release = Inr ()"

definition fs_read :: "erofs_fs \<Rightarrow> u64 \<Rightarrow> sink \<Rightarrow> u32 \<Rightarrow> u64 \<Rightarrow> error + (u64 \<times> sink)" where
  "fs_read fs inode w sz offset =
     (let nid = to_nid fs inode in
      and_then (reader_inode (fs_reader fs) nid) (\<lambda>vi.
      write_file_data_to (fs_reader fs) nid vi offset sz w))"

definition fs_readlink :: "erofs_fs \<Rightarrow> u64 \<Rightarrow> error + u8 list" where
  "fs_readlink fs inode =
     (let nid = to_nid fs inode in
      and_then (reader_inode (fs_reader fs) nid) (\<lambda>vi.
      read_symlink (fs_reader fs) nid vi))"

subsection \<open>Directory handles\<close>

definition draw_handle :: "erofs_fs \<Rightarrow> u64 \<times> erofs_fs" where
  \<comment> \<open>\<^verbatim>\<open>self.next_dir_handle.fetch_add(1, Ordering::Relaxed)\<close>, one atomic step\<close>
  "draw_handle fs = (fs_next_dir_handle fs, fs\<lparr>fs_next_dir_handle := fs_next_dir_handle fs + 1\<rparr>)"

definition insert_handle :: "u64 \<Rightarrow> dir_handle \<Rightarrow> erofs_fs \<Rightarrow> erofs_fs" where
  \<comment> \<open>the insertion under the lock, the second atomic step\<close>
  "insert_handle handle dh fs = fs\<lparr>fs_dir_handles := (fs_dir_handles fs)(handle \<mapsto> dh)\<rparr>"

definition create_dir_handle :: "erofs_fs \<Rightarrow> u64 \<Rightarrow> error + (u64 \<times> erofs_fs)" where
  "create_dir_handle fs inode =
     (let nid = to_nid fs inode in
      and_then (reader_inode (fs_reader fs) nid) (\<lambda>vi.
      and_then (read_dir_cached (fs_reader fs) nid vi) (\<lambda>entries.
      case draw_handle fs of (handle, fs) \<Rightarrow>
      let dir_handle = \<lparr>dh_entries = entries\<rparr>
      in Inr (handle, insert_handle handle dir_handle fs))))"

definition get_dir_handle :: "erofs_fs \<Rightarrow> u64 \<Rightarrow> error + dir_handle" where
  "get_dir_handle fs handle = (case fs_dir_handles fs handle of Some dh \<Rightarrow> Inr dh | None \<Rightarrow> Inl EBADF)"

definition fs_opendir :: "erofs_fs \<Rightarrow> u64 \<Rightarrow> error + ((u64 option \<times> open_option set) \<times> erofs_fs)" where
  "fs_opendir fs inode =
     (let nid = to_nid fs inode in
      and_then (reader_inode (fs_reader fs) nid) (\<lambda>vi.
      if (ucast (inode_mode vi) :: u32) AND 0xF000 \<noteq> 0x4000 then Inl ENOTDIR
      else
        and_then (create_dir_handle fs inode) (\<lambda>(handle, fs).
        Inr ((Some handle, {CACHE_DIR, KEEP_CACHE}), fs))))"

record dirent_reply =
  dr_ino :: u64
  dr_offset :: u64
  dr_type :: u32
  dr_name :: "u8 list"

definition dirent_of :: "erofs_fs \<Rightarrow> nat \<Rightarrow> dir_ent \<Rightarrow> dirent_reply" where
  "dirent_of fs idx = (\<lambda>(name, nid, ft).
     \<lparr>dr_ino = to_ino fs nid, dr_offset = word_of_nat idx + 1, dr_type = erofs_ft_to_dt ft, dr_name = name\<rparr>)"

fun readdir_loop ::
  "erofs_fs \<Rightarrow> (dirent_reply \<Rightarrow> 's \<Rightarrow> error + (nat \<times> 's)) \<Rightarrow> (nat \<times> dir_ent) list \<Rightarrow> 's \<Rightarrow> error + 's" where
  "readdir_loop fs add_entry [] s = Inr s"
| "readdir_loop fs add_entry ((idx, e) # es) s =
     (let dir_entry = dirent_of fs idx e in
      case add_entry dir_entry s of
        Inl err \<Rightarrow> Inl err
      | Inr (n, s) \<Rightarrow> if n = 0 then Inr s else readdir_loop fs add_entry es s)"

definition fs_readdir ::
  "erofs_fs \<Rightarrow> u64 \<Rightarrow> u64 \<Rightarrow> (dirent_reply \<Rightarrow> 's \<Rightarrow> error + (nat \<times> 's)) \<Rightarrow> 's \<Rightarrow> error + 's" where
  "fs_readdir fs handle offset add_entry s =
     and_then (get_dir_handle fs handle) (\<lambda>dh.
     let start = unat offset in
     readdir_loop fs add_entry (drop start (List.enumerate 0 (dh_entries dh))) s)"

fun readdirplus_loop ::
  "erofs_fs \<Rightarrow> (dirent_reply \<Rightarrow> entry \<Rightarrow> 's \<Rightarrow> error + (nat \<times> 's)) \<Rightarrow> (nat \<times> dir_ent) list \<Rightarrow> 's \<Rightarrow> error + 's" where
  "readdirplus_loop fs add_entry [] s = Inr s"
| "readdirplus_loop fs add_entry ((idx, e) # es) s =
     and_then (reader_inode (fs_reader fs) (fst (snd e))) (\<lambda>child_inode.
     let fuse_entry = make_entry fs (fst (snd e)) child_inode;
         dir_entry = dirent_of fs idx e
     in case add_entry dir_entry fuse_entry s of
          Inl err \<Rightarrow> Inl err
        | Inr (n, s) \<Rightarrow> if n = 0 then Inr s else readdirplus_loop fs add_entry es s)"

definition fs_readdirplus ::
  "erofs_fs \<Rightarrow> u64 \<Rightarrow> u64 \<Rightarrow> (dirent_reply \<Rightarrow> entry \<Rightarrow> 's \<Rightarrow> error + (nat \<times> 's)) \<Rightarrow> 's \<Rightarrow> error + 's" where
  "fs_readdirplus fs handle offset add_entry s =
     and_then (get_dir_handle fs handle) (\<lambda>dh.
     let start = unat offset in
     readdirplus_loop fs add_entry (drop start (List.enumerate 0 (dh_entries dh))) s)"

definition fs_releasedir :: "erofs_fs \<Rightarrow> u64 \<Rightarrow> error + (unit \<times> erofs_fs)" where
  "fs_releasedir fs handle = Inr ((), fs\<lparr>fs_dir_handles := (fs_dir_handles fs)(handle := None)\<rparr>)"

subsection \<open>Statistics and extended attributes\<close>

record statvfs64 =
  f_bsize :: u64
  f_frsize :: u64
  f_blocks :: u64
  f_files :: u64
  f_namemax :: u64

definition fs_statfs :: "erofs_fs \<Rightarrow> error + statvfs64" where
  "fs_statfs fs =
     (let sb = reader_sb (fs_reader fs);
          block_size = fs_block_size fs
      in Inr \<lparr>f_bsize = block_size, f_frsize = block_size, f_blocks = superblock_blocks sb,
              f_files = superblock_inos sb, f_namemax = 255\<rparr>)"

definition fs_access :: "error + unit" where "fs_access = Inr ()"

datatype getxattr_reply = XattrCount u32 | XattrValue "u8 list"
datatype listxattr_reply = NamesCount u32 | Names "u8 list"

fun find_xattr :: "u8 list \<Rightarrow> u32 \<Rightarrow> (u8 list \<times> u8 list) list \<Rightarrow> error + getxattr_reply" where
  \<comment> \<open>the loop of \<^verbatim>\<open>getxattr\<close>\<close>
  "find_xattr name_bytes sz [] = Inl ENODATA"
| "find_xattr name_bytes sz ((xname, xvalue) # xattrs) =
     (if xname = name_bytes then
        if sz = 0 then Inr (XattrCount (word_of_nat (length xvalue)))
        else if unat sz < length xvalue then Inl ERANGE
        else Inr (XattrValue xvalue)
      else find_xattr name_bytes sz xattrs)"

definition fs_getxattr :: "erofs_fs \<Rightarrow> u64 \<Rightarrow> u8 list \<Rightarrow> u32 \<Rightarrow> error + getxattr_reply" where
  "fs_getxattr fs inode name sz =
     (let nid = to_nid fs inode in
      and_then (reader_inode (fs_reader fs) nid) (\<lambda>vi.
      and_then (read_xattrs (fs_reader fs) nid vi) (find_xattr name sz)))"

definition fs_listxattr :: "erofs_fs \<Rightarrow> u64 \<Rightarrow> u32 \<Rightarrow> error + listxattr_reply" where
  "fs_listxattr fs inode sz =
     (let nid = to_nid fs inode in
      and_then (reader_inode (fs_reader fs) nid) (\<lambda>vi.
      and_then (read_xattrs (fs_reader fs) nid vi) (\<lambda>xattrs.
      let names_buf = concat (map (\<lambda>(xname, _). xname @ [0]) xattrs) in
      if sz = 0 then Inr (NamesCount (word_of_nat (length names_buf)))
      else if unat sz < length names_buf then Inl ERANGE
      else Inr (Names names_buf))))"

subsection \<open>The asynchronous interface\<close>

definition async_lookup :: "erofs_fs \<Rightarrow> u64 \<Rightarrow> u8 list \<Rightarrow> error + entry" where
  "async_lookup fs parent name = fs_lookup fs parent name"

definition async_getattr :: "erofs_fs \<Rightarrow> u64 \<Rightarrow> error + (stat64 \<times> nat)" where
  "async_getattr fs inode = fs_getattr fs inode"

definition async_open :: "erofs_fs \<Rightarrow> u64 \<Rightarrow> u32 \<Rightarrow> error + (u64 option \<times> open_option set)" where
  "async_open fs inode flags = and_then (fs_open fs inode flags) (\<lambda>(h, opts, _). Inr (h, opts))"

definition async_read ::
  "(u8 list \<Rightarrow> 'w \<Rightarrow> error + (u64 \<times> 'w)) \<Rightarrow> erofs_fs \<Rightarrow> u64 \<Rightarrow> 'w \<Rightarrow> u32 \<Rightarrow> u64 \<Rightarrow> error + (u64 \<times> 'w)" where
  \<comment> \<open>the first argument is \<^verbatim>\<open>write\<close> of the reply writer\<close>
  "async_read write_reply fs inode w sz offset =
     (let nid = to_nid fs inode in
      and_then (reader_inode (fs_reader fs) nid) (\<lambda>vi.
      and_then (read_file_data_sync (fs_reader fs) nid vi offset sz) (\<lambda>dat.
      write_reply dat w)))"

definition async_setattr :: "error + (stat64 \<times> nat)" where "async_setattr = Inl ERR_EROFS"
definition async_create :: "error + (entry \<times> u64 option \<times> open_option set)" where "async_create = Inl ERR_EROFS"
definition async_write :: "error + u64" where "async_write = Inl ERR_EROFS"
definition async_fsync :: "error + unit" where "async_fsync = Inr ()"
definition async_fallocate :: "error + unit" where "async_fallocate = Inl ERR_EROFS"
definition async_fsyncdir :: "error + unit" where "async_fsyncdir = Inr ()"

end
