(* ===== verification/Fuse_Handles.thy ===== *)
theory Fuse_Handles
  imports Fuse "HOL-Library.Multiset"
begin

text \<open>
  The directory handles of the FUSE server under concurrency. Worker threads share the state;
  opening a directory draws a number and inserts the entries in two atomic steps, so other
  operations can come in between. The step relation has one rule per atomic step. A run that
  opens at most \<open>2 ^ 64\<close> directories never hands out a number twice, and a handle gives the
  entries it was opened with until it is released.
\<close>

subsection \<open>Tables\<close>

text \<open>What the operations on handles need of the table that stores them.\<close>

datatype 'd table_op = Put u64 'd | Del u64

primrec op_key :: "'d table_op \<Rightarrow> u64" where
  "op_key (Put h d) = h"
| "op_key (Del h) = h"

locale handle_table =
  fixes get :: "'s \<Rightarrow> u64 \<Rightarrow> 'd option"
    and put :: "u64 \<Rightarrow> 'd \<Rightarrow> 's \<Rightarrow> 's"
    and del :: "u64 \<Rightarrow> 's \<Rightarrow> 's"
  assumes get_put: "get (put h d s) h' = (if h' = h then Some d else get s h')"
    and get_del: "get (del h s) h' = (if h' = h then None else get s h')"
begin

primrec apply_op :: "'d table_op \<Rightarrow> 's \<Rightarrow> 's" where
  "apply_op (Put h d) = put h d"
| "apply_op (Del h) = del h"

lemma get_other: "\<forall>oper \<in> set ops. op_key oper \<noteq> h \<Longrightarrow> get (fold apply_op ops s) h = get s h"
proof (induction ops arbitrary: s)
  case (Cons oper ops)
  then show ?case by (cases oper) (auto simp: get_put get_del)
qed simp

lemma get_stored:
  assumes "ops = ops1 @ Put h d # ops2" and "\<forall>oper \<in> set ops2. op_key oper \<noteq> h"
  shows "get (fold apply_op ops s) h = Some d"
  using assms by (simp add: get_other get_put)

lemma get_deleted:
  assumes "ops = ops1 @ Del h # ops2" and "\<forall>oper \<in> set ops2. op_key oper \<noteq> h"
  shows "get (fold apply_op ops s) h = None"
  using assms by (simp add: get_other get_del)

lemma get_op_cong: "get s = get s' \<Longrightarrow> get (apply_op oper s) = get (apply_op oper s')"
  by (rule ext) (cases oper; simp add: get_put get_del)

lemma get_cong: "get s = get s' \<Longrightarrow> get (fold apply_op ops s) = get (fold apply_op ops s')"
proof (induction ops arbitrary: s s')
  case (Cons oper ops)
  show ?case
    unfolding fold_simps by (rule Cons.IH [OF get_op_cong [OF Cons.prems]])
qed simp

end

definition release_handle :: "u64 \<Rightarrow> erofs_fs \<Rightarrow> erofs_fs" where
  "release_handle handle fs = fs\<lparr>fs_dir_handles := (fs_dir_handles fs)(handle := None)\<rparr>"

interpretation handles: handle_table fs_dir_handles insert_handle release_handle
  by unfold_locales (simp_all add: insert_handle_def release_handle_def)

lemma fs_releasedir_release: "fs_releasedir fs h = Inr ((), release_handle h fs)"
  by (simp add: fs_releasedir_def release_handle_def)

subsection \<open>The server as a step relation\<close>

record server =
  sv_fs :: erofs_fs
  sv_pending :: "(u64 \<times> dir_handle) list" \<comment> \<open>drawn and not yet inserted\<close>

datatype server_event = Draw u64 u64 dir_handle | Insert u64 dir_handle | Release u64

inductive server_step :: "server \<Rightarrow> server_event \<Rightarrow> server \<Rightarrow> bool" where
  draw: "reader_inode (fs_reader (sv_fs s)) (to_nid (sv_fs s) ino) = Inr vi \<Longrightarrow>
     (ucast (inode_mode vi) :: u32) AND 0xF000 = 0x4000 \<Longrightarrow>
     read_dir_cached (fs_reader (sv_fs s)) (to_nid (sv_fs s) ino) vi = Inr entries \<Longrightarrow>
     draw_handle (sv_fs s) = (h, fs) \<Longrightarrow>
     server_step s (Draw ino h \<lparr>dh_entries = entries\<rparr>)
       (s\<lparr>sv_fs := fs, sv_pending := (h, \<lparr>dh_entries = entries\<rparr>) # sv_pending s\<rparr>)"
| insert: "(h, dh) \<in> set (sv_pending s) \<Longrightarrow>
     server_step s (Insert h dh)
       (s\<lparr>sv_fs := insert_handle h dh (sv_fs s), sv_pending := remove1 (h, dh) (sv_pending s)\<rparr>)"
| release: "fs_releasedir (sv_fs s) h = Inr ((), fs) \<Longrightarrow> server_step s (Release h) (s\<lparr>sv_fs := fs\<rparr>)"

inductive_cases server_step_cases: "server_step s e s'"

inductive server_run :: "server \<Rightarrow> server_event list \<Rightarrow> server \<Rightarrow> bool" where
  nil: "server_run s [] s"
| cons: "server_step s e s1 \<Longrightarrow> server_run s1 es s' \<Longrightarrow> server_run s (e # es) s'"

inductive_simps server_run_simps [simp]: "server_run s [] s'" "server_run s (e # es) s'"

definition server_start :: "erofs_reader \<Rightarrow> server" where
  "server_start r = \<lparr>sv_fs = fs_new r, sv_pending = []\<rparr>"

fun drawn :: "server_event list \<Rightarrow> (u64 \<times> dir_handle) list" where
  "drawn [] = []"
| "drawn (Draw ino h dh # es) = (h, dh) # drawn es"
| "drawn (Insert h dh # es) = drawn es"
| "drawn (Release h # es) = drawn es"

fun inserted :: "server_event list \<Rightarrow> (u64 \<times> dir_handle) list" where
  "inserted [] = []"
| "inserted (Draw ino h dh # es) = inserted es"
| "inserted (Insert h dh # es) = (h, dh) # inserted es"
| "inserted (Release h # es) = inserted es"

fun event_ops :: "server_event \<Rightarrow> dir_handle table_op list" where
  "event_ops (Draw ino h dh) = []"
| "event_ops (Insert h dh) = [Put h dh]"
| "event_ops (Release h) = [Del h]"

text \<open>One step.\<close>

lemma step_reader: "server_step s e s' \<Longrightarrow> fs_reader (sv_fs s') = fs_reader (sv_fs s)"
  by (cases rule: server_step.cases) (auto simp: draw_handle_def insert_handle_def fs_releasedir_def)

lemma step_pending:
  "server_step s e s' \<Longrightarrow>
     mset (drawn [e]) + mset (sv_pending s) = mset (inserted [e]) + mset (sv_pending s')"
  by (cases rule: server_step.cases) auto

lemma step_next:
  "server_step s e s' \<Longrightarrow>
     map fst (drawn [e]) = (if drawn [e] = [] then [] else [fs_next_dir_handle (sv_fs s)]) \<and>
     fs_next_dir_handle (sv_fs s') = fs_next_dir_handle (sv_fs s) + word_of_nat (length (drawn [e]))"
  by (cases rule: server_step.cases) (auto simp: draw_handle_def insert_handle_def fs_releasedir_def)

lemma step_table:
  "server_step s e s' \<Longrightarrow>
     fs_dir_handles (sv_fs s') = fs_dir_handles (fold handles.apply_op (event_ops e) (sv_fs s))"
  by (cases rule: server_step.cases) (auto simp: draw_handle_def fs_releasedir_release)

lemma drawn_Cons: "drawn (e # es) = drawn [e] @ drawn es" "inserted (e # es) = inserted [e] @ inserted es"
  by (cases e; simp)+

text \<open>Runs.\<close>

lemma run_reader: "server_run s es s' \<Longrightarrow> fs_reader (sv_fs s') = fs_reader (sv_fs s)"
  by (induction rule: server_run.induct) (auto dest: step_reader)

lemma run_pending:
  "server_run s es s' \<Longrightarrow> mset (drawn es) + mset (sv_pending s) = mset (inserted es) + mset (sv_pending s')"
proof (induction rule: server_run.induct)
  case (cons s e s1 es s')
  have "mset (drawn (e # es)) + mset (sv_pending s) = mset (drawn es) + (mset (drawn [e]) + mset (sv_pending s))"
    by (simp only: drawn_Cons [of e es] mset_append ac_simps)
  also have "\<dots> = mset (inserted [e]) + (mset (drawn es) + mset (sv_pending s1))"
    unfolding step_pending [OF cons.hyps(1)] by (simp only: ac_simps)
  also have "\<dots> = mset (inserted (e # es)) + mset (sv_pending s')"
    unfolding cons.IH by (simp only: drawn_Cons [of e es] mset_append ac_simps)
  finally show ?case .
qed simp

lemma run_drawn:
  "server_run s es s' \<Longrightarrow>
     map fst (drawn es) = map (\<lambda>i. fs_next_dir_handle (sv_fs s) + word_of_nat i) [0 ..< length (drawn es)]"
proof (induction rule: server_run.induct)
  case (cons s e s1 es s')
  note st = step_next [OF cons.hyps(1)]
  show ?case
  proof (cases "drawn [e]")
    case Nil
    then show ?thesis using st cons.IH by (simp add: drawn_Cons [of e es])
  next
    case (Cons d ds)
    then have d: "drawn [e] = [d]" "fst d = fs_next_dir_handle (sv_fs s)"
      using st by auto
    have "map fst (drawn es) = map (\<lambda>i. fs_next_dir_handle (sv_fs s) + word_of_nat (Suc i)) [0 ..< length (drawn es)]"
      using cons.IH st by (simp add: d(1) add.assoc)
    then show ?thesis
      unfolding drawn_Cons [of e es] d(1)
      by (simp add: d(2) upt_conv_Cons map_Suc_upt [symmetric] comp_def del: upt_Suc)
  qed
qed simp

lemma run_table:
  "server_run s es s' \<Longrightarrow>
     fs_dir_handles (sv_fs s') = fs_dir_handles (fold handles.apply_op (concat (map event_ops es)) (sv_fs s))"
proof (induction rule: server_run.induct)
  case (cons s e s1 es s')
  then show ?case
    using handles.get_cong [OF step_table [OF cons.hyps(1)]] by simp
qed simp

lemma run_draw_reads:
  "server_run s es s' \<Longrightarrow> (h, dh) \<in> set (drawn es) \<Longrightarrow>
     \<exists>nid vi. reader_inode (fs_reader (sv_fs s)) nid = Inr vi \<and>
       (ucast (inode_mode vi) :: u32) AND 0xF000 = 0x4000 \<and>
       read_dir_cached (fs_reader (sv_fs s)) nid vi = Inr (dh_entries dh)"
proof (induction rule: server_run.induct)
  case (cons s e s1 es s')
  show ?case
  proof (cases "(h, dh) \<in> set (drawn [e])")
    case True
    from cons.hyps(1) this show ?thesis by cases auto
  next
    case False
    then have "(h, dh) \<in> set (drawn es)" using cons.prems by (simp add: drawn_Cons [of e es])
    then show ?thesis using cons.IH step_reader [OF cons.hyps(1)] by simp
  qed
qed simp

lemma inj_word_of_nat: "inj_on (word_of_nat :: nat \<Rightarrow> u64) {0 ..< 2 ^ 64}"
  by (rule inj_on_inverseI [of _ unat]) (simp add: unsigned_of_nat take_bit_nat_eq_self)

lemma run_distinct:
  assumes "server_run s es s'" and "length (drawn es) \<le> 2 ^ 64"
  shows "distinct (map fst (drawn es))"
proof -
  have "inj_on (\<lambda>i. fs_next_dir_handle (sv_fs s) + word_of_nat i) (set [0 ..< length (drawn es)])"
    using inj_on_subset [OF inj_word_of_nat, of "{0 ..< length (drawn es)}"] assms(2)
    by (auto simp: inj_on_def)
  then show ?thesis
    unfolding run_drawn [OF assms(1)] by (simp add: distinct_map)
qed

lemma run_inserted_distinct:
  assumes "server_run (server_start r) es s'" and "length (drawn es) \<le> 2 ^ 64"
  shows "distinct (map fst (inserted es))" and "set (inserted es) \<subseteq> set (drawn es)"
proof -
  have m: "mset (drawn es) = mset (inserted es @ sv_pending s')"
    using run_pending [OF assms(1)] by (simp add: server_start_def)
  then have "mset (map fst (drawn es)) = mset (map fst (inserted es @ sv_pending s'))"
    by (simp only: mset_map)
  then have "distinct (map fst (inserted es @ sv_pending s'))"
    using run_distinct [OF assms] mset_eq_imp_distinct_iff by blast
  then show "distinct (map fst (inserted es))" by simp
  show "set (inserted es) \<subseteq> set (drawn es)" using mset_eq_setD [OF m] by auto
qed

lemma inserted_append: "inserted (es @ fs) = inserted es @ inserted fs"
  by (induction es rule: inserted.induct) simp_all

lemma ops_keys:
  "oper \<in> set (concat (map event_ops es)) \<Longrightarrow> op_key oper \<in> set (map fst (inserted es)) \<or> Release (op_key oper) \<in> set es"
  by (induction es rule: inserted.induct) auto

subsection \<open>Properties\<close>

text \<open>C21: Handles are unique. In every run of the server, whatever the interleaving of the worker
  threads, the numbers that opening directories hands out are 1, 2, 3, ... in the order in which they
  are drawn, modulo the width of the counter; up to \<open>2 ^ 64\<close> opens no number is handed out twice, and
  only drawn numbers are ever inserted.\<close>

theorem handles_unique:
  assumes "server_run (server_start r) es s"
  shows "map fst (drawn es) = map (\<lambda>i. 1 + word_of_nat i) [0 ..< length (drawn es)] \<and>
    (length (drawn es) \<le> 2 ^ 64 \<longrightarrow>
       distinct (map fst (drawn es)) \<and> distinct (map fst (inserted es)) \<and> set (inserted es) \<subseteq> set (drawn es))"
  using run_drawn [OF assms] run_distinct [OF assms] run_inserted_distinct [OF assms]
  by (simp add: server_start_def fs_new_def)

text \<open>C20: A directory handle is a snapshot. Once a worker has inserted a handle, it gives the entries
  it was opened with, which are the entries of a directory of the image, until it is released, whatever
  the other workers open, insert and release in between.\<close>

theorem handle_snapshot:
  assumes "server_run (server_start r) (es1 @ Insert h dh # es2) s"
    and "length (drawn (es1 @ Insert h dh # es2)) \<le> 2 ^ 64" and "Release h \<notin> set es2"
  shows "get_dir_handle (sv_fs s) h = Inr dh \<and> fs_reader (sv_fs s) = r \<and>
    (\<exists>nid vi. reader_inode r nid = Inr vi \<and> (ucast (inode_mode vi) :: u32) AND 0xF000 = 0x4000 \<and>
       read_dir_cached r nid vi = Inr (dh_entries dh))"
proof -
  let ?es = "es1 @ Insert h dh # es2"
  note ins = run_inserted_distinct [OF assms(1,2)]
  have start: "fs_reader (sv_fs (server_start r)) = r" by (simp add: server_start_def fs_new_def)
  have "h \<notin> set (map fst (inserted es2))"
    using ins(1) by (simp add: inserted_append)
  then have free: "\<forall>oper \<in> set (concat (map event_ops es2)). op_key oper \<noteq> h"
    using ops_keys [of _ es2] assms(3) by blast
  have "fs_dir_handles (sv_fs s) h = Some dh"
    unfolding run_table [OF assms(1)]
    by (rule handles.get_stored [OF _ free, of _ "concat (map event_ops es1)"]) simp
  moreover have "(h, dh) \<in> set (drawn ?es)" using ins(2) by (auto simp: inserted_append)
  note run_draw_reads [OF assms(1) this, unfolded start]
  ultimately show ?thesis
    using run_reader [OF assms(1)] start by (auto simp: get_dir_handle_def)
qed

end
