(* ===== verification/Dir_Visit.thy ===== *)
theory Dir_Visit
  imports Reader_Meta
begin

text \<open>
  The walk over a directory does not depend on the callback: whatever bytes the directory holds, a
  walk that collects its entries determines every other walk. So the cached entries of a directory
  handle are what lookups see.
\<close>

unbundle bit_operations_syntax

definition next_entry :: "u8 list \<Rightarrow> nat \<Rightarrow> nat \<Rightarrow> error + dir_ent option" where
  \<comment> \<open>what the loop over a block reads before it calls the callback\<close>
  "next_entry block dirent_count i =
     (if i < dirent_count then
        if i * 12 + 12 > length block then Inr None
        else
          and_then (dirent_at block (i * 12) (i * 12 + 12)) (\<lambda>de.
          and_then
            (if i + 1 < dirent_count
             then and_then (dirent_at block ((i + 1) * 12) (length block)) (\<lambda>next_de.
                  Inr (unat (dirent_nameoff next_de)))
             else Inr (name_scan block (unat (dirent_nameoff de)))) (\<lambda>name_end.
          if unat (dirent_nameoff de) \<ge> length block \<or> name_end > length block then Inr None
          else and_then (slice_range (unat (dirent_nameoff de)) name_end block) (\<lambda>name.
               Inr (Some (name, dirent_nid de, dirent_file_type de)))))
      else Inr None)"

lemma and_then_if: "and_then (if c then a else b) f = (if c then and_then a f else and_then b f)"
  by simp

lemma parse_block_next:
  "parse_block block n i cb s =
     and_then (next_entry block n i) (\<lambda>e. case e of
       None \<Rightarrow> Inr (True, s)
     | Some (name, nid, ft) \<Rightarrow>
         and_then (cb nid ft name s) (\<lambda>r. case r of (go_on, s') \<Rightarrow>
           if go_on then parse_block block n (i + 1) cb s' else Inr (False, s')))"
  by (subst parse_block.simps) (simp add: next_entry_def Let_def and_then_assoc and_then_if cong: if_cong)

lemma next_entry_end: "n \<le> i \<Longrightarrow> next_entry block n i = Inr None"
  by (simp add: next_entry_def)

lemma parse_block_visit:
  "parse_block block n i collect_cb acc = Inr (b, acc') \<Longrightarrow>
     \<exists>es. acc' = acc @ es \<and> b \<and> (\<forall>(cb :: 's dir_cb) s. parse_block block n i cb s = visit_block cb es s)"
proof (induction "n - i" arbitrary: i acc)
  case 0
  then have "next_entry block n i = Inr None" by (intro next_entry_end) simp
  then show ?case using "0.prems" by (intro exI [of _ "[]"]) (simp add: parse_block_next)
next
  case (Suc k)
  show ?case
  proof (cases "next_entry block n i")
    case (Inl e)
    then show ?thesis using Suc.prems by (simp add: parse_block_next [of block n i])
  next
    case (Inr x)
    show ?thesis
    proof (cases x)
      case None
      then show ?thesis
        using Suc.prems Inr by (intro exI [of _ "[]"]) (simp add: parse_block_next [of block n i])
    next
      case (Some e)
      obtain name nid ft where e: "e = (name, nid, ft)" by (cases e)
      have "parse_block block n (i + 1) collect_cb (acc @ [(name, nid, ft)]) = Inr (b, acc')"
        using Suc.prems Inr by (simp add: parse_block_next [of block n i] Some e collect_cb_def)
      then obtain es where es: "acc' = (acc @ [(name, nid, ft)]) @ es" "b"
        "\<forall>(cb :: 's dir_cb) s. parse_block block n (i + 1) cb s = visit_block cb es s"
        using Suc.hyps(1) [of "i + 1"] Suc.hyps(2) by fastforce
      then show ?thesis
        using Inr by (intro exI [of _ "(name, nid, ft) # es"])
          (simp add: parse_block_next [of block n i] Some e cong: if_cong)
    qed
  qed
qed

lemma parse_dir_visit:
  "parse_dir_entries data dsz pos collect_cb acc = Inr acc' \<Longrightarrow>
     \<exists>es. acc' = acc @ es \<and> (\<forall>(cb :: 's dir_cb) s. parse_dir_entries data dsz pos cb s = visit cb es s)"
proof (induction "dsz - pos" arbitrary: pos acc rule: less_induct)
  case less
  let ?e = "min (pos + 4096) dsz"
  show ?case
  proof (cases "pos < dsz")
    case False
    then show ?thesis
      using less.prems by (intro exI [of _ "[]"]) (simp add: parse_dir_entries.simps visit_def)
  next
    case in_range: True
    from less.prems obtain block where block: "slice_range pos ?e data = Inr block"
      using in_range by (subst (asm) parse_dir_entries.simps) (auto simp: Let_def)
    define small where "small \<longleftrightarrow> ?e - pos < 12"
    have step: "parse_dir_entries data dsz pos cb s =
        (if small then Inr s
         else and_then (dirent_at block 0 12) (\<lambda>de.
           and_then (parse_block block (unat (dirent_nameoff de) div 12) 0 cb s) (\<lambda>r. case r of (go_on, s') \<Rightarrow>
             if go_on then parse_dir_entries data dsz (pos + 4096) cb s' else Inr s')))" for cb :: "'t dir_cb" and s
      by (subst parse_dir_entries.simps) (simp add: in_range block Let_def small_def cong: if_cong)
    show ?thesis
    proof (cases small)
      case True
      then show ?thesis
        using less.prems by (intro exI [of _ "[]"]) (simp add: step visit_def)
    next
      case False
      then obtain de where de: "dirent_at block 0 12 = Inr de"
        using less.prems by (auto simp: step)
      let ?n = "unat (dirent_nameoff de) div 12"
      have run: "parse_dir_entries data dsz pos cb s =
          and_then (parse_block block ?n 0 cb s) (\<lambda>r. case r of (go_on, s') \<Rightarrow>
            if go_on then parse_dir_entries data dsz (pos + 4096) cb s' else Inr s')" for cb :: "'t dir_cb" and s
        using False by (simp add: step de)
      obtain b acc1 where b: "parse_block block ?n 0 collect_cb acc = Inr (b, acc1)"
        and rest: "(if b then parse_dir_entries data dsz (pos + 4096) collect_cb acc1 else Inr acc1) = Inr acc'"
        using less.prems by (auto simp: run)
      from parse_block_visit [OF b, where 's = 's] obtain es1 where es1: "acc1 = acc @ es1" "b"
        "\<forall>(cb :: 's dir_cb) s. parse_block block ?n 0 cb s = visit_block cb es1 s" by blast
      obtain es2 where es2: "acc' = acc1 @ es2"
        "\<forall>(cb :: 's dir_cb) s. parse_dir_entries data dsz (pos + 4096) cb s = visit cb es2 s"
      proof -
        have "dsz - (pos + 4096) < dsz - pos" using in_range by linarith
        then show ?thesis using less.hyps [of "pos + 4096" acc1] rest es1(2) that by auto
      qed
      have "parse_dir_entries data dsz pos cb s = visit cb (es1 @ es2) s" for cb :: "'s dir_cb" and s
        unfolding run by (simp add: es1(3) es2(2) visit_def visit_block_append and_then_assoc split_def
            if_distrib [of "\<lambda>x. and_then x _"] cong: if_cong)
      then show ?thesis using es1(1) es2(1) by auto
    qed
  qed
qed

lemma read_dir_cached_collect: "read_dir_cached r nid i = for_each_dir_entry r nid i collect_cb []"
  by (simp add: read_dir_cached_def collect_cb_def)

lemma for_each_visit:
  assumes "read_dir_cached r nid i = Inr es"
  shows "for_each_dir_entry r nid i cb s = visit cb es s"
proof (cases "inode_size i = 0")
  case True
  then show ?thesis using assms by (simp add: read_dir_cached_def for_each_dir_entry_def Let_def visit_def)
next
  case False
  let ?n = "unat (inode_size i)"
  have collect: "for_each_dir_entry r nid i collect_cb [] = Inr es"
    using assms by (simp add: read_dir_cached_collect)
  have parsed: "visit cb es s = parse_dir_entries data ?n 0 cb s"
    if "parse_dir_entries data ?n 0 collect_cb [] = Inr es" for data
    using parse_dir_visit [OF that, where 's = 'a] by auto
  show ?thesis
  proof (cases "read_flat_data r nid i 0 (inode_size i)")
    case (Inr data)
    then show ?thesis
      using collect False parsed [of data] by (simp add: for_each_dir_entry_def Let_def)
  next
    case (Inl e)
    then have "\<forall>p. e \<noteq> Panic p" using collect False by (auto simp: for_each_dir_entry_def Let_def)
    then have vec: "for_each_dir_entry r nid i cb' s' =
        and_then (read_flat_data_vec r nid i 0 (inode_size i)) (\<lambda>data. parse_dir_entries data ?n 0 cb' s')"
      for cb' :: "'t dir_cb" and s'
      using Inl False by (cases e) (simp_all add: for_each_dir_entry_def Let_def)
    obtain data where "read_flat_data_vec r nid i 0 (inode_size i) = Inr data"
      and "parse_dir_entries data ?n 0 collect_cb [] = Inr es"
      using collect by (auto simp: vec)
    then show ?thesis using parsed by (simp add: vec)
  qed
qed

text \<open>C30: Every walk over a directory sees the cached entries. For arbitrary image contents, when the
  entries of a directory can be collected, iterating over it with any callback, stopping early
  included, is the same as running the callback over the collected entries.\<close>

theorem walk_sees_cached_entries:
  assumes "read_dir_cached r nid i = Inr es"
  shows "for_each_dir_entry r nid i cb s = visit cb es s"
  by (rule for_each_visit [OF assms])

end
