(* ===== verification/Fuse_Image.thy ===== *)
theory Fuse_Image
  imports Fuse_Handles Dir_Visit Roundtrip
begin

text \<open>
  What the FUSE server answers about an image the builder wrote: numbers, lookups and paths,
  attributes, file contents, extended attributes and the pages of a directory listing. \<open>resolve\<close>
  follows a path in the source, \<open>fs_walk\<close> follows it by lookups.
\<close>

unbundle bit_operations_syntax

subsection \<open>Inode numbers\<close>

abbreviation fs_root_nid :: "erofs_fs \<Rightarrow> u64" where
  "fs_root_nid fs \<equiv> superblock_root_nid (reader_sb (fs_reader fs))"

lemma to_nid_to_ino: "to_nid fs (to_ino fs nid) = nid \<longleftrightarrow> nid \<noteq> 0 \<or> fs_root_nid fs = 0"
  by (auto simp: to_nid_def to_ino_def)

lemma to_ino_root: "to_ino fs (fs_root_nid fs) = 1"
  by (simp add: to_ino_def)

lemma to_nid_root_0: "fs_root_nid fs = 0 \<Longrightarrow> to_nid fs (to_ino fs nid) = nid"
  by (simp add: to_nid_to_ino)

subsection \<open>Paths\<close>

definition src_child :: "src \<Rightarrow> u8 list \<Rightarrow> src option" where
  \<comment> \<open>the first child that shows under this name\<close>
  "src_child n name =
     (case src_entries n of None \<Rightarrow> None
      | Some es \<Rightarrow> map_of (map (\<lambda>e. (from_utf8_lossy (fst e), snd e)) (by_name es)) name)"

definition src_is_dir :: "src \<Rightarrow> bool" where
  "src_is_dir n = (case src_stat n of None \<Rightarrow> False | Some m \<Rightarrow> is_dir m)"

fun resolve :: "src \<Rightarrow> u8 list list \<Rightarrow> src option" where
  "resolve n [] = Some n"
| "resolve n (name # path) =
     (if src_is_dir n then (case src_child n name of None \<Rightarrow> None | Some c \<Rightarrow> resolve c path) else None)"

fun fs_walk :: "erofs_fs \<Rightarrow> u64 \<Rightarrow> u8 list list \<Rightarrow> error + u64" where
  \<comment> \<open>the lookups the kernel sends for a path\<close>
  "fs_walk fs ino [] = Inr ino"
| "fs_walk fs ino (name # path) = and_then (fs_lookup fs ino name) (\<lambda>e. fs_walk fs (en_inode e) path)"

definition plain_name :: "u8 list \<Rightarrow> bool" where
  "plain_name name \<longleftrightarrow> name \<noteq> bytes ''.'' \<and> name \<noteq> bytes ''..''"

lemma fs_walk_append: "fs_walk fs ino (p @ q) = and_then (fs_walk fs ino p) (\<lambda>ino. fs_walk fs ino q)"
  by (induction p arbitrary: ino) (simp_all add: and_then_assoc)

lemma fs_lookup_cb:
  "fs_lookup fs parent name =
     and_then (iterate_dir fs parent (lookup_cb name) None) (\<lambda>found. case found of
       Some nid \<Rightarrow> and_then (reader_inode (fs_reader fs) nid) (\<lambda>i. Inr (make_entry fs nid i)) | None \<Rightarrow> Inl ENOENT)"
  by (simp add: fs_lookup_def lookup_cb_def Let_def)

lemma map_of_related:
  assumes "list_all2 (\<lambda>e x. fst x = f (fst e) \<and> Q (snd e) (snd x)) es xs"
  shows "map_of (map (\<lambda>e. (f (fst e), snd e)) es) name = None \<longleftrightarrow> map_of xs name = None"
    and "map_of (map (\<lambda>e. (f (fst e), snd e)) es) name = Some c \<Longrightarrow> \<exists>y. map_of xs name = Some y \<and> Q c y"
  using assms by (induction rule: list_all2_induct) (auto split: if_splits)

lemma presents_dirD:
  assumes "presents r p n nid" and "src_is_dir n"
  obtains i ents es meta where "src_stat n = Some meta" "src_entries n = Some es" "node_shown r n nid meta i"
    and "read_dir_cached r nid i = Inr ((bytes ''.'', nid, EROFS_FT_DIR) # (bytes ''..'', p, EROFS_FT_DIR) # ents)"
    and "list_all2 (\<lambda>e x. fst x = from_utf8_lossy (fst e) \<and>
       ((\<exists>m. src_stat (snd e) = Some m \<and> snd (snd x) = mode_to_file_type (ucast (st_mode m))) \<and>
        presents r nid (snd e) (fst (snd x)))) (by_name es) ents"
  using assms by (auto elim!: presents_cases simp: src_is_dir_def)

lemma presents_node:
  assumes "presents r p n nid"
  obtains meta i where "src_stat n = Some meta" and "node_shown r n nid meta i"
  using assms by (auto elim!: presents_cases)

lemma presents_leafD:
  assumes "presents r p n nid" and "src_stat n = Some meta" and "\<not> is_dir meta"
  obtains i where "node_shown r n nid meta i" and "content_shown r n nid meta i"
  using assms by (auto elim!: presents_cases)

lemma presents_lookup:
  assumes pr: "presents (fs_reader fs) p n nid" and dir: "src_is_dir n" and root: "fs_root_nid fs = 0"
    and nm: "plain_name name"
  shows "src_child n name = None \<Longrightarrow> fs_lookup fs (to_ino fs nid) name = Inl ENOENT"
    and "src_child n name = Some c \<Longrightarrow>
      \<exists>cnid i. presents (fs_reader fs) nid c cnid \<and> reader_inode (fs_reader fs) cnid = Inr i \<and>
        fs_lookup fs (to_ino fs nid) name = Inr (make_entry fs cnid i)"
proof -
  let ?r = "fs_reader fs"
  obtain i ents es meta where es: "src_entries n = Some es" and i: "node_shown ?r n nid meta i"
    and rd: "read_dir_cached ?r nid i = Inr ((bytes ''.'', nid, EROFS_FT_DIR) # (bytes ''..'', p, EROFS_FT_DIR) # ents)"
    and rel: "list_all2 (\<lambda>e x. fst x = from_utf8_lossy (fst e) \<and>
       ((\<exists>m. src_stat (snd e) = Some m \<and> snd (snd x) = mode_to_file_type (ucast (st_mode m))) \<and>
        presents ?r nid (snd e) (fst (snd x)))) (by_name es) ents"
    by (rule presents_dirD [OF pr dir])
  note look = map_of_related [OF rel, of name]
  have it: "iterate_dir fs (to_ino fs nid) (lookup_cb name) None = Inr (map_option fst (map_of ents name))"
    using i nm
    by (simp add: iterate_dir_def to_nid_root_0 [OF root] node_shown_def for_each_visit [OF rd]
        visit_lookup plain_name_def)
  show "fs_lookup fs (to_ino fs nid) name = Inl ENOENT" if "src_child n name = None"
    using that look(1) by (simp add: src_child_def es fs_lookup_cb it)
  show "\<exists>cnid i. presents ?r nid c cnid \<and> reader_inode ?r cnid = Inr i \<and>
      fs_lookup fs (to_ino fs nid) name = Inr (make_entry fs cnid i)" if "src_child n name = Some c"
  proof -
    have "\<exists>y. map_of ents name = Some y \<and> presents ?r nid c (fst y)"
    proof -
      have "map_of (map (\<lambda>e. (from_utf8_lossy (fst e), snd e)) (by_name es)) name = Some c"
        using that by (simp add: src_child_def es)
      then show ?thesis using look(2) by blast
    qed
    then obtain y where y: "map_of ents name = Some y" "presents ?r nid c (fst y)" by blast
    obtain m j where "node_shown ?r c (fst y) m j" using y(2) by (rule presents_node)
    then show ?thesis using y by (intro exI [of _ "fst y"] exI [of _ j]) (simp add: fs_lookup_cb it node_shown_def)
  qed
qed

lemma presents_walk:
  assumes "presents (fs_reader fs) p n nid" and "fs_root_nid fs = 0" and "\<forall>name \<in> set path. plain_name name"
    and "resolve n path = Some n'" and "reader_inode (fs_reader fs) p = Inr pi"
  shows "\<exists>p' nid'. fs_walk fs (to_ino fs nid) path = Inr (to_ino fs nid') \<and> presents (fs_reader fs) p' n' nid' \<and>
    (\<exists>pi'. reader_inode (fs_reader fs) p' = Inr pi')"
  using assms(1,3,4,5)
proof (induction path arbitrary: p n nid pi)
  case Nil
  then show ?case by auto
next
  case (Cons name path)
  obtain c where dir: "src_is_dir n" and c: "src_child n name = Some c" "resolve c path = Some n'"
    using Cons.prems(3) by (auto split: if_splits option.splits)
  have nm: "plain_name name" using Cons.prems(2) by simp
  obtain cnid i where ch: "presents (fs_reader fs) nid c cnid"
    "fs_lookup fs (to_ino fs nid) name = Inr (make_entry fs cnid i)"
    using presents_lookup(2) [OF Cons.prems(1) dir assms(2) nm c(1)] by blast
  obtain m i where "node_shown (fs_reader fs) n nid m i" using Cons.prems(1) by (rule presents_node)
  then have i: "reader_inode (fs_reader fs) nid = Inr i" by (simp add: node_shown_def)
  have "\<exists>p' nid'. fs_walk fs (to_ino fs cnid) path = Inr (to_ino fs nid') \<and> presents (fs_reader fs) p' n' nid' \<and>
      (\<exists>pi'. reader_inode (fs_reader fs) p' = Inr pi')"
    using Cons.prems(2) by (intro Cons.IH [OF ch(1) _ c(2) i]) simp
  then show ?case by (simp add: ch(2) make_entry_def Let_def)
qed

subsection \<open>What a node answers\<close>

lemma presents_getattr:
  assumes "presents (fs_reader fs) p n nid" and "fs_root_nid fs = 0" and "src_stat n = Some meta"
  obtains i where "reader_inode (fs_reader fs) nid = Inr i" and "stat_shown (fs_reader fs) meta i"
    and "fs_getattr fs (to_ino fs nid) = Inr (make_stat fs nid i, EROFS_FUSE_TIMEOUT)"
proof -
  obtain m i where "src_stat n = Some m" "node_shown (fs_reader fs) n nid m i" using assms(1) by (rule presents_node)
  then show ?thesis
    using that assms by (simp add: node_shown_def fs_getattr_def to_nid_root_0 Let_def)
qed

lemma presents_xattr:
  assumes "presents (fs_reader fs) p n nid" and "fs_root_nid fs = 0"
  shows "fs_getxattr fs (to_ino fs nid) name sz = find_xattr name sz (xattr_pairs (read_xattrs_from_path n))"
  using presents_node [OF assms(1)] to_nid_root_0 [OF assms(2)]
  by (metis (no_types, lifting) fs_getxattr_def node_shown_def and_then_simps(2))

lemma find_xattr_map_of:
  "find_xattr name sz xs =
     (case map_of xs name of
        None \<Rightarrow> Inl ENODATA
      | Some v \<Rightarrow> if sz = 0 then Inr (XattrCount (word_of_nat (length v)))
                  else if unat sz < length v then Inl ERANGE else Inr (XattrValue v))"
  by (induction xs) auto

lemma presents_read:
  assumes "presents (fs_reader fs) p n nid" and "fs_root_nid fs = 0" and "mapped (fs_reader fs)"
    and "src_stat n = Some meta" "is_file meta" "src_content n = Some f" and "unat sz \<le> sink_room w"
    and "unat (st_size meta) = length f"
  shows "\<exists>k. fs_read fs (to_ino fs nid) w sz offset = Inr (k, emit (bytes_at (unat offset) (unat sz) f) w) \<and>
    unat k = length (bytes_at (unat offset) (unat sz) f)"
proof -
  have "\<not> is_dir meta" using assms(5) by (auto simp: is_file_def is_dir_def)
  then obtain i where i: "node_shown (fs_reader fs) n nid meta i" "content_shown (fs_reader fs) n nid meta i"
    using presents_leafD [OF assms(1,4)] by blast
  then obtain content where c: "length content = unat (st_size meta)"
    "st_size meta = 0 \<or> content = take (unat (st_size meta)) f"
    "read_file_data (fs_reader fs) nid i offset sz = Inr (bytes_at (unat offset) (unat sz) content)"
    using assms(5,6) by (auto simp: content_shown_def)
  have "content = f" using c(1,2) assms(8) by auto
  then have rd: "read_file_data_sync (fs_reader fs) nid i offset sz = Inr (bytes_at (unat offset) (unat sz) f)"
    using c(3) by (simp add: read_file_data_same)
  have "length (bytes_at (unat offset) (unat sz) f) \<le> length f" by simp
  also have "length f < 2 ^ 64" using assms(8) unat_lt [of "st_size meta"] by simp
  finally have "unat (word_of_nat (length (bytes_at (unat offset) (unat sz) f)) :: u64) =
      length (bytes_at (unat offset) (unat sz) f)"
    by (simp add: unsigned_of_nat take_bit_nat_eq_self)
  then show ?thesis
    using i(1) write_file_data_read [OF assms(3,7)]
    by (simp add: fs_read_def to_nid_root_0 [OF assms(2)] node_shown_def rd)
qed

subsection \<open>Served sources\<close>

definition serves_source :: "(u8 list \<Rightarrow> 'h) \<Rightarrow> src \<Rightarrow> erofs_fs \<Rightarrow> bool" where
  \<comment> \<open>the server runs on a reader opened on the files the builder wrote for the source\<close>
  "serves_source hash source fs \<longleftrightarrow>
     (\<exists>chunksize U epoch uuid source_is_dir blob_room image_room img blob.
        source_valid hash (unat chunksize) U source \<and> length uuid = 16 \<and> blob_room \<le> 2 ^ 60 \<and>
        metadata_size (unat chunksize) source \<le> 2 ^ 59 \<and>
        mkfs_main hash chunksize epoch uuid source source_is_dir (Some blob_room) image_room = Inr (img, blob) \<and>
        reader_open (Some img) (Some (Some blob)) = Inr (fs_reader fs))"

lemma serves_sourceI:
  "source_valid hash (unat chunksize) U source \<Longrightarrow> length uuid = 16 \<Longrightarrow> blob_room \<le> 2 ^ 60 \<Longrightarrow>
     metadata_size (unat chunksize) source \<le> 2 ^ 59 \<Longrightarrow>
     mkfs_main hash chunksize epoch uuid source source_is_dir (Some blob_room) image_room = Inr (img, blob) \<Longrightarrow>
     reader_open (Some img) (Some (Some blob)) = Inr (fs_reader fs) \<Longrightarrow> serves_source hash source fs"
  unfolding serves_source_def by blast

lemma serves_presents:
  assumes "serves_source hash source fs"
  shows "presents (fs_reader fs) 0 source 0" and "mapped (fs_reader fs)" and "fs_root_nid fs = 0"
proof -
  from assms obtain chunksize U epoch uuid source_is_dir blob_room image_room img blob
    where src: "source_valid hash (unat chunksize) U source" "length uuid = 16" "blob_room \<le> 2 ^ 60"
      and fits: "metadata_size (unat chunksize) source \<le> 2 ^ 59"
      and run: "mkfs_main hash chunksize epoch uuid source source_is_dir (Some blob_room) image_room = Inr (img, blob)"
      and rd: "reader_open (Some img) (Some (Some blob)) = Inr (fs_reader fs)"
    by (auto simp: serves_source_def)
  obtain r where r: "reader_open (Some img) (Some (Some blob)) = Inr r"
    "presents r (superblock_root_nid (reader_sb r)) source (superblock_root_nid (reader_sb r))"
    "mapped r" "superblock_root_nid (reader_sb r) = 0"
    by (rule mkfs_presents [OF src run fits])
  moreover have "r = fs_reader fs" using r(1) rd by simp
  ultimately show "presents (fs_reader fs) 0 source 0" "mapped (fs_reader fs)" "fs_root_nid fs = 0" by simp_all
qed

text \<open>Following a path from the root.\<close>

lemma serves_walk_parent:
  assumes "serves_source hash source fs" and "\<forall>name \<in> set path. plain_name name" and "resolve source path = Some n"
  obtains p nid pi where "fs_walk fs FUSE_ROOT_ID path = Inr (to_ino fs nid)" and "presents (fs_reader fs) p n nid"
    and "reader_inode (fs_reader fs) p = Inr pi"
proof -
  note s = serves_presents [OF assms(1)]
  have "to_ino fs 0 = FUSE_ROOT_ID" using s(3) by (simp add: to_ino_def)
  moreover obtain m i where "node_shown (fs_reader fs) source 0 m i" using s(1) by (rule presents_node)
  then have "reader_inode (fs_reader fs) 0 = Inr i" by (simp add: node_shown_def)
  note presents_walk [OF s(1,3) assms(2,3) this]
  ultimately show ?thesis using that by auto
qed

lemma serves_walk:
  assumes "serves_source hash source fs" and "\<forall>name \<in> set path. plain_name name" and "resolve source path = Some n"
  obtains p nid where "fs_walk fs FUSE_ROOT_ID path = Inr (to_ino fs nid)" and "presents (fs_reader fs) p n nid"
  using serves_walk_parent [OF assms] by metis

text \<open>A listing with attributes.\<close>

lemma readdirplus_all:
  assumes "\<forall>e \<in> set es. \<exists>i. reader_inode (fs_reader fs) (fst (snd e)) = Inr i" and "fs_root_nid fs = 0"
  shows "\<exists>rs. readdirplus_loop fs (\<lambda>d e s. Inr (1, s @ [(d, e)])) (List.enumerate k es) acc = Inr (acc @ rs) \<and>
    map (\<lambda>(d, e). dr_name d) rs = map fst es \<and>
    (\<forall>(d, e) \<in> set rs. en_inode e = dr_ino d \<and> fs_getattr fs (dr_ino d) = Inr (en_attr e, EROFS_FUSE_TIMEOUT))"
  using assms(1)
proof (induction es arbitrary: k acc)
  case Nil
  then show ?case by simp
next
  case (Cons x es)
  obtain name nid ft where x: "x = (name, nid, ft)" by (cases x)
  obtain i where i: "reader_inode (fs_reader fs) nid = Inr i" using Cons.prems by (auto simp: x)
  let ?d = "dirent_of fs k x" and ?e = "make_entry fs nid i"
  obtain rs where rs: "readdirplus_loop fs (\<lambda>d e s. Inr (1, s @ [(d, e)])) (List.enumerate (Suc k) es) (acc @ [(?d, ?e)]) =
      Inr ((acc @ [(?d, ?e)]) @ rs)" "map (\<lambda>(d, e). dr_name d) rs = map fst es"
    "\<forall>(d, e) \<in> set rs. en_inode e = dr_ino d \<and> fs_getattr fs (dr_ino d) = Inr (en_attr e, EROFS_FUSE_TIMEOUT)"
    using Cons.IH [of "Suc k" "acc @ [(?d, ?e)]"] Cons.prems by auto
  have "dr_name ?d = name" "dr_ino ?d = to_ino fs nid" "en_inode ?e = to_ino fs nid"
    "fs_getattr fs (to_ino fs nid) = Inr (en_attr ?e, EROFS_FUSE_TIMEOUT)"
    by (simp_all add: x dirent_of_def make_entry_def Let_def fs_getattr_def to_nid_root_0 [OF assms(2)] i)
  then show ?case using rs i by (intro exI [of _ "(?d, ?e) # rs"]) (simp add: x Let_def)
qed

lemma presents_readlink:
  assumes "presents (fs_reader fs) p n nid" and "fs_root_nid fs = 0"
    and "src_stat n = Some meta" "is_symlink meta" "src_target n = Some t"
  shows "fs_readlink fs (to_ino fs nid) = Inr t"
proof -
  have k: "\<not> is_dir meta" "\<not> is_file meta" using assms(4) by (auto simp: is_symlink_def is_dir_def is_file_def)
  then obtain i where "node_shown (fs_reader fs) n nid meta i" "content_shown (fs_reader fs) n nid meta i"
    using presents_leafD [OF assms(1,3)] by blast
  then show ?thesis
    using k assms(4,5) by (simp add: fs_readlink_def to_nid_root_0 [OF assms(2)] node_shown_def content_shown_def)
qed

text \<open>Opening a directory.\<close>

lemma directory_mode: "(ucast (ucast (m :: u32) :: u16) :: u32) AND 0xF000 = m AND 0xF000"
  unfolding format_mask by (rule bit_word_eqI) (auto simp: bit_simps)

lemma presents_opendir:
  assumes "presents (fs_reader fs) p n nid" and "fs_root_nid fs = 0" and "src_is_dir n"
  obtains es ents fs' where "src_entries n = Some es"
    and "fs_opendir fs (to_ino fs nid) = Inr ((Some (fs_next_dir_handle fs), {CACHE_DIR, KEEP_CACHE}), fs')"
    and "get_dir_handle fs' (fs_next_dir_handle fs) =
      Inr \<lparr>dh_entries = (bytes ''.'', nid, EROFS_FT_DIR) # (bytes ''..'', p, EROFS_FT_DIR) # ents\<rparr>"
    and "fs_reader fs' = fs_reader fs"
    and "list_all2 (\<lambda>e x. fst x = from_utf8_lossy (fst e) \<and>
       (\<exists>m. src_stat (snd e) = Some m \<and> snd (snd x) = mode_to_file_type (ucast (st_mode m)))) (by_name es) ents"
    and "\<forall>x \<in> set ents. \<exists>i. reader_inode (fs_reader fs) (fst (snd x)) = Inr i"
proof -
  obtain i ents es meta where st: "src_stat n = Some meta" and es: "src_entries n = Some es"
    and i: "node_shown (fs_reader fs) n nid meta i"
    and rd: "read_dir_cached (fs_reader fs) nid i = Inr ((bytes ''.'', nid, EROFS_FT_DIR) # (bytes ''..'', p, EROFS_FT_DIR) # ents)"
    and rel: "list_all2 (\<lambda>e x. fst x = from_utf8_lossy (fst e) \<and>
       ((\<exists>m. src_stat (snd e) = Some m \<and> snd (snd x) = mode_to_file_type (ucast (st_mode m))) \<and>
        presents (fs_reader fs) nid (snd e) (fst (snd x)))) (by_name es) ents"
    by (rule presents_dirD [OF assms(1,3)])
  have m: "is_dir meta" using assms(3) st by (simp add: src_is_dir_def)
  have "(ucast (inode_mode i) :: u32) AND 0xF000 = 0x4000"
    using i m directory_mode [of "st_mode meta"] by (simp add: node_shown_def stat_shown_def is_dir_def)
  moreover have "\<forall>x \<in> set ents. \<exists>i. reader_inode (fs_reader fs) (fst (snd x)) = Inr i"
    using rel by (induction rule: list_all2_induct) (auto elim!: presents_node simp: node_shown_def)
  ultimately show ?thesis
    using i rd list_all2_mono [OF rel]
    by (intro that [OF es, of "insert_handle (fs_next_dir_handle fs)
          \<lparr>dh_entries = (bytes ''.'', nid, EROFS_FT_DIR) # (bytes ''..'', p, EROFS_FT_DIR) # ents\<rparr> (snd (draw_handle fs))" ents])
      (simp_all add: fs_opendir_def create_dir_handle_def draw_handle_def insert_handle_def get_dir_handle_def
        to_nid_root_0 [OF assms(2)] node_shown_def Let_def)
qed

subsection \<open>Numbers and types\<close>

lemma to_ino_eq:
  "to_ino fs nid = to_ino fs nid' \<longleftrightarrow> nid = nid' \<or> {nid, nid'} \<subseteq> {0, fs_root_nid fs}"
  by (auto simp: to_ino_def)

text \<open>Inode numbers. Two inodes of the image show under the same number only if they are the root
  and number 0; the number translates back to its inode except for inode 0 of an image whose root is
  another inode; the root shows as the number the kernel starts from.\<close>

lemma inode_numbers:
  "(to_ino fs nid = to_ino fs nid' \<longleftrightarrow> nid = nid' \<or> {nid, nid'} \<subseteq> {0, fs_root_nid fs}) \<and>
   (to_nid fs (to_ino fs nid) \<noteq> nid \<longleftrightarrow> nid = 0 \<and> fs_root_nid fs \<noteq> 0) \<and>
   to_ino fs (fs_root_nid fs) = FUSE_ROOT_ID"
  using to_ino_eq [of fs nid nid'] to_nid_to_ino [of fs nid] by (simp add: to_ino_root)

text \<open>Entry types. The type that a listing reports for an entry is the type bits of the mode its
  inode was built from, for the seven types of the format, and unknown for any other.\<close>

definition type_bits :: "u16 \<Rightarrow> u32" where
  "type_bits m =
     (if m AND 0xF000 \<in> {0x8000, 0x4000, 0x2000, 0x6000, 0x1000, 0xC000, 0xA000} then ucast (drop_bit 12 m) else 0)"

lemma dirent_types: "erofs_ft_to_dt (mode_to_file_type m) = type_bits m"
proof -
  have d: "drop_bit 12 (m AND 0xF000) = drop_bit 12 m"
    unfolding format_mask by (rule bit_word_eqI) (auto simp: bit_simps dest: bit_imp_le_length)
  have t: "m AND 0xF000 = v \<Longrightarrow> drop_bit 12 m = drop_bit 12 v" for v using d by metis
  show ?thesis
    using t [of "0x8000"] t [of "0x4000"] t [of "0x2000"] t [of "0x6000"] t [of "0x1000"] t [of "0xC000"] t [of "0xA000"]
    by (auto simp add: erofs_ft_to_dt_def mode_to_file_type_def type_bits_def Let_def)
qed

lemma listed_types:
  "list_all2 (\<lambda>e x. fst x = from_utf8_lossy (fst e) \<and>
     (\<exists>m. src_stat (snd e) = Some m \<and> snd (snd x) = mode_to_file_type (ucast (st_mode m)))) es ents \<Longrightarrow>
   map (\<lambda>x. erofs_ft_to_dt (snd (snd x))) ents = map (\<lambda>e. type_bits (ucast (st_mode (the (src_stat (snd e)))))) es"
  by (induction rule: list_all2_induct) (auto simp: dirent_types)

lemma readdir_types:
  "\<exists>ds. readdir_loop fs (\<lambda>d s. Inr (1, s @ [d])) (List.enumerate k es) acc = Inr (acc @ ds) \<and>
     map dr_type ds = map (\<lambda>e. erofs_ft_to_dt (snd (snd e))) es"
proof (induction es arbitrary: k acc)
  case (Cons e es)
  obtain ds where "readdir_loop fs (\<lambda>d s. Inr (1, s @ [d])) (List.enumerate (Suc k) es) (acc @ [dirent_of fs k e]) =
      Inr ((acc @ [dirent_of fs k e]) @ ds)" "map dr_type ds = map (\<lambda>e. erofs_ft_to_dt (snd (snd e))) es"
    using Cons.IH [of "Suc k" "acc @ [dirent_of fs k e]"] by blast
  then show ?case
    by (intro exI [of _ "dirent_of fs k e # ds"]) (simp add: Let_def dirent_of_def split: prod.split)
qed simp

lemma presents_open:
  assumes "presents (fs_reader fs) p n nid" and "fs_root_nid fs = 0" and "src_stat n = Some meta"
  shows "fs_open fs (to_ino fs nid) flags =
    (if flags AND 3 \<noteq> 0 then Inl ERR_EROFS
     else if is_file meta then Inr (Some nid, {KEEP_CACHE}, None) else Inl EISDIR)"
    and "\<not> is_dir meta \<Longrightarrow> fs_opendir fs (to_ino fs nid) = Inl ENOTDIR"
proof -
  obtain m i where i: "src_stat n = Some m" "node_shown (fs_reader fs) n nid m i" using assms(1) by (rule presents_node)
  then have mode: "(ucast (inode_mode i) :: u32) AND 0xF000 = st_mode meta AND 0xF000"
    using assms(3) directory_mode [of "st_mode meta"] by (simp add: node_shown_def stat_shown_def)
  have rd: "reader_inode (fs_reader fs) nid = Inr i" using i(2) by (simp add: node_shown_def)
  have "(1 OR 2 :: u32) = 3" by simp
  then show "fs_open fs (to_ino fs nid) flags =
    (if flags AND 3 \<noteq> 0 then Inl ERR_EROFS
     else if is_file meta then Inr (Some nid, {KEEP_CACHE}, None) else Inl EISDIR)"
    using mode rd by (simp add: fs_open_def to_nid_root_0 [OF assms(2)] is_file_def Let_def)
  show "fs_opendir fs (to_ino fs nid) = Inl ENOTDIR" if "\<not> is_dir meta"
    using mode rd that by (simp add: fs_opendir_def to_nid_root_0 [OF assms(2)] is_dir_def Let_def)
qed

end
