(* ===== verification/Fuse_Props.thy ===== *)
theory Fuse_Props
  imports Fuse
begin

text \<open>
  Properties of the FUSE operations that hold for any image: paging through a directory, the
  block count of \<^verbatim>\<open>stat\<close>, the two calls for an attribute, and the asynchronous read.
\<close>

unbundle bit_operations_syntax

subsection \<open>Pages of a listing\<close>

text \<open>
  The reply buffer of a request, as the server library fills it: an entry that does not fit is
  refused with 0. \<open>dsize\<close> is the size the library gives an entry. \<open>list_dir\<close> is the client: it asks
  for the next page from the offset of the last entry it got, until a page is empty.
\<close>

definition add_dirent ::
  "(dirent_reply \<Rightarrow> nat) \<Rightarrow> dirent_reply \<Rightarrow> dirent_reply list \<times> nat \<Rightarrow> error + (nat \<times> dirent_reply list \<times> nat)" where
  "add_dirent dsize d = (\<lambda>(page, room).
     if dsize d > room then Inr (0, page, room) else Inr (dsize d, page @ [d], room - dsize d))"

fun list_dir :: "erofs_fs \<Rightarrow> u64 \<Rightarrow> (dirent_reply \<Rightarrow> nat) \<Rightarrow> nat \<Rightarrow> nat \<Rightarrow> u64 \<Rightarrow> error + dirent_reply list" where
  "list_dir fs handle dsize cap 0 offset = Inl Diverged"
| "list_dir fs handle dsize cap (Suc fuel) offset =
     and_then (fs_readdir fs handle offset (add_dirent dsize) ([], cap)) (\<lambda>(page, _).
     if page = [] then Inr []
     else and_then (list_dir fs handle dsize cap fuel (dr_offset (last page))) (\<lambda>rest. Inr (page @ rest)))"

definition replies :: "erofs_fs \<Rightarrow> (nat \<times> dir_ent) list \<Rightarrow> dirent_reply list" where
  "replies fs es = map (\<lambda>(idx, e). dirent_of fs idx e) es"

lemma replies_simps [simp]:
  "replies fs [] = []" "replies fs ((idx, e) # es) = dirent_of fs idx e # replies fs es"
  "replies fs (es @ es') = replies fs es @ replies fs es'" "length (replies fs es) = length es"
  "replies fs es = [] \<longleftrightarrow> es = []"
  by (simp_all add: replies_def)

lemma readdir_loop_page:
  assumes "\<forall>d. 0 < dsize d"
  shows "\<exists>m room'. m \<le> length es \<and>
    readdir_loop fs (add_dirent dsize) es (page, room) = Inr (page @ replies fs (take m es), room') \<and>
    (\<forall>idx e rest. es = (idx, e) # rest \<longrightarrow> dsize (dirent_of fs idx e) \<le> room \<longrightarrow> 0 < m)"
proof (induction es arbitrary: page room)
  case Nil
  show ?case by simp
next
  case (Cons x es)
  obtain idx e where x: "x = (idx, e)" by (cases x)
  let ?d = "dirent_of fs idx e"
  show ?case
  proof (cases "dsize ?d > room")
    case True
    then show ?thesis by (intro exI [of _ 0] exI [of _ room]) (auto simp: x add_dirent_def)
  next
    case False
    obtain m room' where m: "m \<le> length es"
      "readdir_loop fs (add_dirent dsize) es (page @ [?d], room - dsize ?d) =
        Inr ((page @ [?d]) @ replies fs (take m es), room')"
      using Cons.IH [of "page @ [?d]" "room - dsize ?d"] by blast
    have "dsize ?d \<noteq> 0" using assms by (metis less_irrefl)
    moreover have "add_dirent dsize ?d (page, room) = Inr (dsize ?d, page @ [?d], room - dsize ?d)"
      using False by (simp add: add_dirent_def)
    ultimately show ?thesis
      using m by (intro exI [of _ "Suc m"] exI [of _ room']) (simp add: x Let_def)
  qed
qed

lemma page_end:
  assumes "0 < m" and "m \<le> length (drop k (List.enumerate 0 es))"
  shows "dr_offset (last (replies fs (take m (drop k (List.enumerate 0 es))))) = word_of_nat (k + m)"
proof -
  let ?es = "drop k (List.enumerate 0 es)" and ?j = "k + m - 1"
  have tk: "take m ?es \<noteq> []" and j: "?j < length es" using assms by auto
  have "last (take m ?es) = take m ?es ! (m - 1)"
    using tk assms(2) by (simp add: last_conv_nth)
  also have "\<dots> = (?j, es ! ?j)"
    using assms j by (simp add: nth_enumerate_eq)
  finally have "last (replies fs (take m ?es)) = dirent_of fs ?j (es ! ?j)"
    using tk by (simp add: replies_def last_map)
  moreover have "(word_of_nat ?j + 1 :: u64) = word_of_nat (k + m)"
    using assms(1) by (metis Suc_diff_1 add.commute add_gr_0 of_nat_Suc)
  ultimately show ?thesis by (simp add: dirent_of_def split_def)
qed

lemma list_dir_from:
  assumes h: "get_dir_handle fs handle = Inr dh" and n: "length (dh_entries dh) < 2 ^ 64"
    and sizes: "\<forall>d. 0 < dsize d \<and> dsize d \<le> cap"
  shows "k \<le> length (dh_entries dh) \<Longrightarrow> length (dh_entries dh) - k < fuel \<Longrightarrow>
    list_dir fs handle dsize cap fuel (word_of_nat k) =
      Inr (replies fs (drop k (List.enumerate 0 (dh_entries dh))))"
proof (induction fuel arbitrary: k)
  case 0
  then show ?case by simp
next
  case (Suc fuel)
  let ?all = "List.enumerate 0 (dh_entries dh)"
  let ?es = "drop k ?all"
  have len: "length ?all = length (dh_entries dh)" by simp
  have "k < 2 ^ 64" using Suc.prems(1) n by simp
  then have k: "unat (word_of_nat k :: u64) = k" by (simp add: unsigned_of_nat take_bit_nat_eq_self)
  obtain m room where m: "m \<le> length ?es"
    "readdir_loop fs (add_dirent dsize) ?es ([], cap) = Inr ([] @ replies fs (take m ?es), room)"
    "\<forall>idx e rest. ?es = (idx, e) # rest \<longrightarrow> dsize (dirent_of fs idx e) \<le> cap \<longrightarrow> 0 < m"
    using readdir_loop_page [of dsize ?es fs "[]" cap] sizes by blast
  have run: "fs_readdir fs handle (word_of_nat k) (add_dirent dsize) ([], cap) = Inr (replies fs (take m ?es), room)"
    using m(2) by (simp add: fs_readdir_def h k)
  show ?case
  proof (cases "?es = []")
    case True
    then show ?thesis by (simp add: run)
  next
    case False
    then obtain idx e rest where "?es = (idx, e) # rest" by (metis list.exhaust prod.exhaust)
    then have pos: "0 < m" using m(3) sizes by blast
    have kl: "k < length (dh_entries dh)" using False by (simp add: not_le)
    have mk: "k + m \<le> length (dh_entries dh)" using m(1) kl by simp
    have tk: "take m ?es \<noteq> []" using pos False by simp
    have "dr_offset (last (replies fs (take m ?es))) = word_of_nat (k + m)" by (rule page_end [OF pos m(1)])
    moreover have "list_dir fs handle dsize cap fuel (word_of_nat (k + m)) = Inr (replies fs (drop (k + m) ?all))"
      using Suc.prems mk pos by (intro Suc.IH) linarith+
    moreover have "replies fs (take m ?es) \<noteq> []" using tk unfolding replies_simps .
    moreover have "replies fs (take m ?es) @ replies fs (drop (k + m) ?all) = replies fs ?es"
    proof -
      have "take m ?es @ drop (k + m) ?all = ?es"
        using append_take_drop_id [of m ?es] by (simp add: add.commute)
      then show ?thesis by (simp only: flip: replies_simps(3))
    qed
    ultimately show ?thesis by (simp add: run)
  qed
qed

subsection \<open>Block counts\<close>

lemma stat_blocks:
  assumes k: "9 \<le> k" "k < 64" "unat (sb_blkszbits (reader_sb (fs_reader fs))) = k"
    and sz: "unat (inode_size i) + 2 ^ k \<le> 2 ^ 64"
  shows "512 * unat (s64_blocks (make_stat fs nid i)) = unat (inode_size i) + pad_len (unat (inode_size i)) (2 ^ k)"
proof -
  let ?n = "unat (inode_size i)"
  define B where "B = (push_bit k 1 :: u64)"
  have "unat (push_bit k (1 :: u64)) = take_bit 64 (push_bit k 1)" by (simp only: unsigned_push_bit_eq) simp
  then have bs: "unat B = 2 ^ k" using k(2) by (simp add: B_def take_bit_push_bit push_bit_eq_mult)
  have pos: "(0 :: nat) < 2 ^ k" by simp
  have "1 \<le> B" using bs by (simp add: word_le_nat_alt)
  then have "unat (B - 1) = 2 ^ k - 1" by (simp add: unat_sub bs)
  moreover have "?n + (2 ^ k - 1) < 2 ^ 64" using sz pos by linarith
  ultimately have "unat (inode_size i + (B - 1)) = ?n + (2 ^ k - 1)"
    by (simp add: unat_word_ariths)
  then have q: "unat ((inode_size i + B - 1) div B) = (?n + 2 ^ k - 1) div 2 ^ k"
    using pos by (simp add: unat_div_distrib bs add_diff_eq)
  have r: "(?n + 2 ^ k - 1) div 2 ^ k * 2 ^ k = ?n + pad_len ?n (2 ^ k)" by (rule div_round_up [OF pos])
  have "(?n + 2 ^ k - 1) div 2 ^ k * 2 ^ k \<le> ?n + 2 ^ k - 1" by simp
  then have lt: "(?n + 2 ^ k - 1) div 2 ^ k * 2 ^ k < 2 ^ 64" using sz pos by linarith
  then have "unat ((inode_size i + B - 1) div B) * unat B < 2 ^ 64" unfolding q bs .
  then have "unat ((inode_size i + B - 1) div B * B) = unat ((inode_size i + B - 1) div B) * unat B"
    unfolding unat_word_ariths by simp
  then have t: "unat ((inode_size i + B - 1) div B * B) = ?n + pad_len ?n (2 ^ k)"
    unfolding q bs r .
  have "fs_block_size fs = B" using k by (simp add: fs_block_size_def B_def)
  then have b: "unat (s64_blocks (make_stat fs nid i)) = (?n + pad_len ?n (2 ^ k)) div 512"
    by (simp add: make_stat_def Let_def unat_div_distrib t)
  have "(512 :: nat) dvd 2 ^ k" using k(1) le_imp_power_dvd [of 9 k "2 :: nat"] by simp
  moreover have "2 ^ k dvd ?n + pad_len ?n (2 ^ k)" by (rule dvd_add_pad) simp
  ultimately have "512 dvd ?n + pad_len ?n (2 ^ k)" by (rule dvd_trans)
  then show ?thesis unfolding b by simp
qed

subsection \<open>Extended attributes\<close>

lemma xattr_entries_sizes:
  "xattr_entries fuel dat pos res = Inr out \<Longrightarrow> list_all (\<lambda>x. length (snd x) \<le> length dat) res \<Longrightarrow>
     list_all (\<lambda>x. length (snd x) \<le> length dat) out"
proof (induction fuel arbitrary: pos res)
  case (Suc fuel)
  from Suc.prems show ?case
    by (auto simp: Let_def slice_range_def split: if_splits dest!: Suc.IH)
qed simp

lemma find_xattr_Inr:
  assumes "\<forall>x \<in> set xs. length (snd x) < 2 ^ 32" and "find_xattr name 0 xs = Inr (XattrCount n)" and "n \<noteq> 0"
  shows "\<exists>v. find_xattr name n xs = Inr (XattrValue v) \<and> length v = unat n"
  using assms by (induction xs) (auto simp: unsigned_of_nat take_bit_nat_eq_self split: if_splits)

lemma read_xattrs_sizes:
  assumes "length (rd_mmap r) < 2 ^ 64" and "read_xattrs r nid i = Inr xs" and "x \<in> set xs"
  shows "length (snd x) < 2 ^ 32"
proof -
  obtain d pos where d: "mmap_slice r (nid_to_offset r nid + word_of_nat (inode_header_size i)) (word_of_nat (inode_xattr_size i)) = Inr d"
    and e: "xattr_entries (Suc (length d)) d pos [] = Inr xs"
    using assms(2,3) by (auto simp: read_xattrs_def Let_def simp del: xattr_entries.simps split: if_splits)
  have "length d = unat (word_of_nat (inode_xattr_size i) :: u64)"
    by (rule image_map.slice_length [OF assms(1) d])
  also have "\<dots> \<le> inode_xattr_size i" by (simp add: unsigned_of_nat take_bit_eq_mod)
  finally have "length d < 2 ^ 32" using xattr_size_bound [of i] by (simp add: max_xattr_area_def)
  moreover have "length (snd x) \<le> length d" 
    using xattr_entries_sizes [OF e] assms(3) by (simp add: list_all_iff)
  ultimately show ?thesis by linarith
qed

subsection \<open>Properties\<close>

text \<open>C32: Listing a directory page by page is complete. A client that asks for pages of any size that
  holds at least one entry, each from the offset of the last entry it got, receives every entry of the
  handle exactly once, in order, and stops; one request more than there are entries is enough.\<close>

theorem listing_complete:
  assumes "get_dir_handle fs handle = Inr dh" and "length (dh_entries dh) < 2 ^ 64"
    and "\<forall>d. 0 < dsize d \<and> dsize d \<le> cap" and "length (dh_entries dh) < fuel"
  shows "list_dir fs handle dsize cap fuel 0 = Inr (replies fs (List.enumerate 0 (dh_entries dh)))"
  using list_dir_from [OF assms(1-3), of 0 fuel] assms(4) by simp

text \<open>Block counts. The number of 512-byte blocks reported for an inode covers its size rounded up to
  the block size of the image, with no wrap-around, for every block size of at least 512 bytes.\<close>

lemma block_count_covers_size:
  assumes "9 \<le> k" and "k < 64" and "unat (sb_blkszbits (reader_sb (fs_reader fs))) = k"
    and "unat (inode_size i) + 2 ^ k \<le> 2 ^ 64"
  shows "512 * unat (s64_blocks (make_stat fs nid i)) = unat (inode_size i) + pad_len (unat (inode_size i)) (2 ^ k)"
  by (rule stat_blocks [OF assms])

text \<open>The two calls for an attribute fit together. The size the first call reports, given to the
  second as the size of the buffer, makes it return a value of exactly that length, for any image.\<close>

lemma getxattr_size_then_value:
  assumes "length (rd_mmap (fs_reader fs)) < 2 ^ 64"
    and "fs_getxattr fs ino name 0 = Inr (XattrCount n)" and "n \<noteq> 0"
  shows "\<exists>v. fs_getxattr fs ino name n = Inr (XattrValue v) \<and> length v = unat n"
proof -
  from assms(2) obtain vi xs where vi: "reader_inode (fs_reader fs) (to_nid fs ino) = Inr vi"
    and xs: "read_xattrs (fs_reader fs) (to_nid fs ino) vi = Inr xs" and f: "find_xattr name 0 xs = Inr (XattrCount n)"
    by (auto simp: fs_getxattr_def Let_def)
  have "\<forall>x \<in> set xs. length (snd x) < 2 ^ 32" using read_xattrs_sizes [OF assms(1) xs] by blast
  from find_xattr_Inr [OF this f assms(3)] show ?thesis by (simp add: fs_getxattr_def vi xs)
qed

text \<open>C34: The two interfaces read the same. When the reply has room for the requested size and the reply
  writer writes all it is given, an asynchronous read answers exactly like a synchronous one, errors
  included.\<close>

theorem async_read_same:
  assumes "mapped (fs_reader fs)" and "unat sz \<le> sink_room w"
  shows "async_read (\<lambda>bs w. and_then (write_all bs w) (\<lambda>w. Inr (word_of_nat (length bs), w))) fs ino w sz offset =
    fs_read fs ino w sz offset"
proof -
  let ?nid = "to_nid fs ino"
  show ?thesis
  proof (cases "reader_inode (fs_reader fs) ?nid")
    case (Inl e)
    then show ?thesis by (simp add: async_read_def fs_read_def)
  next
    case (Inr vi)
    show ?thesis
    proof (cases "read_file_data_sync (fs_reader fs) ?nid vi offset sz")
      case err: (Inl e)
      then show ?thesis
        using Inr write_file_data_read [OF assms] by (simp add: async_read_def fs_read_def)
    next
      case ok: (Inr bs)
      have "length bs \<le> unat sz" by (rule read_length [OF assms(1) ok])
      then have "length bs \<le> sink_room w" using assms(2) by simp
      then show ?thesis
        using Inr ok write_file_data_read [OF assms] by (simp add: async_read_def fs_read_def write_all_emit)
    qed
  qed
qed

end
