(* ===== verification/Build_Progress.thy ===== *)
theory Build_Progress
  imports Build_Spec
begin

text \<open>
  When the walk over the source succeeds. \<open>needs cs n k\<close> says that everything at and below the
  node \<open>n\<close> can be read and that its chunks of size \<open>cs\<close> take at most \<open>k\<close> bytes of the blob; the
  walk then succeeds on any device with that much room, whatever has been stored before.
\<close>

definition chunks_need :: "nat \<Rightarrow> u8 list \<Rightarrow> nat" where
  "chunks_need cs content = sum_list (map (\<lambda>c. length c + pad_len (length c) 4096) (split_chunks cs content))"

inductive needs :: "nat \<Rightarrow> src \<Rightarrow> nat \<Rightarrow> bool" for cs where
  dir: "src_stat n = Some meta \<Longrightarrow> is_dir meta \<Longrightarrow> src_entries n = Some es \<Longrightarrow>
     list_all2 (\<lambda>e k. needs cs (snd e) k) (by_name es) ks \<Longrightarrow> needs cs n (sum_list ks)"
| reg: "src_stat n = Some meta \<Longrightarrow> is_file meta \<Longrightarrow> src_content n = Some f \<Longrightarrow> unat (st_size meta) \<le> length f \<Longrightarrow>
     needs cs n (chunks_need cs (take (unat (st_size meta)) f))"
| symlink: "src_stat n = Some meta \<Longrightarrow> is_symlink meta \<Longrightarrow> src_target n = Some t \<Longrightarrow> needs cs n 0"
| other: "src_stat n = Some meta \<Longrightarrow> \<not> is_dir meta \<Longrightarrow> \<not> is_file meta \<Longrightarrow> \<not> is_symlink meta \<Longrightarrow> needs cs n 0"

lemma store_chunk_room:
  assumes "length c + pad_len (length c) 4096 \<le> sink_room (bw_file bw)"
  shows "\<exists>a bw'. store_chunk hash bw c = Inr (a, bw') \<and>
    sink_room (bw_file bw) \<le> sink_room (bw_file bw') + (length c + pad_len (length c) 4096)"
  using assms
  by (cases "bw_dedup bw (hash c)")
    (auto simp: store_chunk_def Let_def div_ceil_mult write_all_ok)

lemma store_seq_room:
  "sum_list (map (\<lambda>c. length c + pad_len (length c) 4096) cs) \<le> sink_room (bw_file bw) \<Longrightarrow>
     \<exists>as bw'. store_seq (store_chunk hash) bw cs = Inr (as, bw') \<and>
       sink_room (bw_file bw) \<le> sink_room (bw_file bw') + sum_list (map (\<lambda>c. length c + pad_len (length c) 4096) cs)"
proof (induction cs arbitrary: bw)
  case Nil
  then show ?case by simp
next
  case (Cons c cs)
  then have "length c + pad_len (length c) 4096 \<le> sink_room (bw_file bw)" by simp
  from store_chunk_room [OF this, of hash] obtain a bw1 where c: "store_chunk hash bw c = Inr (a, bw1)"
    and r1: "sink_room (bw_file bw) \<le> sink_room (bw_file bw1) + (length c + pad_len (length c) 4096)" by blast
  have "sum_list (map (\<lambda>c. length c + pad_len (length c) 4096) cs) \<le> sink_room (bw_file bw1)"
    using Cons.prems r1 by simp
  from Cons.IH [OF this] obtain as bw' where "store_seq (store_chunk hash) bw1 cs = Inr (as, bw')"
    "sink_room (bw_file bw1) \<le> sink_room (bw_file bw') + sum_list (map (\<lambda>c. length c + pad_len (length c) 4096) cs)"
    by blast
  then show ?case using c r1 by auto
qed

lemma write_file_room:
  assumes "0 < bw_chunksize bw" and "unat fs \<le> length f"
    and "chunks_need (unat (bw_chunksize bw)) (take (unat fs) f) \<le> sink_room (bw_file bw)"
  shows "\<exists>refs bw'. write_file_chunks hash bw (Some f) fs = Inr (refs, bw') \<and> bw_chunksize bw' = bw_chunksize bw \<and>
    sink_room (bw_file bw) \<le> sink_room (bw_file bw') + chunks_need (unat (bw_chunksize bw)) (take (unat fs) f)"
proof -
  obtain as bw' where st: "store_seq (store_chunk hash) bw (split_chunks (unat (bw_chunksize bw)) (take (unat fs) f)) = Inr (as, bw')"
    and room: "sink_room (bw_file bw) \<le> sink_room (bw_file bw') + chunks_need (unat (bw_chunksize bw)) (take (unat fs) f)"
    using store_seq_room assms(3) unfolding chunks_need_def by blast
  then show ?thesis using write_file_chunks_eq [OF assms(1,2), of hash] store_seq_chunksize [OF st] by simp
qed

text \<open>A step that keeps the room up to \<open>k\<close> bytes.\<close>

definition uses :: "nat \<Rightarrow> 'h build_state \<Rightarrow> 'h build_state \<Rightarrow> bool" where
  "uses k st st' \<longleftrightarrow>
     bw_chunksize (bs_blob st') = bw_chunksize (bs_blob st) \<and>
     sink_room (bw_file (bs_blob st)) \<le> sink_room (bw_file (bs_blob st')) + k"

lemma uses_trans: "uses j st st1 \<Longrightarrow> uses k st1 st2 \<Longrightarrow> uses (j + k) st st2"
  by (simp add: uses_def)

lemma uses_blob: "bs_blob st1 = bs_blob st \<Longrightarrow> bs_blob st2 = bs_blob st' \<Longrightarrow> uses k st1 st2 = uses k st st'"
  by (simp add: uses_def)

definition walk_ok :: "(u8 list \<Rightarrow> 'h) \<Rightarrow> nat \<Rightarrow> src \<Rightarrow> nat \<Rightarrow> bool" where
  "walk_ok hash cs n k \<longleftrightarrow>
     (\<forall>st. unat (bw_chunksize (bs_blob st)) = cs \<longrightarrow> k \<le> sink_room (bw_file (bs_blob st)) \<longrightarrow>
        (\<exists>i st'. build_tree_recursive hash n st = Inr (i, st') \<and> uses k st st'))"

lemma entries_ok:
  assumes "list_all2 (\<lambda>e k. (\<exists>meta. src_stat (snd e) = Some meta) \<and> walk_ok hash cs (snd e) k) es ks"
    and "unat (bw_chunksize (bs_blob st)) = cs" and "sum_list ks \<le> sink_room (bw_file (bs_blob st))"
  shows "\<exists>ch st'. build_entries hash es children st = Inr (ch, st') \<and> uses (sum_list ks) st st'"
  using assms
proof (induction es ks arbitrary: children st rule: list_all2_induct)
  case Nil
  then show ?case by (simp add: uses_def)
next
  case (Cons e es k ks)
  obtain name c where e: "e = (name, c)" by (cases e)
  obtain meta where meta: "src_stat c = Some meta" and ok: "walk_ok hash cs c k" using Cons.hyps(1) by (auto simp: e)
  let ?de = "\<lambda>i. \<lparr>dn_name = from_utf8_lossy name, dn_file_type = mode_to_file_type (ucast (st_mode meta)), dn_inode_idx = i\<rparr>"
  show ?case
  proof (cases "Option.bind (link_key meta) (bs_hardlink_map st)")
    case (Some i)
    obtain ch st' where "build_entries hash es (children @ [?de i]) st = Inr (ch, st')" "uses (sum_list ks) st st'"
      using Cons.IH [of st "children @ [?de i]"] Cons.prems by auto
    then show ?thesis by (simp add: e build_entries_step meta Some uses_def)
  next
    case None
    obtain i st1 where run: "build_tree_recursive hash c st = Inr (i, st1)" and u: "uses k st st1"
      using ok Cons.prems unfolding walk_ok_def by fastforce
    let ?st2 = "add_link (link_key meta) i st1"
    obtain ch st' where "build_entries hash es (children @ [?de i]) ?st2 = Inr (ch, st')" "uses (sum_list ks) ?st2 st'"
      using Cons.IH [of ?st2 "children @ [?de i]"] Cons.prems u by (auto simp: uses_def)
    then show ?thesis using u by (simp add: e build_entries_step meta None run uses_def)
  qed
qed

lemma file_kinds: "is_file m \<Longrightarrow> \<not> is_dir m" "is_symlink m \<Longrightarrow> \<not> is_dir m" "is_symlink m \<Longrightarrow> \<not> is_file m"
  by (auto simp: is_file_def is_dir_def is_symlink_def)

lemma needs_stat: "needs cs n k \<Longrightarrow> \<exists>meta. src_stat n = Some meta"
  by (auto elim: needs.cases)

lemma needs_walk_ok:
  assumes "needs cs n k" and "0 < cs"
  shows "walk_ok hash cs n k"
  using assms(1)
proof (induction rule: needs.induct)
  case (dir n meta es ks)
  have kids: "list_all2 (\<lambda>e k. (\<exists>meta. src_stat (snd e) = Some meta) \<and> walk_ok hash cs (snd e) k) (by_name es) ks"
    using dir.IH by (rule list_all2_mono) (auto dest: needs_stat)
  show ?case
    unfolding walk_ok_def
  proof (intro allI impI)
    fix st :: "'a build_state"
    assume cs: "unat (bw_chunksize (bs_blob st)) = cs" and room: "sum_list ks \<le> sink_room (bw_file (bs_blob st))"
    let ?st1 = "push_inode (new_inode meta (bs_ino_counter st + 1) 0 (Directory [] 0 0 0) (read_xattrs_from_path n))
      (st\<lparr>bs_ino_counter := bs_ino_counter st + 1\<rparr>)"
    obtain ch st' where "build_entries hash (by_name es) [] ?st1 = Inr (ch, st')" "uses (sum_list ks) ?st1 st'"
      using entries_ok [OF kids, of ?st1 "[]"] cs room by auto
    then show "\<exists>i st'. build_tree_recursive hash n st = Inr (i, st') \<and> uses (sum_list ks) st st'"
      using dir.hyps by (simp add: build_tree_recursive.simps [of _ n] uses_def Let_def)
  qed
next
  case (reg n meta f)
  show ?case
    unfolding walk_ok_def
  proof (intro allI impI)
    fix st :: "'a build_state"
    let ?k = "chunks_need cs (take (unat (st_size meta)) f)"
    assume cs: "unat (bw_chunksize (bs_blob st)) = cs" and room: "?k \<le> sink_room (bw_file (bs_blob st))"
    then have pos: "0 < bw_chunksize (bs_blob st)" using assms(2) by (simp add: word_less_nat_alt)
    obtain refs bw where "write_file_chunks hash (bs_blob st) (Some f) (st_size meta) = Inr (refs, bw)"
      "bw_chunksize bw = bw_chunksize (bs_blob st)" "sink_room (bw_file (bs_blob st)) \<le> sink_room (bw_file bw) + ?k"
      using write_file_room [OF pos reg.hyps(4), of hash] cs room by auto
    then show "\<exists>i st'. build_tree_recursive hash n st = Inr (i, st') \<and> uses ?k st st'"
      using reg.hyps file_kinds by (simp add: build_tree_recursive.simps [of _ n] uses_def Let_def)
  qed
qed (auto simp: walk_ok_def build_tree_recursive.simps uses_def file_kinds Let_def)

lemma tree_is_built:
  assumes "needs (unat chunksize) source k" and "0 < unat chunksize" and "k \<le> room"
  shows "\<exists>inodes bw. build_tree hash source (blob_writer_new room chunksize) = Inr (inodes, bw)"
proof -
  note ok = needs_walk_ok [OF assms(1,2), of hash]
  let ?st = "\<lparr>bs_blob = blob_writer_new room chunksize, bs_inodes = [], bs_ino_counter = 0, bs_hardlink_map = (\<lambda>_. None)\<rparr>"
  have "unat (bw_chunksize (bs_blob ?st)) = unat chunksize" "k \<le> sink_room (bw_file (bs_blob ?st))"
    using assms(3) by (simp_all add: blob_writer_new_def)
  then obtain i st' where "build_tree_recursive hash source ?st = Inr (i, st')"
    using ok unfolding walk_ok_def by blast
  then show ?thesis by (simp add: build_tree_def)
qed

end
