(* ===== verification/Sample_Mounted.thy ===== *)
theory Sample_Mounted
  imports Sample Fuse_Image Fuse_Props Build_Progress
begin

text \<open>
  The sample source built, opened and served: the facts that the applications of the properties to
  it share.
\<close>

unbundle bit_operations_syntax

subsection \<open>Building\<close>

lemma sample_fits: "metadata_size (unat (4096 :: u32)) sample_root \<le> 2 ^ 59"
proof -
  have "(2 :: nat) ^ 16 \<le> 2 ^ 59" by simp
  then show ?thesis using sample_tree_size le_trans by simp
qed

lemma sample_chunks: "split_chunks 4096 [1, 2, 3 :: u8] = [[1, 2, 3]]"
  by (simp add: split_chunks.simps)

lemma sample_needs: "needs 4096 sample_root 8192"
proof -
  have "needs 4096 sample_file (chunks_need 4096 (take (unat (st_size (sample_stat 2 0x81A4 2 3))) [1, 2, 3]))"
    by (rule needs.reg [OF sample_stats(2) sample_kinds(4) sample_sources(3)]) (simp add: sample_stat_def)
  then have f: "needs 4096 sample_file 4096"
    by (simp add: sample_stat_def chunks_need_def sample_chunks pad_len_def)
  have l: "needs 4096 sample_link 0"
    by (rule needs.symlink [OF sample_stats(3) sample_kinds(7) sample_sources(4)])
  have d: "needs 4096 sample_subdir (sum_list [])"
    by (rule needs.dir [OF sample_stats(4) sample_kinds(2) sample_sources(2)]) (simp add: sample_by_name)
  have "needs 4096 sample_root (sum_list [0, 4096, 4096, 0])"
    by (rule needs.dir [OF sample_stats(1) sample_kinds(1) sample_sources(1)]) (use f l d in \<open>simp add: sample_by_name\<close>)
  then show ?thesis by simp
qed

subsection \<open>Serving\<close>

lemma sample_power: "is_power_of_two (4096 :: u32)"
  by code_simp

lemma sample_mkfs:
  obtains img blob where
    "mkfs_main sample_hash 4096 1700000000 sample_uuid sample_root True (Some 8192) (Some 131072) = Inr (img, blob)"
  using sample_image by blast

lemma sample_opened:
  obtains img blob r where
    "mkfs_main sample_hash 4096 1700000000 sample_uuid sample_root True (Some 8192) (Some 131072) = Inr (img, blob)"
    and "reader_open (Some img) (Some (Some blob)) = Inr r"
    and "presents r (superblock_root_nid (reader_sb r)) sample_root (superblock_root_nid (reader_sb r))"
    and "mapped r" and "superblock_root_nid (reader_sb r) = 0"
proof -
  obtain img blob where run:
    "mkfs_main sample_hash 4096 1700000000 sample_uuid sample_root True (Some 8192) (Some 131072) = Inr (img, blob)"
    by (rule sample_mkfs)
  have v: "source_valid sample_hash (unat (4096 :: u32)) sample_nodes sample_root" using sample_valid by simp
  have u: "length sample_uuid = 16" by (simp add: sample_uuid_def)
  show ?thesis
    by (rule mkfs_presents [OF v u _ run sample_fits]) (use run that in auto)
qed

lemma sample_served:
  obtains fs where "serves_source sample_hash sample_root fs" and "fs = fs_new (fs_reader fs)"
proof -
  obtain img blob r where run:
    "mkfs_main sample_hash 4096 1700000000 sample_uuid sample_root True (Some 8192) (Some 131072) = Inr (img, blob)"
    and o: "reader_open (Some img) (Some (Some blob)) = Inr r"
    by (rule sample_opened)
  have v: "source_valid sample_hash (unat (4096 :: u32)) sample_nodes sample_root" using sample_valid by simp
  have u: "length sample_uuid = 16" "(8192 :: nat) \<le> 2 ^ 60" by (simp_all add: sample_uuid_def)
  have "serves_source sample_hash sample_root (fs_new r)"
    by (rule serves_sourceI [OF v u sample_fits run]) (simp add: fs_new_def o)
  then show ?thesis by (rule that) (simp add: fs_new_def)
qed

lemma sample_plain: "plain_name [102]" "plain_name [100]" "plain_name [108]" "plain_name [103]" "plain_name [107]"
  by (simp_all add: plain_name_def sample_names)

lemma sample_resolve:
  "resolve sample_root [] = Some sample_root" "resolve sample_root [[102]] = Some sample_file"
  "resolve sample_root [[108]] = Some sample_link" "resolve sample_root [[100]] = Some sample_subdir"
  "src_child sample_root [107] = None" "src_is_dir sample_root" "src_child sample_subdir [102] = None" "src_is_dir sample_subdir"
  by (simp_all add: src_is_dir_def src_child_def sample_stats sample_kinds sample_sources sample_by_name sample_lossy)

end
