(* ===== verification/Mount.thy ===== *)
theory Mount
  imports Fuse
begin

text \<open>
  \<^verbatim>\<open>src/bin/erofs-fuse.rs\<close>: the mount program. It opens the image, builds the server and starts the
  worker threads, each of which takes requests from its channel until the channel ends; after a signal
  it unmounts. The session of the third-party library is a parameter: whether each of its calls
  succeeds, the channels it hands out, the results of a channel in order, and the handler of a request;
  so are the runtime, the threads and the wait for a signal. The calls the program makes on them are its
  effects: every part of it is given the list of calls made so far and returns the list with its own
  calls added, on success and on failure, next to its result. \<open>mount_plan\<close> is the sequence of calls that
  the program is to make; the lemma \<open>fuse_main_calls\<close> shows that it makes them in this order, up to the
  first that fails. Logging and argument parsing are left out.
\<close>

subsection \<open>The loop of a worker\<close>

datatype 'q channel_event = Request 'q | Ended | ChannelError

datatype handle_result = Handled | EncodeMessage | OtherError

fun worker :: "('q \<Rightarrow> 's \<Rightarrow> handle_result \<times> 's) \<Rightarrow> 'q channel_event list \<Rightarrow> 's \<Rightarrow> 's \<times> 'q channel_event list" where
  \<comment> \<open>the loop of one worker over what its channel gives; the second component is what it leaves
    unread when it exits\<close>
  "worker handle_message [] s = (s, [])"
| "worker handle_message (ev # evs) s =
     (case ev of
        Request q \<Rightarrow>
          (case handle_message q s of
             (EncodeMessage, s) \<Rightarrow> (s, evs)
           | (_, s) \<Rightarrow> worker handle_message evs s)
      | Ended \<Rightarrow> (s, evs)
      | ChannelError \<Rightarrow> (s, evs))"

subsection \<open>Calls on the session\<close>

datatype 'c session_call =
    BuildRuntime \<comment> \<open>the runtime that opens the image\<close>
  | NewSession
  | MountSession
  | NewChannel nat
  | SpawnWorker nat 'c erofs_fs \<comment> \<open>a worker thread with its number, its channel and its server\<close>
  | NewSignals
  | AwaitSignal
  | Umount
  | Wake

record 'c session =
  sc_succeeds :: "'c session_call \<Rightarrow> bool"
  sc_channel :: "nat \<Rightarrow> 'c" \<comment> \<open>the channels, in the order they are handed out\<close>

definition call_succeeds :: "'c session \<Rightarrow> 'c session_call \<Rightarrow> bool" where
  \<comment> \<open>the wait for a signal has no error to return\<close>
  "call_succeeds se c \<longleftrightarrow> c = AwaitSignal \<or> sc_succeeds se c"

definition call_session :: "'c session \<Rightarrow> 'c session_call \<Rightarrow> 'c session_call list \<Rightarrow> 'c session_call list \<times> (error + unit)" where
  "call_session se c calls = (calls @ [c], if call_succeeds se c then Inr () else Inl SessionFailed)"

definition next_call :: "'l \<times> (error + 'a) \<Rightarrow> ('a \<Rightarrow> 'l \<Rightarrow> 'l \<times> (error + 'b)) \<Rightarrow> 'l \<times> (error + 'b)" where
  \<comment> \<open>the \<^verbatim>\<open>?\<close> operator, where the calls made so far are kept on an error\<close>
  "next_call m f = (case m of (calls, Inl e) \<Rightarrow> (calls, Inl e) | (calls, Inr x) \<Rightarrow> f x calls)"

lemma next_call_simps [simp]:
  "next_call (calls, Inl e) f = (calls, Inl e)"
  "next_call (calls, Inr x) f = f x calls"
  by (simp_all add: next_call_def)

lemma next_call_assoc: "next_call (next_call m f) g = next_call m (\<lambda>x calls. next_call (f x calls) g)"
  by (auto simp: next_call_def split: prod.split sum.split)

subsection \<open>The program\<close>

fun start_workers ::
  "'c session \<Rightarrow> erofs_fs \<Rightarrow> nat list \<Rightarrow> 'c session_call list \<Rightarrow> 'c session_call list \<times> (error + unit)" where
  "start_workers se server [] calls = (calls, Inr ())"
| "start_workers se server (i # is) calls =
     next_call (call_session se (NewChannel i) calls) (\<lambda>_ calls.
     let ch = sc_channel se i in
     next_call (call_session se (SpawnWorker i ch server) calls) (\<lambda>_ calls.
     start_workers se server is calls))"

definition fuse_start ::
  "bool \<Rightarrow> u8 list option \<Rightarrow> u8 list option option \<Rightarrow> 'c session \<Rightarrow> u32 \<Rightarrow> 'c session_call list \<Rightarrow>
     'c session_call list \<times> (error + unit)" where
  \<comment> \<open>up to the wait for a signal; the arguments are whether the mount point is a directory, the
    image, the blob device, the session and the number of threads\<close>
  "fuse_start mountpoint_is_dir image_file blobdev se threads calls =
     (if \<not> mountpoint_is_dir then (calls, Inl (Errno 22))
      else
        next_call (call_session se BuildRuntime calls) (\<lambda>_ calls.
        next_call (calls, reader_open image_file blobdev) (\<lambda>reader calls.
        let server = fs_new reader in
        next_call (call_session se NewSession calls) (\<lambda>_ calls.
        next_call (call_session se MountSession calls) (\<lambda>_ calls.
        start_workers se server [0 ..< unat threads] calls)))))"

definition fuse_stop :: "'c session \<Rightarrow> 'c session_call list \<Rightarrow> 'c session_call list \<times> (error + unit)" where
  \<comment> \<open>after the signal\<close>
  "fuse_stop se calls =
     next_call (call_session se Umount calls) (\<lambda>_ calls.
     next_call (call_session se Wake calls) (\<lambda>_ calls. (calls, Inr ())))"

definition fuse_main ::
  "bool \<Rightarrow> u8 list option \<Rightarrow> u8 list option option \<Rightarrow> 'c session \<Rightarrow> u32 \<Rightarrow> 'c session_call list \<times> (error + unit)" where
  \<comment> \<open>the wait itself ends with the first signal; the workers serve requests meanwhile\<close>
  "fuse_main mountpoint_is_dir image_file blobdev se threads =
     next_call (fuse_start mountpoint_is_dir image_file blobdev se threads []) (\<lambda>_ calls.
     next_call (call_session se NewSignals calls) (\<lambda>_ calls.
     next_call (call_session se AwaitSignal calls) (\<lambda>_ calls.
     fuse_stop se calls)))"

subsection \<open>What the program calls\<close>

text \<open>
  The specification: a list of calls, run until the first that fails.
\<close>

definition worker_calls :: "'c session \<Rightarrow> erofs_fs \<Rightarrow> nat list \<Rightarrow> 'c session_call list" where
  "worker_calls se server is = concat (map (\<lambda>i. [NewChannel i, SpawnWorker i (sc_channel se i) server]) is)"

definition mount_plan :: "'c session \<Rightarrow> erofs_fs \<Rightarrow> nat \<Rightarrow> 'c session_call list" where
  \<comment> \<open>the session is mounted, every worker gets a channel of its own and the one server, and after the
    signal the session is unmounted and its workers are woken\<close>
  "mount_plan se server n =
     [BuildRuntime, NewSession, MountSession] @ worker_calls se server [0 ..< n] @
     [NewSignals, AwaitSignal, Umount, Wake]"

definition run_plan ::
  "'c session \<Rightarrow> 'c session_call list \<Rightarrow> 'c session_call list \<Rightarrow> 'c session_call list \<times> (error + unit)" where
  \<comment> \<open>all calls when they succeed, otherwise those up to and including the first that fails\<close>
  "run_plan se plan calls =
     (if \<forall>c \<in> set plan. call_succeeds se c then (calls @ plan, Inr ())
      else (calls @ takeWhile (call_succeeds se) plan @ [hd (dropWhile (call_succeeds se) plan)], Inl SessionFailed))"

lemma run_plan_Nil [simp]: "run_plan se [] calls = (calls, Inr ())"
  by (simp add: run_plan_def)

lemma run_plan_Cons:
  "run_plan se (c # plan) calls = next_call (call_session se c calls) (\<lambda>_ calls. run_plan se plan calls)"
  by (auto simp: run_plan_def call_session_def)

lemma run_plan_append:
  "run_plan se (plan @ plan') calls = next_call (run_plan se plan calls) (\<lambda>_ calls. run_plan se plan' calls)"
  by (induction plan arbitrary: calls) (simp_all add: run_plan_Cons next_call_assoc)

lemma start_workers_calls: "start_workers se server is = run_plan se (worker_calls se server is)"
  by (induction "is") (auto intro!: ext simp: worker_calls_def run_plan_Cons)

lemma fuse_main_calls:
  "fuse_main True image_file blobdev se threads =
     (case reader_open image_file blobdev of
        Inl e \<Rightarrow> ([BuildRuntime], if call_succeeds se BuildRuntime then Inl e else Inl SessionFailed)
      | Inr r \<Rightarrow> run_plan se (mount_plan se (fs_new r) (unat threads)) [])"
  by (simp add: fuse_main_def fuse_start_def fuse_stop_def mount_plan_def start_workers_calls run_plan_append
      run_plan_Cons next_call_assoc Let_def split: sum.split) (simp add: call_session_def)

lemma fuse_main_no_dir: "fuse_main False image_file blobdev se threads = ([], Inl (Errno 22))"
  by (simp add: fuse_main_def fuse_start_def)

subsection \<open>What a worker serves\<close>

definition serves :: "('q \<Rightarrow> 's \<Rightarrow> handle_result \<times> 's) \<Rightarrow> 'q list \<Rightarrow> 's \<Rightarrow> 's" where
  \<comment> \<open>all requests, in order, whatever their results\<close>
  "serves handle_message qs s = fold (\<lambda>q s. snd (handle_message q s)) qs s"

fun no_encode_error :: "('q \<Rightarrow> 's \<Rightarrow> handle_result \<times> 's) \<Rightarrow> 'q list \<Rightarrow> 's \<Rightarrow> bool" where
  "no_encode_error handle_message [] s \<longleftrightarrow> True"
| "no_encode_error handle_message (q # qs) s \<longleftrightarrow>
     fst (handle_message q s) \<noteq> EncodeMessage \<and> no_encode_error handle_message qs (snd (handle_message q s))"

lemma worker_requests:
  "no_encode_error handle_message qs s \<Longrightarrow>
     worker handle_message (map Request qs @ evs) s = worker handle_message evs (serves handle_message qs s)"
  by (induction qs arbitrary: s) (auto simp: serves_def split: handle_result.split prod.split)

text \<open>C35: A worker serves every request before it exits. As long as no reply fails to be encoded, other
  errors included, the worker handles the requests of its channel one by one in order, and it exits at
  the first end or error of the channel, leaving what comes after it unread.\<close>

theorem worker_serves_requests:
  assumes "no_encode_error handle_message qs s" and "ev \<in> {Ended, ChannelError}"
  shows "worker handle_message (map Request qs @ ev # evs) s = (serves handle_message qs s, evs)"
  using worker_requests [OF assms(1), of "ev # evs"] assms(2) by auto

theorem worker_serves_requests_witness:
  "worker (\<lambda>q s. (if q = 2 then OtherError else Handled, s @ [q])) (map Request [1, 2, 3 :: nat] @ Ended # [Request 4]) [] =
     ([1, 2, 3], [Request 4])"
proof -
  let ?h = "\<lambda>q s. (if q = 2 then OtherError else Handled, s @ [q :: nat])"
  have "no_encode_error ?h [1, 2, 3] []" by simp
  from worker_serves_requests [OF this, of Ended "[Request 4]"]
  show ?thesis by (simp add: serves_def)
qed

end
