(* ===== verification/Reader_Safe.thy ===== *)
theory Reader_Safe
  imports Fuse Dir_Visit
begin

text \<open>
  What the reader and the server do on arbitrary images, damaged and hostile ones included. A result
  \<open>settles\<close> when it is a value or an error that the code reports, not a panic and not a loop without
  end. Reads of files and attributes settle for every image whose block size is sensible. Targets of
  links and directories are copied into a vector of the size that the inode states, which is allocated
  before the range is checked: they settle except for an inode with \<open>huge_tail\<close>, for which the
  allocation panics. A walk over a directory settles when, besides, the name offsets of its blocks do not
  decrease.
\<close>

unbundle bit_operations_syntax

subsection \<open>Results that settle\<close>

definition reported :: "error \<Rightarrow> bool" where
  "reported e \<longleftrightarrow> (case e of Panic _ \<Rightarrow> False | Diverged \<Rightarrow> False | _ \<Rightarrow> True)"

definition settles :: "error + 'a \<Rightarrow> bool" where
  "settles m \<longleftrightarrow> (case m of Inl e \<Rightarrow> reported e | Inr _ \<Rightarrow> True)"

named_theorems settling

lemma reported_simps [simp]:
  "reported UnexpectedEof" "reported InvalidData" "reported InvalidInput" "reported NotFound"
  "reported WriteFailed" "reported (Errno n)" "\<not> reported (Panic p)" "\<not> reported Diverged"
  by (simp_all add: reported_def)

lemma settles_simps [simp]: "settles (Inr x)" "settles (Inl e) = reported e"
  by (simp_all add: settles_def)

lemma settles_and_then [settling]:
  "settles m \<Longrightarrow> (\<And>x. m = Inr x \<Longrightarrow> settles (f x)) \<Longrightarrow> settles (and_then m f)"
  by (cases m) simp_all

lemma settles_if [settling]: "(c \<Longrightarrow> settles a) \<Longrightarrow> (\<not> c \<Longrightarrow> settles b) \<Longrightarrow> settles (if c then a else b)"
  by simp

lemma settles_ok: "is_ok m \<Longrightarrow> settles m"
  by (cases m) simp_all

subsection \<open>Slices and inodes\<close>


lemma settles_cast_ref: "n \<le> length xs \<Longrightarrow> settles (cast_ref n view xs)"
  by (simp add: cast_ref_def)

lemma settles_checked_slice:
  assumes "length mm < 2 ^ 64"
  shows "settles (checked_slice mm off len)"
proof (cases "unat off + unat len < 2 ^ 64")
  case True
  then have "unat (off + len) = unat off + unat len" by (simp add: unat_word_ariths)
  then show ?thesis using True by (simp add: checked_slice_def slice_range_def)
qed (simp add: checked_slice_def)

lemma settles_slice [settling]:
  "mapped r \<Longrightarrow> settles (mmap_slice r off len)" "mapped r \<Longrightarrow> settles (blob_mmap_slice r off len)"
  by (auto simp: mapped_def mmap_slice_def blob_mmap_slice_def blob_data_def settles_checked_slice split: option.splits)

lemma settles_write_all [settling]: "settles (write_all bs w)"
  by (simp add: write_all_def)

lemma settles_inode_cast [settling]: "settles (inode_cast data)"
  by (simp add: inode_cast_def cast_ref_def Let_def)

lemma settles_inode [settling]: "mapped r \<Longrightarrow> settles (reader_inode r nid)"
  by (auto simp: reader_inode_def Let_def intro!: settling)

lemma settles_flat [settling]: "mapped r \<Longrightarrow> settles (read_flat_data r nid i off len)"
  by (auto simp: read_flat_data_def Let_def intro!: settling)

lemma settles_flat_vec [settling]:
  assumes "mapped r" and "spans_tail i off len \<Longrightarrow> unat len < 2 ^ 63"
  shows "settles (read_flat_data_vec r nid i off len)"
  using assms by (auto simp: read_flat_data_vec_def vec_with_capacity_def spans_tail_def Let_def intro!: settling)

definition huge_tail :: "erofs_inode \<Rightarrow> bool" where
  \<comment> \<open>the data goes from the blocks into the tail and is longer than \<^verbatim>\<open>isize::MAX\<close>\<close>
  "huge_tail i \<longleftrightarrow>
     inode_data_layout i = EROFS_INODE_FLAT_INLINE \<and> 2 ^ 63 \<le> unat (inode_size i) \<and> unat (inode_size i) mod 4096 \<noteq> 0"

lemma huge_tail_spans: "huge_tail i \<longleftrightarrow> spans_tail i 0 (inode_size i) \<and> 2 ^ 63 \<le> unat (inode_size i)"
proof (cases "2 ^ 63 \<le> unat (inode_size i)")
  case False
  then show ?thesis by (simp add: huge_tail_def)
next
  case True
  let ?n = "inode_size i"
  have m: "unat (?n mod 4096) = unat ?n mod 4096" by (simp add: unat_mod)
  then have "?n mod 4096 \<le> ?n" by (simp add: word_le_nat_alt)
  then have "unat (inline_blocks_size i) = unat ?n - unat ?n mod 4096"
    by (simp add: inline_blocks_size_eq full_blocks_def unat_sub m)
  moreover have "unat ?n mod 4096 < 4096" by simp
  ultimately show ?thesis
    using True by (auto simp: huge_tail_def spans_tail_def word_less_nat_alt)
qed

lemma huge_tail_overflow: "huge_tail i \<Longrightarrow> read_flat_data_vec r nid i 0 (inode_size i) = Inl (Panic CapacityOverflow)"
  by (simp add: huge_tail_spans read_flat_vec_overflow)

lemma settles_whole [settling]:
  "mapped r \<Longrightarrow> \<not> huge_tail i \<Longrightarrow> settles (read_flat_data_vec r nid i 0 (inode_size i))"
  by (intro settles_flat_vec) (simp_all add: huge_tail_spans)

lemma settles_write_flat [settling]: "mapped r \<Longrightarrow> settles (write_flat_data_to r nid i off len w)"
  by (auto simp: write_flat_data_to_def Let_def intro!: settling)

lemma settles_xattrs [settling]:
  assumes "mapped r"
  shows "settles (read_xattrs r nid i)"
proof (cases "inode_xattr_size i = 0")
  case True
  then show ?thesis by (simp add: read_xattrs_def)
next
  case nonempty: False
  let ?s = "mmap_slice r (nid_to_offset r nid + word_of_nat (inode_header_size i)) (word_of_nat (inode_xattr_size i))"
  have "settles ?s" by (rule settles_slice [OF assms])
  moreover have "settles (read_xattrs r nid i)" if "?s = Inr d" for d
    using read_xattrs_settled [OF _ that] assms by (simp add: mapped_def settles_ok)
  ultimately show ?thesis
    using nonempty by (cases ?s) (simp_all add: read_xattrs_def Let_def)
qed

subsection \<open>File data\<close>

text \<open>The index table, when a chunk has at least 16 bytes, so that its size does not wrap around.\<close>

lemma settles_chunk_index:
  assumes "8 * unat idx + 8 \<le> length d" and "length d < 2 ^ 64"
  shows "settles (chunk_index_at d idx)"
proof -
  have "unat (idx * 8) = 8 * unat idx" using assms by (simp add: unat_word_ariths)
  then show ?thesis
    using assms by (auto simp: chunk_index_at_def slice_range_def Let_def intro!: settling settles_cast_ref)
qed

lemma few_chunks:
  assumes "4 \<le> unat cb mod 64"
  shows "unat (div_ceil_u64 isize (chunk_size cb)) \<le> 2 ^ 60"
proof (rule ccontr)
  have pos: "0 < unat (chunk_size cb)" by (simp add: unat_chunk_size)
  assume "\<not> ?thesis"
  then have "2 ^ 60 * unat (chunk_size cb) < unat isize"
    using div_ceil_bounds(2) [OF pos, of "2 ^ 60" "unat isize"] by (simp only: unat_div_ceil_u64 not_le)
  moreover have "(2 :: nat) ^ 4 \<le> unat (chunk_size cb)"
    unfolding unat_chunk_size using assms by (intro power_increasing) simp_all
  ultimately show False using unat_lt [of isize] by simp
qed

lemma settles_table:
  assumes "mapped r" and "4 \<le> unat (reader_chunkbits r i) mod 64" and "chunk_indexes r nid i = Inr d"
    and "idx < div_ceil_u64 (inode_size i) (chunk_size (reader_chunkbits r i))"
  shows "settles (chunk_index_at d idx)"
proof (rule settles_chunk_index)
  let ?n = "div_ceil_u64 (inode_size i) (chunk_size (reader_chunkbits r i))"
  have n: "unat ?n \<le> 2 ^ 60" by (rule few_chunks [OF assms(2)])
  then have n8: "unat (?n * 8) = 8 * unat ?n" by (simp add: unat_word_ariths)
  have "length d = unat (?n * 8)"
    using assms(3) mapped_slice_length [OF assms(1)] by (auto simp: chunk_indexes_def Let_def split: if_splits)
  then show "8 * unat idx + 8 \<le> length d" "length d < 2 ^ 64"
    using assms(4) n n8 by (simp_all add: word_less_nat_alt)
qed

lemma settles_chunk_indexes [settling]: "mapped r \<Longrightarrow> settles (chunk_indexes r nid i)"
  by (auto simp: chunk_indexes_def Let_def intro!: settling)

lemma settles_piece [settling]: "mapped r \<Longrightarrow> settles (chunk_piece r ci off len)"
  by (auto simp: chunk_piece_def Let_def intro!: settling)

lemma settles_zeros [settling]: "left \<le> fuel \<Longrightarrow> settles (write_zeros fuel left w)"
  by (induction fuel left w rule: write_zeros.induct) (auto simp: Let_def intro!: settling)

lemma settles_write_chunks:
  assumes "mapped r" and "\<And>idx. idx < nchunks \<Longrightarrow> settles (chunk_index_at d idx)"
  shows "settles (write_chunk_loop r cb d nchunks remaining fp w)"
  using assms
proof (induction r cb d nchunks remaining fp w rule: write_chunk_loop.induct)
  case (1 r cb d nchunks remaining fp w)
  show ?case
    using 1 by (subst write_chunk_loop.simps) (auto simp: Let_def not_le intro!: settling)
qed

lemma settles_span:
  assumes "mapped r" and "\<And>idx. idx < div_ceil_u64 isize (chunk_size cb) \<Longrightarrow> settles (chunk_index_at d idx)"
    and "unat fp + unat remaining \<le> unat isize"
  shows "settles (chunk_span r cb d remaining fp)"
  using assms(3)
proof (induction "unat remaining" arbitrary: remaining fp rule: less_induct)
  case less
  show ?case
  proof (cases "remaining > 0")
    case False
    then show ?thesis using no_remaining [OF False] by simp
  next
    case True
    then have "unat fp < unat isize" using less.prems by (simp add: word_less_nat_alt)
    then have "fp div chunk_size cb < div_ceil_u64 isize (chunk_size cb)" by (rule chunk_idx_in_range)
    then show ?thesis
      unfolding chunk_span_step [OF True]
      using assms(1,2) less.hyps [OF left_decreases [OF True] piece_advance [OF less.prems]]
      by (auto intro!: settling)
  qed
qed

lemma chunkbits_range:
  assumes "4 \<le> unat (sb_blkszbits (reader_sb r))" and "unat (sb_blkszbits (reader_sb r)) \<le> 32"
  shows "4 \<le> unat (reader_chunkbits r i) mod 64"
proof -
  let ?f = "(ucast (inode_chunk_format i) :: u32) AND 0x1F"
  have "unat ?f \<le> 31" using word_and_le1 [of "ucast (inode_chunk_format i)" "0x1F :: u32"] by (simp add: word_le_nat_alt)
  then have "unat (reader_chunkbits r i) = unat (sb_blkszbits (reader_sb r)) + unat ?f"
    using assms by (simp add: reader_chunkbits_def unat_word_ariths)
  then show ?thesis using assms \<open>unat ?f \<le> 31\<close> by simp
qed

lemma settles_reads:
  assumes m: "mapped r" and bits: "4 \<le> unat (sb_blkszbits (reader_sb r))" "unat (sb_blkszbits (reader_sb r)) \<le> 32"
  shows "settles (read_file_data_sync r nid i offset len)" and "settles (write_file_data_to r nid i offset len w)"
proof -
  note cb = chunkbits_range [OF bits, of i]
  let ?n = "min (ucast len) (inode_size i - offset)"
  have "settles (read_chunk_data_sync r nid i offset ?n)" if "\<not> inode_size i \<le> offset"
    unfolding read_chunk_data_span [OF m actual_size_bound [OF that]]
    using m settles_table [OF m cb] actual_size_bound [OF that] by (blast intro: settling settles_span)
  then show "settles (read_file_data_sync r nid i offset len)"
    using m read_within_u32 by (auto simp: read_file_data_sync_def Let_def intro!: settling)
  have "settles (write_chunk_data_to r nid i offset ?n w)"
    using m settles_table [OF m cb] by (auto simp: write_chunk_data_to_def Let_def intro!: settling settles_write_chunks)
  then show "settles (write_file_data_to r nid i offset len w)"
    using m by (auto simp: write_file_data_to_def Let_def intro!: settling)
qed

subsection \<open>Directories\<close>

text \<open>
  A block whose names do not run backwards: the entries it announces lie in it, and each name starts
  no later than the next, or outside the block.
\<close>

definition name_off :: "u8 list \<Rightarrow> nat \<Rightarrow> nat" where
  "name_off block i = unat (dirent_nameoff (dirent_view (drop (12 * i) block)))"

definition block_sound :: "u8 list \<Rightarrow> bool" where
  "block_sound block \<longleftrightarrow>
     (let n = name_off block 0 div 12 in
      length block < 12 \<or>
      12 * n \<le> length block \<and>
      (\<forall>i < n. Suc i < n \<longrightarrow> name_off block i \<le> name_off block (Suc i) \<or> length block \<le> name_off block i \<or>
         length block < name_off block (Suc i)))"

definition dir_sound :: "u8 list \<Rightarrow> bool" where
  "dir_sound data \<longleftrightarrow> (\<forall>k \<le> length data div 4096. block_sound (bytes_at (4096 * k) 4096 data))"

lemma dirent_at_off:
  assumes "from + 12 \<le> to" and "to \<le> length block"
  shows "\<exists>de. dirent_at block from to = Inr de \<and> unat (dirent_nameoff de) =
    unat (dirent_nameoff (dirent_view (drop from block)))"
proof -
  have v: "dirent_view (bytes_at from (to - from) block) = dirent_view (drop from block)"
    using assms by (simp add: dirent_view_def bytes_at_def take_drop min_def) 
  then show ?thesis using assms by (simp add: dirent_at_def slice_range_def cast_ref_def)
qed





definition dir_readable :: "erofs_reader \<Rightarrow> u64 \<Rightarrow> erofs_inode \<Rightarrow> bool" where
  \<comment> \<open>what can be read of a directory is sound\<close>
  "dir_readable r nid i \<longleftrightarrow> (\<forall>data. read_flat_data_vec r nid i 0 (inode_size i) = Inr data \<longrightarrow> dir_sound data)"



text \<open>The directories that the builder writes are sound.\<close>

lemma name_off_image:
  assumes "block_ok es" and "i < length es"
  shows "name_off (block_image es) i = noff es i"
proof -
  have len: "length (block_image es) = 4096" "i * 12 + 12 \<le> 4096"
    using assms(2) block_okD [OF assms(1)] by (auto simp: length_block_image)
  obtain de where "dirent_at (block_image es) (i * 12) 4096 = Inr de"
    "unat (dirent_nameoff de) = name_off (block_image es) i"
    using dirent_at_off [of "i * 12" 4096 "block_image es"] len by (auto simp: name_off_def mult.commute)
  moreover from this have "de = dirents_of (12 * length es) es ! i"
    using dirent_at_image [OF assms, of 4096] by simp
  moreover have "unat (dirent_nameoff (dirents_of (12 * length es) es ! i)) = noff es i"
    using noff_unat [OF assms(1), of i] assms(2) by (simp add: dirents_of_nth noff_def)
  ultimately show ?thesis by simp
qed

lemma block_image_sound:
  assumes "block_ok es" and "es \<noteq> []"
  shows "block_sound (block_image es)"
proof -
  have "0 < length es" using assms(2) by simp
  then have "name_off (block_image es) 0 div 12 = length es"
    using name_off_image [OF assms(1)] by (simp add: noff_def)
  moreover have "noff es i \<le> noff es (Suc i)" if "Suc i < length es" for i
    using that by (simp add: noff_def names_len_take_Suc)
  ultimately show ?thesis
    using name_off_image [OF assms(1)] block_okD [OF assms(1)] by (simp add: block_sound_def length_block_image Let_def)
qed

lemma dir_image_sound:
  assumes "names_fit es" and "names_clean es"
  shows "dir_sound (concat (map block_image (dir_blocks_of es)))"
proof -
  let ?bs = "dir_blocks_of es"
  have ok: "\<forall>b \<in> set ?bs. block_ok b \<and> b \<noteq> []" using blocks_ok [OF assms] by blast
  then have lens: "\<forall>b \<in> set ?bs. length (block_image b) = 4096" by (auto simp: block_ok_def length_block_image)
  have "block_sound (bytes_at (4096 * k) 4096 (concat (map block_image ?bs)))" if "k \<le> length ?bs" for k
  proof (cases "k < length ?bs")
    case True
    then show ?thesis using bytes_at_block [OF lens True] ok block_image_sound by simp
  next
    case False
    then have "length (bytes_at (4096 * k) 4096 (concat (map block_image ?bs))) = 0" by (simp add: length_dir_image)
    then show ?thesis by (simp only: block_sound_def Let_def) simp
  qed
  then show ?thesis by (simp add: dir_sound_def length_dir_image)
qed

lemma stored_dir_readable:
  assumes "names_fit es" and "names_clean es" and "inode_data_layout i = EROFS_INODE_FLAT_PLAIN"
    and "stored r (inode_startblk i * 4096) (concat (map block_image (dir_blocks_of es)))"
    and "unat (inode_size i) = length (concat (map block_image (dir_blocks_of es)))"
  shows "dir_readable r nid i"
proof -
  let ?d = "concat (map block_image (dir_blocks_of es))"
  have "inode_size i = word_of_nat (length ?d)" by (simp flip: assms(5))
  then have "read_flat_data_vec r nid i 0 (inode_size i) = Inr ?d"
    using stored_slice_0 [OF assms(4)] assms(3) by (simp add: read_flat_data_vec_def read_flat_data_def Let_def)
  then show ?thesis using dir_image_sound [OF assms(1,2)] by (simp add: dir_readable_def)
qed

subsection \<open>Properties\<close>

lemma settles_readdir:
  assumes "\<And>d s. settles (add_entry d s)"
  shows "settles (readdir_loop fs add_entry es s)"
  by (induction es arbitrary: s) (auto simp: Let_def assms simp flip: and_then_def intro!: settling)

lemma settles_readdirplus:
  assumes "mapped (fs_reader fs)" and "\<And>d e s. settles (add_entry d e s)"
  shows "settles (readdirplus_loop fs add_entry es s)"
  by (induction es arbitrary: s) (auto simp: Let_def assms simp flip: and_then_def intro!: settling)

lemma settles_find_xattr [settling]: "settles (find_xattr name sz xs)"
  by (induction xs) auto

lemma settles_handle [settling]: "settles (get_dir_handle fs h)"
  by (simp add: get_dir_handle_def split: option.split)

text \<open>C22: Files never make the server panic, but for one case that does. For arbitrary images with a
  sensible block size and any arguments, the operations on attributes, file data and extended attributes
  and the listings of an open handle return a value or a reported error; so does reading a target, except
  that it panics with a capacity overflow, always, when the inode states inline data of more than
  \<^verbatim>\<open>isize::MAX\<close> bytes that does not end at a block boundary.\<close>

theorem file_operations_never_panic:
  assumes "mapped (fs_reader fs)" and "4 \<le> unat (sb_blkszbits (reader_sb (fs_reader fs)))"
    and "unat (sb_blkszbits (reader_sb (fs_reader fs))) \<le> 32"
    and "\<And>d s. settles (add_entry d s)" and "\<And>d e s. settles (add_plus d e s)" and "\<And>bs w. settles (write_reply bs w)"
  shows "settles (fs_getattr fs ino) \<and> settles (fs_open fs ino flags) \<and> settles (fs_read fs ino w sz offset) \<and>
    settles (fs_getxattr fs ino name sz) \<and> settles (fs_listxattr fs ino sz) \<and>
    settles (fs_statfs fs) \<and> settles (fs_readdir fs h offset add_entry s) \<and>
    settles (fs_readdirplus fs h offset add_plus s) \<and> settles (async_read write_reply fs ino w' sz offset) \<and>
    (if \<exists>i. reader_inode (fs_reader fs) (to_nid fs ino) = Inr i \<and> huge_tail i
     then fs_readlink fs ino = Inl (Panic CapacityOverflow)
     else settles (fs_readlink fs ino))"
  using assms settles_reads [OF assms(1-3)] huge_tail_overflow
  by (auto simp: fs_getattr_def fs_open_def fs_read_def fs_readlink_def read_symlink_def fs_getxattr_def fs_listxattr_def
      fs_statfs_def fs_readdir_def fs_readdirplus_def async_read_def Let_def
      intro!: settling settles_readdir settles_readdirplus)


subsection \<open>Images that make the reader panic\<close>

text \<open>Images of a superblock and, in slot 36, one extended inode.\<close>

definition bare_image :: "erofs_superblock \<Rightarrow> erofs_inode_extended \<Rightarrow> u8 list" where
  "bare_image sb e = replicate 1024 0 @ superblock_as_bytes sb @ inode_extended_as_bytes e"

lemma bare_image_opens:
  assumes "superblock_ok sb" and "superblock_magic sb = EROFS_SUPER_MAGIC_V1" and "inode_extended_ok e"
  shows "reader_open (Some (bare_image sb e)) None = Inr (image_reader (bare_image sb e) None)"
    and "reader_sb (image_reader (bare_image sb e) None) = sb"
    and "mapped (image_reader (bare_image sb e) None)"
    and "length (rd_mmap (image_reader (bare_image sb e) None)) = 1216"
proof -
  have "length (superblock_as_bytes sb) = 128" "length (inode_extended_as_bytes e) = 64"
    using superblock_codec.enc_length [OF assms(1)] inode_extended_codec.enc_length [OF assms(3)] by simp_all
  then have len: "length (bare_image sb e) = 1216" by (simp add: bare_image_def)
  have view: "superblock_view (drop 1024 (bare_image sb e)) = sb"
    using superblock_codec.view_enc [OF assms(1)] by (simp add: bare_image_def)
  then show "reader_sb (image_reader (bare_image sb e) None) = sb" by (simp add: reader_sb_def image_reader_def)
  show "reader_open (Some (bare_image sb e)) None = Inr (image_reader (bare_image sb e) None)"
    using assms(2) by (simp add: reader_open_def superblock_from_def slice_range_def cast_ref_def len view bytes_at_def image_reader_def)
  show "mapped (image_reader (bare_image sb e) None)" "length (rd_mmap (image_reader (bare_image sb e) None)) = 1216"
    by (simp_all add: mapped_def image_reader_def len blob_data_def)
qed

lemma bare_image_inode:
  assumes ok: "superblock_ok sb" "superblock_magic sb = EROFS_SUPER_MAGIC_V1" "inode_extended_ok e"
    and "superblock_meta_blkaddr sb = 0" and "bit (get_u16 (ei_format e)) 0"
  shows "nid_to_offset (image_reader (bare_image sb e) None) 36 = 1152"
    and "reader_inode (image_reader (bare_image sb e) None) 36 = Inr (Extended e)"
proof -
  let ?r = "image_reader (bare_image sb e) None"
  show off: "nid_to_offset ?r 36 = 1152"
    using assms(4) by (simp add: nid_to_offset_def bare_image_opens(2) [OF ok])
  have "length (superblock_as_bytes sb) = 128" "length (inode_extended_as_bytes e) = 64"
    using superblock_codec.enc_length [OF ok(1)] inode_extended_codec.enc_length [OF ok(3)] by simp_all
  moreover have "length (bare_image sb e) = 1216" using bare_image_opens(4) [OF ok] by (simp add: image_reader_def)
  ultimately have "mmap_slice ?r 1152 64 = Inr (inode_extended_as_bytes e)"
    by (simp add: mmap_slice_def checked_slice_in_range image_reader_def) (simp add: bare_image_def bytes_at_append_right)
  then show "reader_inode ?r 36 = Inr (Extended e)"
    using inode_cast_extended [OF ok(3) assms(5), of "[]"] by (simp add: reader_inode_def off)
qed

definition huge_target_image :: "u8 list" where
  \<comment> \<open>an ordinary superblock, and a symbolic link whose inline target has \<open>2 ^ 63 + 1\<close> bytes\<close>
  "huge_target_image =
     bare_image (superblock_new 0 0 0 1 0 1 0 0 0 (replicate 16 0))
       (inode_extended_new (extended_i_format EROFS_INODE_FLAT_INLINE) 0xA1FF 0 (2 ^ 63 + 1) 0 1 0 0 0 0 1)"

lemma huge_target:
  fixes r defines "r \<equiv> image_reader huge_target_image None"
  shows "reader_open (Some huge_target_image) None = Inr r" and "mapped r"
    and "sb_blkszbits (reader_sb r) = EROFS_BLKSZBITS" and "superblock_root_nid (reader_sb r) = 0"
    and "\<exists>i. reader_inode r 36 = Inr i \<and> huge_tail i"
proof -
  let ?sb = "superblock_new 0 0 0 1 0 1 0 0 0 (replicate 16 0)"
  let ?e = "inode_extended_new (extended_i_format EROFS_INODE_FLAT_INLINE) 0xA1FF 0 (2 ^ 63 + 1) 0 1 0 0 0 0 1"
  have ok: "superblock_ok ?sb" "superblock_magic ?sb = EROFS_SUPER_MAGIC_V1" "inode_extended_ok ?e"
    by (simp_all add: superblock_new_ok)
  note opens = bare_image_opens [OF ok]
  show "reader_open (Some huge_target_image) None = Inr r" "mapped r"
    unfolding r_def huge_target_image_def by (rule opens)+
  show "sb_blkszbits (reader_sb r) = EROFS_BLKSZBITS" "superblock_root_nid (reader_sb r) = 0"
    unfolding r_def huge_target_image_def opens(2) by simp_all
  have "bit (get_u16 (ei_format ?e)) 0" by (simp add: inode_extended_new_def extended_i_format_def)
  then have "reader_inode r 36 = Inr (Extended ?e)"
    unfolding r_def huge_target_image_def by (intro bare_image_inode(2) [OF ok]) simp_all
  moreover have "huge_tail (Extended ?e)"
    by (simp add: huge_tail_def inode_data_layout_def inode_extended_new_def extended_i_format_def)
  ultimately show "\<exists>i. reader_inode r 36 = Inr i \<and> huge_tail i" by blast
qed

definition tiny_blocks_image :: "u8 list" where
  \<comment> \<open>a superblock with blocks of one byte, and in slot 36 a chunked file of \<open>2 ^ 61\<close> bytes\<close>
  "tiny_blocks_image =
     replicate 1024 0 @
     superblock_as_bytes ((superblock_new 0 0 0 1 0 1 0 0 0 (replicate 16 0))\<lparr>sb_blkszbits := 0\<rparr>) @
     inode_extended_as_bytes
       (inode_extended_new (extended_i_format EROFS_INODE_CHUNK_BASED) 0x81A4 0 (2 ^ 61) 0 1 0 0 0 0 1)"

lemma wrapped_table_panics:
  assumes "mapped r" and "inode_data_layout i = EROFS_INODE_CHUNK_BASED" and "reader_chunkbits r i = 0"
    and "inode_size i = 2 ^ 61" and "unat (nid_to_offset r nid + inline_header_size i) \<le> length (rd_mmap r)"
  shows "write_file_data_to r nid i 0 1 w = Inl (Panic AssertionFailed)"
proof -
  have one: "chunk_size (reader_chunkbits r i) = 1" by (simp add: assms(3) chunk_size_def)
  have n: "div_ceil_u64 (inode_size i) 1 = 2 ^ 61" by (simp add: div_ceil_u64_def assms(4))
  have "checked_slice (rd_mmap r) (nid_to_offset r nid + inline_header_size i) 0 = Inr []"
    using checked_slice_in_range [of "rd_mmap r" "nid_to_offset r nid + inline_header_size i" 0] assms(1,5)
    by (simp add: mapped_def bytes_at_def)
  moreover have "div_ceil_u64 (inode_size i) 1 * 8 = 0" unfolding n by (simp add: word_eq_iff_unsigned)
  ultimately have ci: "chunk_indexes r nid i = Inr []"
    by (simp add: chunk_indexes_def Let_def assms(2) one mmap_slice_def inline_header_size_def)
  have "chunk_index_at [] 0 = Inl (Panic AssertionFailed)"
    by (simp add: chunk_index_at_def slice_range_def cast_ref_def)
  then have "write_chunk_loop r (reader_chunkbits r i) [] (2 ^ 61) 1 0 w = Inl (Panic AssertionFailed)"
    by (subst write_chunk_loop.simps) (simp add: one Let_def)
  then show ?thesis
    by (simp add: write_file_data_to_def write_chunk_data_to_def assms(2,4) ci one n [unfolded assms(4)] n [unfolded assms(4), simplified] Let_def)
qed

text \<open>C40: The block size of an image is not validated. The reader opens an image with blocks of one byte,
  and reading the first byte of a file with \<open>2 ^ 61\<close> bytes panics: the size of the chunk table wraps
  around to nothing, so that the check of its range passes, and the first index lies outside.\<close>

theorem tiny_blocks_panic:
  "\<exists>r. reader_open (Some tiny_blocks_image) None = Inr r \<and>
     fs_read (fs_new r) 37 w 1 0 = Inl (Panic AssertionFailed)"
proof -
  let ?sb = "(superblock_new 0 0 0 1 0 1 0 0 0 (replicate 16 0))\<lparr>sb_blkszbits := 0\<rparr>"
  let ?e = "inode_extended_new (extended_i_format EROFS_INODE_CHUNK_BASED) 0x81A4 0 (2 ^ 61) 0 1 0 0 0 0 1"
  let ?r = "image_reader tiny_blocks_image None"
  have bare: "tiny_blocks_image = bare_image ?sb ?e" by (simp add: tiny_blocks_image_def bare_image_def)
  have ok: "superblock_ok ?sb" "superblock_magic ?sb = EROFS_SUPER_MAGIC_V1" "inode_extended_ok ?e"
    by (simp_all add: superblock_ok_def superblock_new_def superblock_zeroed_def superblock_magic_def)
  note opens = bare_image_opens [OF ok, folded bare]
  have "superblock_meta_blkaddr ?sb = 0" "bit (get_u16 (ei_format ?e)) 0"
    by (simp_all add: superblock_new_def superblock_meta_blkaddr_def inode_extended_new_def extended_i_format_def)
  note i = bare_image_inode [OF ok this, folded bare]
  have "write_file_data_to ?r 36 (Extended ?e) 0 1 w = Inl (Panic AssertionFailed)"
  proof (rule wrapped_table_panics [OF opens(3)])
    show "inode_size (Extended ?e) = 2 ^ 61" by (simp add: inode_extended_new_def)
    show "unat (nid_to_offset ?r 36 + inline_header_size (Extended ?e)) \<le> length (rd_mmap ?r)"
      by (simp add: i(1) opens(4) inline_header_size_def inode_xattr_size_def inode_extended_new_def inode_extended_zeroed_def)
  qed (simp_all add: reader_chunkbits_def opens(2) inode_extended_new_def extended_i_format_def superblock_new_def
      inode_data_layout_def inode_chunk_format_def)
  then have "fs_read (fs_new ?r) 37 w 1 0 = Inl (Panic AssertionFailed)"
    by (simp add: fs_read_def to_nid_def fs_new_def i(2))
  then show ?thesis using opens(1) by blast
qed

end
