(* ===== verification/Fuse_Clients.thy ===== *)
theory Fuse_Clients
  imports Fuse_Handles
begin

text \<open>
  Several clients of one server. The worker threads of the mount program take the requests of all
  clients from the kernel and run on one shared state; opening a directory takes two atomic steps,
  so the requests interleave. A client names the directories it opened by the order in which it
  opened them. The result: every client gets the answers it would get from a server of its own.
\<close>

subsection \<open>Requests and answers\<close>

datatype fs_call =
  Lookup u64 "u8 list" | Getattr u64 | Open u64 u32 | Read u64 u32 u64 nat | Readlink u64
| Getxattr u64 "u8 list" u32 | Listxattr u64 u32 | Statfs
| Opendir u64 | Readdir nat u64 nat | Readdirplus nat u64 nat | Releasedir nat

datatype fs_reply =
  Entry "error + entry" | Attr "error + (stat64 \<times> nat)" | Opened "error + (u64 option \<times> open_option set \<times> u32 option)"
| Data "error + (u64 \<times> sink)" | Target "error + u8 list" | Xattr "error + getxattr_reply"
| Xattrs "error + listxattr_reply" | Statistics "error + statvfs64" | OpenedDir "error + open_option set"
| Page "error + (dirent_reply list \<times> nat)" | PagePlus "error + ((dirent_reply \<times> entry) list \<times> nat)"
| ReleasedDir | NoHandle

text \<open>A page with room for a number of entries.\<close>

definition collect_page :: "'d \<Rightarrow> 'd list \<times> nat \<Rightarrow> error + (nat \<times> 'd list \<times> nat)" where
  "collect_page d = (\<lambda>(page, room). if room = 0 then Inr (0, page, room) else Inr (1, page @ [d], room - 1))"

fun answer :: "erofs_fs \<Rightarrow> u64 list \<Rightarrow> fs_call \<Rightarrow> fs_reply" where
  \<comment> \<open>the requests that leave the state alone; the list is the handles of the client\<close>
  "answer fs hs (Lookup parent name) = Entry (fs_lookup fs parent name)"
| "answer fs hs (Getattr ino) = Attr (fs_getattr fs ino)"
| "answer fs hs (Open ino flags) = Opened (fs_open fs ino flags)"
| "answer fs hs (Read ino sz offset room) = Data (fs_read fs ino \<lparr>sink_data = [], sink_room = room\<rparr> sz offset)"
| "answer fs hs (Readlink ino) = Target (fs_readlink fs ino)"
| "answer fs hs (Getxattr ino name sz) = Xattr (fs_getxattr fs ino name sz)"
| "answer fs hs (Listxattr ino sz) = Xattrs (fs_listxattr fs ino sz)"
| "answer fs hs Statfs = Statistics (fs_statfs fs)"
| "answer fs hs (Readdir k offset room) =
     (if k < length hs then Page (fs_readdir fs (hs ! k) offset collect_page ([], room)) else NoHandle)"
| "answer fs hs (Readdirplus k offset room) =
     (if k < length hs
      then PagePlus (fs_readdirplus fs (hs ! k) offset (\<lambda>d e. collect_page (d, e)) ([], room)) else NoHandle)"
| "answer fs hs (Opendir ino) = NoHandle"
| "answer fs hs (Releasedir k) = NoHandle"

fun serve :: "fs_call \<Rightarrow> u64 list \<times> erofs_fs \<Rightarrow> fs_reply \<times> (u64 list \<times> erofs_fs)" where
  "serve (Opendir ino) (hs, fs) =
     (case fs_opendir fs ino of
        Inl e \<Rightarrow> (OpenedDir (Inl e), (hs, fs))
      | Inr ((Some h, opts), fs) \<Rightarrow> (OpenedDir (Inr opts), (hs @ [h], fs))
      | Inr ((None, opts), fs) \<Rightarrow> (OpenedDir (Inr opts), (hs, fs)))"
| "serve (Releasedir k) (hs, fs) =
     (if k < length hs then
        (case fs_releasedir fs (hs ! k) of
           Inl e \<Rightarrow> (NoHandle, (hs, fs))
         | Inr (_, fs) \<Rightarrow> (ReleasedDir, (hs, fs)))
      else (NoHandle, (hs, fs)))"
| "serve call (hs, fs) = (answer fs hs call, (hs, fs))"

fun alone :: "fs_call list \<Rightarrow> u64 list \<times> erofs_fs \<Rightarrow> fs_reply list" where
  \<comment> \<open>the answers of a server of one's own\<close>
  "alone [] a = []"
| "alone (call # calls) a = (case serve call a of (reply, a) \<Rightarrow> reply # alone calls a)"

subsection \<open>The shared server\<close>

record clients =
  cl_fs :: erofs_fs
  cl_handles :: "nat \<Rightarrow> u64 list"
  cl_opening :: "nat \<Rightarrow> (u64 \<times> u64 \<times> dir_handle) option" \<comment> \<open>drawn and not yet inserted\<close>

inductive clients_step :: "clients \<Rightarrow> (nat \<times> fs_call \<times> fs_reply) option \<Rightarrow> clients \<Rightarrow> bool" where
  atomic: "cl_opening s c = None \<Longrightarrow> (\<And>ino. call \<noteq> Opendir ino) \<Longrightarrow>
     serve call (cl_handles s c, cl_fs s) = (reply, (hs, fs)) \<Longrightarrow>
     clients_step s (Some (c, call, reply)) (s\<lparr>cl_fs := fs, cl_handles := (cl_handles s)(c := hs)\<rparr>)"
| open_fails: "cl_opening s c = None \<Longrightarrow> fs_opendir (cl_fs s) ino = Inl e \<Longrightarrow>
     clients_step s (Some (c, Opendir ino, OpenedDir (Inl e))) s"
| open_draws: "cl_opening s c = None \<Longrightarrow>
     reader_inode (fs_reader (cl_fs s)) (to_nid (cl_fs s) ino) = Inr vi \<Longrightarrow>
     (ucast (inode_mode vi) :: u32) AND 0xF000 = 0x4000 \<Longrightarrow>
     read_dir_cached (fs_reader (cl_fs s)) (to_nid (cl_fs s) ino) vi = Inr entries \<Longrightarrow>
     draw_handle (cl_fs s) = (h, fs) \<Longrightarrow>
     clients_step s None
       (s\<lparr>cl_fs := fs, cl_opening := (cl_opening s)(c \<mapsto> (ino, h, \<lparr>dh_entries = entries\<rparr>))\<rparr>)"
| open_inserts: "cl_opening s c = Some (ino, h, dh) \<Longrightarrow>
     clients_step s (Some (c, Opendir ino, OpenedDir (Inr {CACHE_DIR, KEEP_CACHE})))
       (s\<lparr>cl_fs := insert_handle h dh (cl_fs s), cl_handles := (cl_handles s)(c := cl_handles s c @ [h]),
          cl_opening := (cl_opening s)(c := None)\<rparr>)"

inductive clients_run :: "clients \<Rightarrow> (nat \<times> fs_call \<times> fs_reply) option list \<Rightarrow> clients \<Rightarrow> bool" where
  nil: "clients_run s [] s"
| cons: "clients_step s e s1 \<Longrightarrow> clients_run s1 es s' \<Longrightarrow> clients_run s (e # es) s'"

inductive_simps clients_run_simps [simp]: "clients_run s [] s'" "clients_run s (e # es) s'"

definition clients_start :: "erofs_reader \<Rightarrow> clients" where
  "clients_start r = \<lparr>cl_fs = fs_new r, cl_handles = (\<lambda>_. []), cl_opening = (\<lambda>_. None)\<rparr>"

fun trace_of :: "nat \<Rightarrow> (nat \<times> fs_call \<times> fs_reply) option list \<Rightarrow> (fs_call \<times> fs_reply) list" where
  \<comment> \<open>what one client asked and was answered\<close>
  "trace_of c [] = []"
| "trace_of c (None # es) = trace_of c es"
| "trace_of c (Some (c', call, reply) # es) = (if c' = c then [(call, reply)] else []) @ trace_of c es"

fun draws :: "(nat \<times> fs_call \<times> fs_reply) option list \<Rightarrow> nat" where
  "draws [] = 0"
| "draws (None # es) = Suc (draws es)"
| "draws (Some _ # es) = draws es"

subsection \<open>What an answer depends on\<close>

lemma same_reader:
  assumes "fs_reader fs = fs_reader fs'"
  shows "to_nid fs = to_nid fs'" and "to_ino fs = to_ino fs'" and "make_stat fs = make_stat fs'"
    and "make_entry fs = make_entry fs'" and "dirent_of fs = dirent_of fs'"
proof -
  show n: "to_nid fs = to_nid fs'" "to_ino fs = to_ino fs'" using assms by (auto simp: to_nid_def to_ino_def)
  show m: "make_stat fs = make_stat fs'" using assms n by (auto simp: make_stat_def fs_block_size_def fun_eq_iff)
  show "make_entry fs = make_entry fs'" "dirent_of fs = dirent_of fs'"
    using m n by (auto simp: make_entry_def dirent_of_def fun_eq_iff)
qed

lemma same_loops:
  assumes "fs_reader fs = fs_reader fs'"
  shows "readdir_loop fs add es s = readdir_loop fs' add es s"
    and "readdirplus_loop fs addp es t = readdirplus_loop fs' addp es t"
proof -
  note same = same_reader [OF assms]
  show "readdir_loop fs add es s = readdir_loop fs' add es s"
    by (induction es arbitrary: s) (auto simp: same split: sum.split)
  show "readdirplus_loop fs addp es t = readdirplus_loop fs' addp es t"
    by (induction es arbitrary: t) (auto simp: same assms and_then_def Let_def split: sum.split)
qed

lemma answer_same:
  assumes "fs_reader fs = fs_reader fs'" and "length hs = length hs'"
    and "\<forall>k < length hs. fs_dir_handles fs (hs ! k) = fs_dir_handles fs' (hs' ! k)"
  shows "answer fs hs call = answer fs' hs' call"
  using assms(2,3)
  by (cases call)
    (simp_all add: assms(1) same_reader [OF assms(1)] same_loops [OF assms(1)] fs_lookup_def iterate_dir_def fs_getattr_def
      fs_open_def fs_read_def fs_readlink_def fs_getxattr_def fs_listxattr_def fs_statfs_def fs_block_size_def
      fs_readdir_def fs_readdirplus_def get_dir_handle_def)

subsection \<open>Invariants\<close>

definition numbers :: "nat \<Rightarrow> u64 set" where
  "numbers n = (\<lambda>i. 1 + word_of_nat i) ` {0 ..< n}"

lemma numbers_mono: "m \<le> n \<Longrightarrow> numbers m \<subseteq> numbers n"
  by (auto simp: numbers_def)

lemma fresh_number: "n < 2 ^ 64 \<Longrightarrow> 1 + word_of_nat n \<notin> numbers n"
proof
  assume n: "n < 2 ^ 64" and "(1 + word_of_nat n :: u64) \<in> numbers n"
  then obtain i where i: "i < n" "(word_of_nat n :: u64) = word_of_nat i" by (auto simp: numbers_def)
  then have "n = i" using n by (intro inj_onD [OF inj_word_of_nat]) simp_all
  then show False using i(1) by simp
qed

lemma numbers_Suc: "numbers (Suc n) = insert (1 + word_of_nat n) (numbers n)"
  by (auto simp: numbers_def atLeastLessThanSuc)

lemma distinct_numbers: "distinct hs \<Longrightarrow> set hs \<subseteq> numbers n \<Longrightarrow> length hs \<le> n"
proof -
  assume d: "distinct hs" and s: "set hs \<subseteq> numbers n"
  have "card (numbers n) \<le> n" unfolding numbers_def using card_image_le [of "{0 ..< n}"] by simp
  moreover have "card (set hs) \<le> card (numbers n)" by (rule card_mono [OF _ s]) (simp add: numbers_def)
  ultimately show ?thesis using distinct_card [OF d] by simp
qed

text \<open>The shared server after \<open>n\<close> draws; \<open>slots\<close> are the numbers a client holds.\<close>

definition slots :: "clients \<Rightarrow> nat \<Rightarrow> u64 list" where
  "slots s c = cl_handles s c @ (case cl_opening s c of None \<Rightarrow> [] | Some (ino, h, dh) \<Rightarrow> [h])"

definition opens_as :: "erofs_reader \<Rightarrow> u64 \<Rightarrow> dir_handle \<Rightarrow> bool" where
  "opens_as r ino dh \<longleftrightarrow>
     (\<exists>vi. reader_inode r (to_nid (fs_new r) ino) = Inr vi \<and> (ucast (inode_mode vi) :: u32) AND 0xF000 = 0x4000 \<and>
        read_dir_cached r (to_nid (fs_new r) ino) vi = Inr (dh_entries dh))"

definition shared_inv :: "erofs_reader \<Rightarrow> nat \<Rightarrow> clients \<Rightarrow> bool" where
  "shared_inv r n s \<longleftrightarrow>
     fs_reader (cl_fs s) = r \<and> fs_next_dir_handle (cl_fs s) = 1 + word_of_nat n \<and>
     (\<forall>c. distinct (slots s c) \<and> set (slots s c) \<subseteq> numbers n) \<and>
     (\<forall>c c'. c \<noteq> c' \<longrightarrow> set (slots s c) \<inter> set (slots s c') = {}) \<and>
     (\<forall>c ino h dh. cl_opening s c = Some (ino, h, dh) \<longrightarrow> opens_as r ino dh)"

definition own_inv :: "erofs_reader \<Rightarrow> u64 list \<times> erofs_fs \<Rightarrow> bool" where
  "own_inv r a \<longleftrightarrow>
     fs_reader (snd a) = r \<and> fs_next_dir_handle (snd a) = 1 + word_of_nat (length (fst a)) \<and>
     distinct (fst a) \<and> set (fst a) \<subseteq> numbers (length (fst a))"

definition sees :: "clients \<Rightarrow> nat \<Rightarrow> u64 list \<times> erofs_fs \<Rightarrow> bool" where
  \<comment> \<open>the handles of the client give the same entries on both servers\<close>
  "sees s c a \<longleftrightarrow>
     length (fst a) = length (cl_handles s c) \<and>
     (\<forall>k < length (fst a). fs_dir_handles (cl_fs s) (cl_handles s c ! k) = fs_dir_handles (snd a) (fst a ! k))"

lemma opendir_opens:
  assumes "opens_as r ino dh" and "fs_reader fs = r"
  shows "fs_opendir fs ino = Inr ((Some (fs_next_dir_handle fs), {CACHE_DIR, KEEP_CACHE}),
    insert_handle (fs_next_dir_handle fs) dh (fs\<lparr>fs_next_dir_handle := fs_next_dir_handle fs + 1\<rparr>))"
proof -
  obtain es where dh: "dh = \<lparr>dh_entries = es\<rparr>" by (cases dh) simp
  have "to_nid (fs_new r) = to_nid fs" using assms(2) by (intro same_reader) (simp add: fs_new_def)
  then show ?thesis
    using assms by (auto simp: opens_as_def fs_opendir_def create_dir_handle_def draw_handle_def Let_def dh)
qed

lemma opendir_fails_same:
  assumes "fs_reader fs = fs_reader fs'" and "fs_opendir fs ino = Inl e"
  shows "fs_opendir fs' ino = Inl e"
  using assms(2)
  by (auto simp: fs_opendir_def create_dir_handle_def draw_handle_def assms(1) same_reader [OF assms(1)] and_then_def Let_def
      split: sum.splits if_splits)

text \<open>An open of the server on its own.\<close>

lemma own_open:
  assumes "own_inv r (hs, fs)" and "length hs < 2 ^ 64" and "opens_as r ino dh"
  obtains fs' where "serve (Opendir ino) (hs, fs) =
      (OpenedDir (Inr {CACHE_DIR, KEEP_CACHE}), (hs @ [1 + word_of_nat (length hs)], fs'))"
    and "own_inv r (hs @ [1 + word_of_nat (length hs)], fs')"
    and "fs_dir_handles fs' = (fs_dir_handles fs)(1 + word_of_nat (length hs) \<mapsto> dh)"
proof -
  have i: "fs_reader fs = r" "fs_next_dir_handle fs = 1 + word_of_nat (length hs)" "distinct hs"
    "set hs \<subseteq> numbers (length hs)"
    using assms(1) by (simp_all add: own_inv_def)
  have "1 + word_of_nat (length hs) \<notin> set hs" using fresh_number [OF assms(2)] i(4) by blast
  moreover have "set hs \<subseteq> numbers (Suc (length hs))" using i(4) numbers_mono [of "length hs" "Suc (length hs)"] by auto
  moreover have "1 + word_of_nat (length hs) \<in> numbers (Suc (length hs))" by (simp add: numbers_Suc)
  ultimately show ?thesis
    using i by (intro that [of "insert_handle (1 + word_of_nat (length hs)) dh (fs\<lparr>fs_next_dir_handle := 1 + word_of_nat (length hs) + 1\<rparr>)"])
      (simp_all add: opendir_opens [OF assms(3) i(1)] own_inv_def insert_handle_def)
qed

subsection \<open>Steps\<close>

definition follows :: "nat \<Rightarrow> erofs_reader \<Rightarrow> (nat \<times> fs_call \<times> fs_reply) option \<Rightarrow> clients \<Rightarrow> u64 list \<times> erofs_fs \<Rightarrow> bool" where
  \<comment> \<open>the client's own server takes the step with the same answer\<close>
  "follows c r e s' a \<longleftrightarrow>
     (\<exists>a'. own_inv r a' \<and> sees s' c a' \<and>
        (\<forall>calls. alone (map fst (trace_of c [e]) @ calls) a = map snd (trace_of c [e]) @ alone calls a'))"

lemma follows_other:
  assumes "own_inv r a" and "sees s' c a" and "trace_of c [e] = []"
  shows "follows c r e s' a"
  using assms unfolding follows_def by (intro exI [of _ a]) simp

lemma follows_served:
  assumes "serve call a = (reply, a')" and "own_inv r a'" and "sees s' c a'"
  shows "follows c r (Some (c, call, reply)) s' a"
  using assms unfolding follows_def by (intro exI [of _ a']) simp

lemma slots_handles: "set (cl_handles s c) \<subseteq> set (slots s c)"
  by (simp add: slots_def)

lemma handle_of_one_client:
  assumes "shared_inv r n s" and "h \<in> set (slots s c)" and "k < length (cl_handles s c')" and "c' \<noteq> c"
  shows "cl_handles s c' ! k \<noteq> h"
  using assms slots_handles [of s c'] nth_mem [OF assms(3)] unfolding shared_inv_def by blast

lemma pure_call:
  assumes "\<And>ino. call \<noteq> Opendir ino" and "\<And>k. call \<noteq> Releasedir k"
  shows "serve call (hs, fs) = (answer fs hs call, (hs, fs))"
proof (cases call)
  case (Opendir ino)
  then show ?thesis using assms(1) [of ino] by simp
next
  case (Releasedir k)
  then show ?thesis using assms(2) [of k] by simp
qed simp_all

lemma step_pure:
  assumes inv: "shared_inv r n s" and call: "\<And>ino. call \<noteq> Opendir ino" "\<And>k. call \<noteq> Releasedir k"
    and serve: "serve call (cl_handles s c, cl_fs s) = (reply, (hs, fs))"
  shows "shared_inv r n (s\<lparr>cl_fs := fs, cl_handles := (cl_handles s)(c := hs)\<rparr>)"
    and "own_inv r a \<Longrightarrow> sees s c' a \<Longrightarrow> follows c' r (Some (c, call, reply)) (s\<lparr>cl_fs := fs, cl_handles := (cl_handles s)(c := hs)\<rparr>) a"
proof -
  have r: "reply = answer (cl_fs s) (cl_handles s c) call" "hs = cl_handles s c" "fs = cl_fs s"
    using serve by (auto simp: pure_call [OF call])
  have same: "s\<lparr>cl_fs := fs, cl_handles := (cl_handles s)(c := hs)\<rparr> = s" by (simp add: r(2,3))
  show "shared_inv r n (s\<lparr>cl_fs := fs, cl_handles := (cl_handles s)(c := hs)\<rparr>)" unfolding same by (rule inv)
  assume own: "own_inv r a" "sees s c' a"
  show "follows c' r (Some (c, call, reply)) (s\<lparr>cl_fs := fs, cl_handles := (cl_handles s)(c := hs)\<rparr>) a"
  proof (cases "c' = c")
    case True
    have "answer (snd a) (fst a) call = reply"
      unfolding r(1) using inv own True by (intro answer_same) (auto simp: shared_inv_def own_inv_def sees_def)
    then have "serve call a = (reply, a)" using pure_call [OF call, of "fst a" "snd a"] by simp
    then show ?thesis unfolding same True by (rule follows_served) (use own True in simp_all)
  next
    case False
    then show ?thesis unfolding same by (intro follows_other own) simp
  qed
qed

lemma release_sees:
  assumes "sees s c (ahs, afs)" and "k < length ahs" and "distinct (cl_handles s c)" and "distinct ahs"
    and "cl_handles s' c = cl_handles s c"
    and "fs_dir_handles (cl_fs s') = (fs_dir_handles (cl_fs s))(cl_handles s c ! k := None)"
  shows "sees s' c (ahs, afs\<lparr>fs_dir_handles := (fs_dir_handles afs)(ahs ! k := None)\<rparr>)"
  using assms by (auto simp: sees_def nth_eq_iff_index_eq)

lemma step_release:
  assumes inv: "shared_inv r n s"
    and serve: "serve (Releasedir k) (cl_handles s c, cl_fs s) = (reply, (hs, fs))"
  shows "shared_inv r n (s\<lparr>cl_fs := fs, cl_handles := (cl_handles s)(c := hs)\<rparr>)"
    and "own_inv r a \<Longrightarrow> sees s c' a \<Longrightarrow> follows c' r (Some (c, Releasedir k, reply)) (s\<lparr>cl_fs := fs, cl_handles := (cl_handles s)(c := hs)\<rparr>) a"
proof -
  obtain ahs afs where a: "a = (ahs, afs)" by (cases a)
  have hs: "hs = cl_handles s c" using serve by (auto simp: fs_releasedir_def split: if_splits)
  let ?s' = "s\<lparr>cl_fs := fs, cl_handles := (cl_handles s)(c := hs)\<rparr>"
  have slots: "slots ?s' = slots s" by (auto simp: slots_def hs)
  have fs: "fs_reader fs = fs_reader (cl_fs s)" "fs_next_dir_handle fs = fs_next_dir_handle (cl_fs s)"
    using serve by (auto simp: fs_releasedir_def split: if_splits)
  show "shared_inv r n ?s'" using inv by (simp add: shared_inv_def slots fs)
  assume own: "own_inv r a" "sees s c' a"
  show "follows c' r (Some (c, Releasedir k, reply)) ?s' a"
  proof (cases "k < length (cl_handles s c)")
    case False
    then have f: "reply = NoHandle" "fs = cl_fs s" using serve by auto
    show ?thesis
    proof (cases "c' = c")
      case True
      have "serve (Releasedir k) a = (reply, a)" using own(2) True False by (simp add: a f sees_def)
      then show ?thesis unfolding True by (rule follows_served) (use own True in \<open>simp_all add: hs f sees_def\<close>)
    next
      case other: False
      then show ?thesis using own by (intro follows_other) (simp_all add: hs f sees_def)
    qed
  next
    case True
    let ?h = "cl_handles s c ! k"
    have f: "reply = ReleasedDir" "fs_dir_handles fs = (fs_dir_handles (cl_fs s))(?h := None)"
      using serve True by (auto simp: fs_releasedir_def)
    show ?thesis
    proof (cases "c' = c")
      case same: True
      have len: "length ahs = length (cl_handles s c)" using own(2) same by (simp add: a sees_def)
      have "sees ?s' c (ahs, afs\<lparr>fs_dir_handles := (fs_dir_handles afs)(ahs ! k := None)\<rparr>)"
        using len True same own inv
        by (intro release_sees [of s]) (simp_all add: a hs f(2) shared_inv_def slots_def own_inv_def)
      moreover have "own_inv r (ahs, afs\<lparr>fs_dir_handles := (fs_dir_handles afs)(ahs ! k := None)\<rparr>)"
        using own(1) by (simp add: own_inv_def a)
      moreover have "serve (Releasedir k) a = (reply, (ahs, afs\<lparr>fs_dir_handles := (fs_dir_handles afs)(ahs ! k := None)\<rparr>))"
        using True own(2) same by (simp add: a f(1) sees_def fs_releasedir_def)
      ultimately show ?thesis unfolding same by (intro follows_served)
    next
      case other: False
      have "?h \<in> set (slots s c)" using True slots_handles by force
      then have "\<forall>j < length (cl_handles s c'). cl_handles s c' ! j \<noteq> ?h"
        using handle_of_one_client [OF inv _ _ other] by blast
      then show ?thesis using own other by (intro follows_other) (simp_all add: f sees_def a)
    qed
  qed
qed

lemma step_open_fails:
  assumes inv: "shared_inv r n s" and "fs_opendir (cl_fs s) ino = Inl e" and own: "own_inv r a" "sees s c' a"
  shows "follows c' r (Some (c, Opendir ino, OpenedDir (Inl e))) s a"
proof (cases "c' = c")
  case True
  have "fs_reader (cl_fs s) = fs_reader (snd a)" using inv own(1) by (simp add: shared_inv_def own_inv_def)
  note opendir_fails_same [OF this assms(2)]
  then have "serve (Opendir ino) a = (OpenedDir (Inl e), a)" by (cases a) simp
  then show ?thesis unfolding True by (rule follows_served) (use own True in simp_all)
next
  case False
  then show ?thesis by (intro follows_other own) simp
qed

lemma step_open_draws:
  assumes inv: "shared_inv r n s" and n: "n < 2 ^ 64" and free: "cl_opening s c = None"
    and "reader_inode (fs_reader (cl_fs s)) (to_nid (cl_fs s) ino) = Inr vi"
    and "(ucast (inode_mode vi) :: u32) AND 0xF000 = 0x4000"
    and "read_dir_cached (fs_reader (cl_fs s)) (to_nid (cl_fs s) ino) vi = Inr entries"
    and draw: "draw_handle (cl_fs s) = (h, fs)"
  shows "shared_inv r (Suc n)
      (s\<lparr>cl_fs := fs, cl_opening := (cl_opening s)(c \<mapsto> (ino, h, \<lparr>dh_entries = entries\<rparr>))\<rparr>)"
    and "own_inv r a \<Longrightarrow> sees s c' a \<Longrightarrow> follows c' r None (s\<lparr>cl_fs := fs, cl_opening := (cl_opening s)(c \<mapsto> (ino, h, \<lparr>dh_entries = entries\<rparr>))\<rparr>) a"
proof -
  let ?s' = "s\<lparr>cl_fs := fs, cl_opening := (cl_opening s)(c \<mapsto> (ino, h, \<lparr>dh_entries = entries\<rparr>))\<rparr>"
  have i: "fs_reader (cl_fs s) = r" "fs_next_dir_handle (cl_fs s) = 1 + word_of_nat n"
    "\<forall>c. distinct (slots s c) \<and> set (slots s c) \<subseteq> numbers n"
    "\<forall>c c'. c \<noteq> c' \<longrightarrow> set (slots s c) \<inter> set (slots s c') = {}"
    "\<forall>c ino h dh. cl_opening s c = Some (ino, h, dh) \<longrightarrow> opens_as r ino dh"
    using inv by (simp_all add: shared_inv_def)
  have h: "h = 1 + word_of_nat n" and fs: "fs = (cl_fs s)\<lparr>fs_next_dir_handle := h + 1\<rparr>"
    using draw by (auto simp: draw_handle_def i(2))
  have slots: "slots ?s' d = (if d = c then slots s c @ [h] else slots s d)" for d
    using free by (simp add: slots_def)
  have new: "h \<notin> set (slots s d)" for d using i(3) fresh_number [OF n] h by blast
  have sub: "insert h (numbers n) \<subseteq> numbers (Suc n)" by (simp add: numbers_Suc h)
  have "to_nid (cl_fs s) = to_nid (fs_new r)" using i(1) by (intro same_reader) (simp add: fs_new_def)
  then have "opens_as r ino \<lparr>dh_entries = entries\<rparr>" using assms(4-6) i(1) by (auto simp: opens_as_def)
  then have o: "\<forall>d ino h dh. cl_opening ?s' d = Some (ino, h, dh) \<longrightarrow> opens_as r ino dh" using i(5) by auto
  have "\<forall>d. distinct (slots ?s' d) \<and> set (slots ?s' d) \<subseteq> numbers (Suc n)"
    unfolding slots using i(3) new sub by auto
  moreover have "\<forall>d d'. d \<noteq> d' \<longrightarrow> set (slots ?s' d) \<inter> set (slots ?s' d') = {}"
    unfolding slots using i(4) new by auto
  moreover have "fs_reader (cl_fs ?s') = r" "fs_next_dir_handle (cl_fs ?s') = 1 + word_of_nat (Suc n)"
    by (simp_all add: fs h i(1))
  ultimately show "shared_inv r (Suc n) ?s'" unfolding shared_inv_def using o by blast
  assume own: "own_inv r a" "sees s c' a"
  show "follows c' r None ?s' a"
    using own by (intro follows_other) (simp_all add: sees_def fs)
qed

lemma step_open_inserts:
  assumes inv: "shared_inv r n s" and n: "n \<le> 2 ^ 64" and pend: "cl_opening s c = Some (ino, h, dh)"
  shows "shared_inv r n (s\<lparr>cl_fs := insert_handle h dh (cl_fs s), cl_handles := (cl_handles s)(c := cl_handles s c @ [h]),
      cl_opening := (cl_opening s)(c := None)\<rparr>)"
    and "own_inv r a \<Longrightarrow> sees s c' a \<Longrightarrow> follows c' r (Some (c, Opendir ino, OpenedDir (Inr {CACHE_DIR, KEEP_CACHE})))
      (s\<lparr>cl_fs := insert_handle h dh (cl_fs s), cl_handles := (cl_handles s)(c := cl_handles s c @ [h]),
         cl_opening := (cl_opening s)(c := None)\<rparr>) a"
proof -
  let ?s' = "s\<lparr>cl_fs := insert_handle h dh (cl_fs s), cl_handles := (cl_handles s)(c := cl_handles s c @ [h]),
      cl_opening := (cl_opening s)(c := None)\<rparr>"
  have slots: "slots ?s' = slots s" by (auto simp: slots_def pend)
  then show "shared_inv r n ?s'" using inv by (auto simp: shared_inv_def insert_handle_def split: if_splits)
  have sc: "slots s c = cl_handles s c @ [h]" by (simp add: slots_def pend)
  assume own: "own_inv r a" "sees s c' a"
  show "follows c' r (Some (c, Opendir ino, OpenedDir (Inr {CACHE_DIR, KEEP_CACHE}))) ?s' a"
  proof (cases "c' = c")
    case True
    obtain ahs afs where a: "a = (ahs, afs)" by (cases a)
    have len: "length ahs = length (cl_handles s c)" and table: "\<forall>j < length ahs.
        fs_dir_handles (cl_fs s) (cl_handles s c ! j) = fs_dir_handles afs (ahs ! j)"
      using own(2) True by (simp_all add: a sees_def)
    have d: "distinct (slots s c)" "set (slots s c) \<subseteq> numbers n" and o: "opens_as r ino dh"
      using inv pend by (auto simp: shared_inv_def)
    have "length ahs < 2 ^ 64" using distinct_numbers [OF d] n by (simp add: sc len)
    from own_open [OF own(1) [unfolded a] this o] obtain fs' where
      srv: "serve (Opendir ino) (ahs, afs) =
        (OpenedDir (Inr {CACHE_DIR, KEEP_CACHE}), (ahs @ [1 + word_of_nat (length ahs)], fs'))"
      and inv': "own_inv r (ahs @ [1 + word_of_nat (length ahs)], fs')"
      and tab: "fs_dir_handles fs' = (fs_dir_handles afs)(1 + word_of_nat (length ahs) \<mapsto> dh)" by blast
    have "1 + word_of_nat (length ahs) \<notin> set ahs" using inv' by (simp add: own_inv_def)
    then have "ahs ! j \<noteq> 1 + word_of_nat (length ahs)" if "j < length ahs" for j using that nth_mem by metis
    moreover have "cl_handles s c ! j \<noteq> h" if "j < length ahs" for j
      using d(1) that len nth_mem [of j "cl_handles s c"] by (auto simp: sc)
    ultimately have "sees ?s' c (ahs @ [1 + word_of_nat (length ahs)], fs')"
      using len table by (auto simp: sees_def insert_handle_def tab nth_append less_Suc_eq)
    then show ?thesis unfolding True a by (intro follows_served [OF srv inv'])
  next
    case False
    have "h \<in> set (slots s c)" by (simp add: sc)
    then have "\<forall>j < length (cl_handles s c'). cl_handles s c' ! j \<noteq> h"
      using handle_of_one_client [OF inv _ _ False] by blast
    then show ?thesis using own False by (intro follows_other) (simp_all add: sees_def insert_handle_def)
  qed
qed

lemma step_follows:
  assumes "clients_step s e s'" and inv: "shared_inv r n s" and n: "n + draws [e] \<le> 2 ^ 64"
  shows "shared_inv r (n + draws [e]) s' \<and> (\<forall>c a. own_inv r a \<longrightarrow> sees s c a \<longrightarrow> follows c r e s' a)"
  using assms(1)
proof cases
  case (atomic c call reply hs fs)
  show ?thesis
  proof (cases "\<exists>k. call = Releasedir k")
    case True
    then obtain k where k: "call = Releasedir k" by blast
    show ?thesis using step_release [OF inv atomic(5) [unfolded k]] by (simp add: atomic(1,2) k)
  next
    case False
    then have call: "\<And>k. call \<noteq> Releasedir k" by blast
    show ?thesis using step_pure [OF inv atomic(4) call atomic(5)] by (simp add: atomic(1,2))
  qed
next
  case (open_fails c ino e')
  then show ?thesis using step_open_fails [OF inv] inv by auto
next
  case (open_draws c ino vi entries h fs)
  have "n < 2 ^ 64" using n open_draws(1) by simp
  from step_open_draws [OF inv this open_draws(3-7)] show ?thesis by (simp add: open_draws(1,2))
next
  case (open_inserts c ino h dh)
  have "n \<le> 2 ^ 64" using n by simp
  from step_open_inserts [OF inv this open_inserts(3)] show ?thesis by (simp add: open_inserts(1,2))
qed

lemma trace_of_Cons: "trace_of c (e # es) = trace_of c [e] @ trace_of c es"
  by (cases e) (auto split: prod.splits)

lemma draws_Cons: "draws (e # es) = draws [e] + draws es"
  by (cases e) simp_all

lemma run_follows:
  assumes "clients_run s es s'" and "shared_inv r n s" and "n + draws es \<le> 2 ^ 64" and "own_inv r a" and "sees s c a"
  shows "alone (map fst (trace_of c es)) a = map snd (trace_of c es)"
  using assms
proof (induction arbitrary: n a rule: clients_run.induct)
  case (cons s e s1 es s')
  have n: "n + draws [e] \<le> 2 ^ 64" "(n + draws [e]) + draws es \<le> 2 ^ 64" using cons.prems(2) draws_Cons [of e es] by simp_all
  note st = step_follows [OF cons.hyps(1) cons.prems(1) n(1)]
  then obtain a' where a': "own_inv r a'" "sees s1 c a'"
    "\<And>calls. alone (map fst (trace_of c [e]) @ calls) a = map snd (trace_of c [e]) @ alone calls a'"
    using cons.prems(3,4) unfolding follows_def by blast
  show ?case
    unfolding trace_of_Cons [of c e es] map_append a'(3)
    using cons.IH [OF conjunct1 [OF st] n(2) a'(1,2)] by simp
qed simp

subsection \<open>Reads\<close>

lemma opendir_reader: "fs_opendir fs ino = Inr (res, fs') \<Longrightarrow> fs_reader fs' = fs_reader fs"
  by (auto simp: fs_opendir_def create_dir_handle_def draw_handle_def insert_handle_def Let_def split: if_splits)

lemma serve_reader:
  assumes "serve call (hs, fs) = (reply, (hs', fs'))"
  shows "fs_reader fs' = fs_reader fs"
proof (cases call)
  case (Opendir ino)
  then show ?thesis
    using assms opendir_reader [of fs ino] by (auto split: sum.splits option.splits prod.splits)
next
  case (Releasedir k)
  then show ?thesis using assms by (auto simp: fs_releasedir_def split: if_splits)
qed (use assms in simp_all)

lemma client_step_reader: "clients_step s e s' \<Longrightarrow> fs_reader (cl_fs s') = fs_reader (cl_fs s)"
  by (cases rule: clients_step.cases) (auto simp: draw_handle_def insert_handle_def dest: serve_reader)

lemma fs_read_same:
  assumes "fs_reader fs = fs_reader fs'"
  shows "fs_read fs = fs_read fs'"
  by (simp add: fs_read_def fun_eq_iff same_reader(1) [OF assms] assms)

lemma run_reads:
  assumes "clients_run s es s'" and "(Read ino sz offset room, reply) \<in> set (trace_of c es)"
  shows "reply = Data (fs_read (fs_new (fs_reader (cl_fs s))) ino \<lparr>sink_data = [], sink_room = room\<rparr> sz offset)"
  using assms
proof (induction rule: clients_run.induct)
  case (cons s e s1 es s')
  have new: "fs_read (cl_fs s) = fs_read (fs_new (fs_reader (cl_fs s)))" by (intro fs_read_same) (simp add: fs_new_def)
  show ?case
  proof (cases "(Read ino sz offset room, reply) \<in> set (trace_of c es)")
    case True
    then show ?thesis using cons.IH client_step_reader [OF cons.hyps(1)] by simp
  next
    case False
    then have "(Read ino sz offset room, reply) \<in> set (trace_of c [e])"
      using cons.prems by (simp add: trace_of_Cons [of c e es])
    then have "e = Some (c, Read ino sz offset room, reply)"
      by (cases e) (auto split: if_splits)
    with cons.hyps(1) show ?thesis by cases (auto simp: new)
  qed
qed simp

subsection \<open>Properties\<close>

text \<open>C9: Clients do not interfere. However the requests of any number of clients interleave on the shared
  server, the two steps of opening a directory included, every client gets exactly the answers to its
  requests, in order, that a server of its own would give, errors included; up to \<open>2 ^ 64\<close> opens.\<close>

theorem clients_do_not_interfere:
  assumes "clients_run (clients_start r) es s" and "draws es \<le> 2 ^ 64"
  shows "map snd (trace_of c es) = alone (map fst (trace_of c es)) ([], fs_new r)"
proof -
  have "shared_inv r 0 (clients_start r)" by (simp add: shared_inv_def clients_start_def fs_new_def slots_def)
  moreover have "own_inv r ([], fs_new r)" by (simp add: own_inv_def fs_new_def)
  moreover have "sees (clients_start r) c ([], fs_new r)" by (simp add: sees_def clients_start_def)
  ultimately show ?thesis using run_follows [OF assms(1)] assms(2) by simp
qed

end
