(* ===== verification/Build_Order.thy ===== *)
theory Build_Order
  imports Mkfs
begin

text \<open>
  What the builder does not depend on. The order in which a file system lists a directory is
  arbitrary, and may differ between two copies of one tree; the walk sorts the entries, so two
  trees that differ only in these orders, at any depth, give the same image and the same blob.
\<close>

inductive same_listing :: "src \<Rightarrow> src \<Rightarrow> bool" where
  \<comment> \<open>the same tree, up to the order of entries\<close>
  closed: "src_stat n = src_stat n' \<Longrightarrow> src_xattr n = src_xattr n' \<Longrightarrow> src_content n = src_content n' \<Longrightarrow>
     src_target n = src_target n' \<Longrightarrow> src_entries n = None \<Longrightarrow> src_entries n' = None \<Longrightarrow> same_listing n n'"
| listed: "src_stat n = src_stat n' \<Longrightarrow> src_xattr n = src_xattr n' \<Longrightarrow> src_content n = src_content n' \<Longrightarrow>
     src_target n = src_target n' \<Longrightarrow> src_entries n = Some es \<Longrightarrow> src_entries n' = Some es' \<Longrightarrow>
     distinct (map fst es) \<Longrightarrow> mset ds = mset es' \<Longrightarrow>
     list_all2 (\<lambda>e d. fst e = fst d \<and> same_listing (snd e) (snd d)) es ds \<Longrightarrow> same_listing n n'"

lemma same_listing_stat: "same_listing n n' \<Longrightarrow> src_stat n = src_stat n'"
  by (auto elim: same_listing.cases)

subsection \<open>Sorting\<close>

lemma insort_related:
  assumes "\<And>x y. R x y \<Longrightarrow> f x = g y" and "list_all2 R xs ys" and "R x y"
  shows "list_all2 R (insort_key f x xs) (insort_key g y ys)"
  using assms(2) by (induction rule: list_all2_induct) (use assms(1,3) in \<open>auto dest!: assms(1)\<close>)

lemma sort_related:
  assumes "\<And>x y. R x y \<Longrightarrow> f x = g y" and "list_all2 R xs ys"
  shows "list_all2 R (sort_key f xs) (sort_key g ys)"
  using assms(2)
  by (induction rule: list_all2_induct) (auto simp: sort_key_def intro!: insort_related [OF assms(1)])

lemma by_name_mset:
  assumes "mset ds = mset es" and "distinct (map fst es)"
  shows "by_name ds = by_name es"
proof -
  have "inj_on fst (set ds)" using assms by (metis distinct_map set_mset_mset)
  then show ?thesis
    unfolding by_name_def using assms(1) by (intro sort_key_inj_key_eq) simp_all
qed

lemma names_kept:
  assumes "list_all2 (\<lambda>e d. fst e = fst d \<and> Q e d) es ds" and "mset ds = mset es'" and "distinct (map fst es)"
  shows "distinct (map fst es')"
proof -
  have "map fst es = map fst ds" using assms(1) by (induction rule: list_all2_induct) auto
  then show ?thesis using assms(2,3) by (metis mset_eq_imp_distinct_iff mset_map)
qed

subsection \<open>The walk\<close>

definition same_walk :: "(u8 list \<Rightarrow> 'h) \<Rightarrow> src \<Rightarrow> src \<Rightarrow> bool" where
  "same_walk hash n n' \<longleftrightarrow>
     src_stat n = src_stat n' \<and> (\<forall>st. build_tree_recursive hash n st = build_tree_recursive hash n' st)"

lemma same_entries:
  assumes "list_all2 (\<lambda>e d. fst e = fst d \<and> same_walk hash (snd e) (snd d)) es ds"
  shows "build_entries hash es children st = build_entries hash ds children st"
  using assms
proof (induction es ds arbitrary: children st rule: list_all2_induct)
  case (Cons e es d ds)
  obtain name c c' where e: "e = (name, c)" and d: "d = (name, c')" and same: "same_walk hash c c'"
    using Cons.hyps(1) by (cases e, cases d) auto
  show ?case
    using same unfolding e d build_entries.simps(2) same_walk_def
    by (simp add: Cons.IH Let_def cong: option.case_cong)
qed simp

lemma same_listing_walk: "same_listing n n' \<Longrightarrow> same_walk hash n n'"
proof (induction rule: same_listing.induct)
  case (closed n n')
  then show ?case
    by (simp add: same_walk_def build_tree_recursive.simps [of _ n] build_tree_recursive.simps [of _ n'] read_xattrs_from_path_def
        Let_def cong: if_cong)
next
  case (listed n n' es es' ds)
  have rel: "list_all2 (\<lambda>e d. fst e = fst d \<and> same_walk hash (snd e) (snd d)) es ds"
    using listed.IH by (rule list_all2_mono) auto
  then have "distinct (map fst es')" by (rule names_kept [OF _ listed.hyps(8,7)])
  then have "by_name ds = by_name es'" using listed.hyps(8) by (intro by_name_mset)
  moreover have "list_all2 (\<lambda>e d. fst e = fst d \<and> same_walk hash (snd e) (snd d)) (by_name es) (by_name ds)"
    unfolding by_name_def using rel by (rule sort_related [rotated]) simp
  ultimately have "build_entries hash (by_name es) children st = build_entries hash (by_name es') children st" for children st
    by (intro same_entries) simp
  then show ?case
    using listed.hyps(1-6)
    by (simp add: same_walk_def build_tree_recursive.simps [of _ n] build_tree_recursive.simps [of _ n'] read_xattrs_from_path_def
        Let_def cong: if_cong)
qed

text \<open>C11: Builds are reproducible. For two sources that differ only in the orders in which their directories
  are listed, the builder gives the same image and the same blob, or fails with the same error.\<close>

theorem build_ignores_listing_order:
  assumes "same_listing source source'"
  shows "mkfs_main hash chunksize epoch uuid source source_is_dir blob_room image_room =
    mkfs_main hash chunksize epoch uuid source' source_is_dir blob_room image_room"
proof -
  have "build_tree hash source bw = build_tree hash source' bw" for bw :: "'a blob_writer"
    using same_listing_walk [OF assms, of hash] by (simp add: build_tree_def same_walk_def)
  then show ?thesis by (simp add: mkfs_main_def)
qed

end
