(* ===== verification/Blob_Content.thy ===== *)
theory Blob_Content
  imports Build_Spec
begin

text \<open>
  What the blob holds. The specification is a list of distinct chunks: the blob is these chunks one
  after the other, each filled up to whole blocks. The walk over a source adds exactly the chunks of
  the files of the source that are not yet there; so the blob of an image holds every chunk that
  occurs in the source, once, and nothing else.
\<close>

subsection \<open>A list of chunks\<close>

definition padded :: "u8 list \<Rightarrow> u8 list" where
  "padded c = c @ replicate (pad_len (length c) 4096) 0"

definition packed :: "(u8 list \<Rightarrow> 'h) \<Rightarrow> u8 list list \<Rightarrow> 'h blob_writer \<Rightarrow> bool" where
  \<comment> \<open>the blob is the chunks \<open>ds\<close>, and the writer knows the hashes of these\<close>
  "packed hash ds bw \<longleftrightarrow>
     sink_data (bw_file bw) = concat (map padded ds) \<and> distinct (map hash ds) \<and> dom (bw_dedup bw) = hash ` set ds"

lemma packed_new: "packed hash [] (blob_writer_new room chunksize)"
  by (simp add: packed_def blob_writer_new_def)

lemma store_packed:
  assumes "packed hash ds bw" and "inj_on hash C" and "set ds \<subseteq> C" and "c \<in> C"
    and "store_chunk hash bw c = Inr (a, bw')"
  shows "\<exists>ds'. packed hash ds' bw' \<and> set ds' = insert c (set ds)"
proof (cases "bw_dedup bw (hash c)")
  case None
  note s = store_chunk_new [of bw hash c, OF None assms(5)]
  have "hash c \<notin> hash ` set ds" using None assms(1) unfolding packed_def by blast
  then have "packed hash (ds @ [c]) bw'"
    using assms(1) by (auto simp: packed_def s(2,5) padded_def)
  then show ?thesis by (intro exI [of _ "ds @ [c]"]) simp
next
  case (Some b)
  then have "hash c \<in> hash ` set ds" using assms(1) unfolding packed_def by blast
  then have "c \<in> set ds" using assms(2-4) by (auto dest: inj_onD)
  moreover have "bw_file bw' = bw_file bw" and "bw_dedup bw' = bw_dedup bw"
    using assms(5) by (auto simp: store_chunk_found [of bw hash c, OF Some])
  then have "packed hash ds bw'" using assms(1) by (simp add: packed_def)
  ultimately show ?thesis by (intro exI [of _ ds]) auto
qed

lemma store_seq_packed:
  assumes "packed hash ds bw" and "inj_on hash C" and "set ds \<subseteq> C" and "set cs \<subseteq> C"
    and "store_seq (store_chunk hash) bw cs = Inr (as, bw')"
  shows "\<exists>ds'. packed hash ds' bw' \<and> set ds' = set ds \<union> set cs"
  using assms
proof (induction cs arbitrary: ds bw as)
  case Nil
  then show ?case by auto
next
  case (Cons c cs)
  then obtain a bw1 as' where c: "store_chunk hash bw c = Inr (a, bw1)"
    and rest: "store_seq (store_chunk hash) bw1 cs = Inr (as', bw')" by auto
  obtain ds1 where ds1: "packed hash ds1 bw1" "set ds1 = insert c (set ds)"
    using store_packed [OF Cons.prems(1-3) _ c] Cons.prems(4) by auto
  moreover have "set ds1 \<subseteq> C" using ds1(2) Cons.prems(3,4) by simp
  ultimately obtain ds' where "packed hash ds' bw'" "set ds' = set ds1 \<union> set cs"
    using Cons.IH [OF ds1(1) Cons.prems(2) _ _ rest] Cons.prems(4) by auto
  then show ?case using ds1(2) by auto
qed

lemma write_file_packed:
  assumes "packed hash ds bw" and "inj_on hash C" and "set ds \<subseteq> C" and pos: "0 < bw_chunksize bw"
    and run: "write_file_chunks hash bw content fs = Inr (refs, bw')"
    and X: "X = (case content of None \<Rightarrow> {} | Some f \<Rightarrow> set (split_chunks (unat (bw_chunksize bw)) (take (unat fs) f)))" "X \<subseteq> C"
  shows "bw_chunksize bw' = bw_chunksize bw \<and> (\<exists>ds'. packed hash ds' bw' \<and> set ds' = set ds \<union> X)"
proof (cases "fs = 0")
  case True
  then show ?thesis using assms(1) run X(1) by (auto simp: write_file_chunks_def split: option.splits)
next
  case False
  then obtain f where f: "content = Some f" using run by (cases content) (simp_all add: write_file_chunks_def)
  have le: "unat fs \<le> length f" by (rule write_file_enough [OF pos run [unfolded f] False])
  obtain as where st: "store_seq (store_chunk hash) bw (split_chunks (unat (bw_chunksize bw)) (take (unat fs) f)) = Inr (as, bw')"
    using run write_file_chunks_eq [OF pos le, of hash] by (auto simp: f)
  show ?thesis
    using store_seq_packed [OF assms(1-3) _ st] store_seq_chunksize [OF st] X by (simp add: f)
qed

subsection \<open>The chunks of a source\<close>

definition source_chunks :: "nat \<Rightarrow> src \<Rightarrow> u8 list set" where
  "source_chunks cs n = (\<Union>m \<in> set (src_nodes n). node_chunks cs m)"

lemma source_chunks_leaf:
  "src_stat n = Some meta \<Longrightarrow> \<not> is_dir meta \<Longrightarrow> source_chunks cs n = node_chunks cs n"
  by (simp add: source_chunks_def src_nodes.simps [of n])

lemma source_chunks_dir:
  "src_stat n = Some meta \<Longrightarrow> is_dir meta \<Longrightarrow> src_entries n = Some es \<Longrightarrow>
     source_chunks cs n = (\<Union>e \<in> set es. source_chunks cs (snd e))"
  by (auto simp: source_chunks_def src_nodes.simps [of n] node_chunks_def is_dir_def is_file_def split: option.splits)

lemma source_chunks_finite: "finite (source_chunks cs n)"
  by (auto simp: source_chunks_def node_chunks_def split: option.split)

subsection \<open>The walk\<close>

definition held :: "(u8 list \<Rightarrow> 'h) \<Rightarrow> u8 list set \<Rightarrow> src set \<Rightarrow> nat \<Rightarrow> u8 list list \<Rightarrow> 'h build_state \<Rightarrow> bool" where
  \<comment> \<open>the chunks of a file that has a recorded link are there\<close>
  "held hash C U cs ds st \<longleftrightarrow>
     packed hash ds (bs_blob st) \<and> unat (bw_chunksize (bs_blob st)) = cs \<and> set ds \<subseteq> C \<and>
     (\<forall>key k. bs_hardlink_map st key = Some k \<longrightarrow>
        (\<exists>n \<in> U. \<exists>meta. src_stat n = Some meta \<and> link_key meta = Some key \<and> source_chunks cs n \<subseteq> set ds))"

definition stores ::
  "(u8 list \<Rightarrow> 'h) \<Rightarrow> u8 list set \<Rightarrow> src set \<Rightarrow> nat \<Rightarrow> u8 list set \<Rightarrow> 'h build_state \<Rightarrow> 'h build_state \<Rightarrow> bool" where
  "stores hash C U cs X st st' \<longleftrightarrow>
     (inj_on hash C \<longrightarrow> 0 < cs \<longrightarrow>
       (\<forall>ds. held hash C U cs ds st \<longrightarrow> (\<exists>ds'. held hash C U cs ds' st' \<and> set ds' = set ds \<union> X)))"

lemma stores_nothing: "stores hash C U cs {} st st"
  by (auto simp: stores_def)

lemma stores_trans: "stores hash C U cs X st st1 \<Longrightarrow> stores hash C U cs Y st1 st2 \<Longrightarrow> stores hash C U cs (X \<union> Y) st st2"
  unfolding stores_def by (metis Un_assoc)

lemma held_same:
  "bs_blob st = bs_blob st' \<Longrightarrow> bs_hardlink_map st = bs_hardlink_map st' \<Longrightarrow> held hash C U cs ds st = held hash C U cs ds st'"
  by (simp add: held_def)

lemma held_bigger:
  assumes "held hash C U cs ds st" and "packed hash ds' bw" and "bw_chunksize bw = bw_chunksize (bs_blob st)"
    and "set ds \<subseteq> set ds'" and "set ds' \<subseteq> C" and "bs_blob st' = bw" and "bs_hardlink_map st' = bs_hardlink_map st"
  shows "held hash C U cs ds' st'"
  using assms unfolding held_def by (metis order_trans)

lemma stores_leaf:
  assumes src: "source_ok cs C U" "n \<in> U" and meta: "src_stat n = Some meta" "\<not> is_dir meta"
    and run: "build_tree_recursive hash n st = Inr (k, st')"
  shows "stores hash C U cs (source_chunks cs n) st st'"
proof -
  note step = run [unfolded build_tree_recursive.simps meta ok_or_simps and_then_simps Let_def]
  have C: "node_chunks cs n \<subseteq> C" using src by (simp add: source_ok_def)
  show ?thesis
  proof (cases "is_file meta")
    case True
    then obtain refs bw where w: "write_file_chunks hash (bs_blob st) (src_content n) (st_size meta) = Inr (refs, bw)"
      and st': "bs_blob st' = bw" "bs_hardlink_map st' = bs_hardlink_map st"
      using step meta(2) by (auto simp: and_then_Inr_iff)
    have nc: "node_chunks cs n = (case src_content n of None \<Rightarrow> {} | Some f \<Rightarrow> set (split_chunks cs (take (unat (st_size meta)) f)))"
      using meta True by (simp add: node_chunks_def split: option.split)
    have "\<exists>ds'. held hash C U cs ds' st' \<and> set ds' = set ds \<union> node_chunks cs n"
      if h: "held hash C U cs ds st" and inj: "inj_on hash C" and pos: "0 < cs" for ds
    proof -
      have p: "packed hash ds (bs_blob st)" "set ds \<subseteq> C" and cs: "unat (bw_chunksize (bs_blob st)) = cs"
        using h by (simp_all add: held_def)
      have "0 < bw_chunksize (bs_blob st)" using pos cs by (simp add: word_less_nat_alt)
      from write_file_packed [OF p(1) inj p(2) this w nc [folded cs] C [folded cs]] obtain ds'
        where ds': "packed hash ds' bw" "set ds' = set ds \<union> node_chunks cs n" "bw_chunksize bw = bw_chunksize (bs_blob st)"
        unfolding cs by blast
      have "held hash C U cs ds' st'"
        by (rule held_bigger [OF h ds'(1,3) _ _ st']) (use p(2) C in \<open>simp_all add: ds'(2)\<close>)
      then show ?thesis using ds'(2) by blast
    qed
    then show ?thesis by (simp add: stores_def source_chunks_leaf [OF meta])
  next
    case False
    then have "bs_blob st' = bs_blob st" "bs_hardlink_map st' = bs_hardlink_map st"
      using step meta(2) by (auto simp: and_then_Inr_iff Let_def split: if_splits)
    then have "held hash C U cs ds st' = held hash C U cs ds st" for ds by (rule held_same)
    moreover have "node_chunks cs n = {}" using meta False by (simp add: node_chunks_def split: option.split)
    ultimately show ?thesis by (auto simp: stores_def source_chunks_leaf [OF meta])
  qed
qed

lemma stores_link:
  assumes "stores hash C U cs (source_chunks cs c) st st1" and "c \<in> U" and "src_stat c = Some meta"
  shows "stores hash C U cs (source_chunks cs c) st (add_link (link_key meta) k st1)"
proof -
  have "held hash C U cs ds (add_link (link_key meta) k st1)"
    if "held hash C U cs ds st1" "source_chunks cs c \<subseteq> set ds" for ds
    using that assms(2,3) by (fastforce simp: held_def add_link_def split: option.splits)
  then show ?thesis using assms(1) unfolding stores_def by (metis Un_upper2)
qed

lemma stores_linked:
  assumes src: "source_ok cs C U" and c: "c \<in> U" "src_stat c = Some meta" "link_key meta = Some key"
    "bs_hardlink_map st key = Some k" and rest: "stores hash C U cs X st st'"
  shows "stores hash C U cs (source_chunks cs c \<union> X) st st'"
proof -
  have "source_chunks cs c \<subseteq> set ds" if h: "held hash C U cs ds st" for ds
  proof -
    obtain n m where n: "n \<in> U" "src_stat n = Some m" "link_key m = Some key" "source_chunks cs n \<subseteq> set ds"
      using h c(4) unfolding held_def by blast
    have "n = c" using src n(1-3) c(1-3) unfolding source_ok_def by blast
    then show ?thesis using n(4) by simp
  qed
  then have "set ds \<union> (source_chunks cs c \<union> X) = set ds \<union> X" if "held hash C U cs ds st" for ds using that by blast
  then show ?thesis using rest unfolding stores_def by metis
qed

interpretation chunk_account: walk_account hash "stores hash C U cs" "source_chunks cs"
  "\<lambda>es. \<Union>e \<in> set es. source_chunks cs (snd e)" "\<lambda>n. source_ok cs C U \<and> n \<in> U"
  for hash :: "u8 list \<Rightarrow> 'h" and C U cs
proof unfold_locales
  fix n and e :: "u8 list \<times> src" and es
  assume "source_ok cs C U \<and> n \<in> U" and "src_entries n = Some es" and "e \<in> set es"
  then have "snd ` set es \<subseteq> U" and "e \<in> set es" unfolding source_ok_def by blast+
  then show "source_ok cs C U \<and> snd e \<in> U" using \<open>source_ok cs C U \<and> n \<in> U\<close> by blast
next
  fix n meta es and ch :: "dir_entry list" and st st2 :: "'h build_state"
  assume n: "src_stat n = Some meta" "is_dir meta" "src_entries n = Some es"
    and kids: "stores hash C U cs (\<Union>e \<in> set (by_name es). source_chunks cs (snd e)) (dir_pushed n meta st) st2"
  have "held hash C U cs ds (dir_pushed n meta st) = held hash C U cs ds st" for ds by (rule held_same) simp_all
  moreover have "held hash C U cs ds (set_children (length (bs_inodes st)) ch st2) = held hash C U cs ds st2" for ds
    by (rule held_same) simp_all
  ultimately show "stores hash C U cs (source_chunks cs n) st (set_children (length (bs_inodes st)) ch st2)"
    using kids by (simp add: stores_def source_chunks_dir [OF n] by_name_def)
next
  fix c meta k name and es :: "(u8 list \<times> src) list" and st st1 st' :: "'h build_state"
  assume c: "source_ok cs C U \<and> c \<in> U" "src_stat c = Some meta" and first: "stores hash C U cs (source_chunks cs c) st st1"
    and rest: "stores hash C U cs (\<Union>e \<in> set es. source_chunks cs (snd e)) (add_link (link_key meta) k st1) st'"
  have "stores hash C U cs (source_chunks cs c) st (add_link (link_key meta) k st1)"
    using stores_link [OF first _ c(2)] c(1) by simp
  from stores_trans [OF this rest]
  show "stores hash C U cs (\<Union>e \<in> set ((name, c) # es). source_chunks cs (snd e)) st st'" by simp
qed (auto intro: stores_leaf stores_nothing stores_linked)

lemma build_stores:
  assumes "source_valid hash (unat chunksize) U source" and "0 < unat chunksize"
    and "build_tree hash source (blob_writer_new room chunksize) = Inr (inodes, bw)"
  shows "\<exists>ds. packed hash ds bw \<and> set ds = source_chunks (unat chunksize) source"
proof -
  obtain C where C: "source_ok (unat chunksize) C U \<and> source \<in> U" "inj_on hash C"
    using assms(1) unfolding source_valid_def by blast
  let ?st = "\<lparr>bs_blob = blob_writer_new room chunksize, bs_inodes = [], bs_ino_counter = 0, bs_hardlink_map = (\<lambda>_. None)\<rparr>"
  obtain st where st: "stores hash C U (unat chunksize) (source_chunks (unat chunksize) source) ?st st"
    and i: "inodes = bs_inodes st" and bw: "bw = bs_blob st"
    by (rule chunk_account.build_accounts [OF C(1) assms(3)])
  have "held hash C U (unat chunksize) [] ?st"
    by (simp add: held_def packed_new) (simp add: blob_writer_new_def)
  then obtain ds where "held hash C U (unat chunksize) ds st" "set ds = set [] \<union> source_chunks (unat chunksize) source"
    using st C(2) assms(2) unfolding stores_def by blast
  then show ?thesis by (auto simp: held_def bw)
qed

text \<open>C10: The blob holds every chunk once. When the builder succeeds on a valid source, the blob device is
  a sequence of distinct chunks, each filled up to whole blocks with zeros, and these are exactly the
  chunks that occur in the files of the source; its size is the sum of their sizes, however often
  they occur.\<close>

theorem blob_holds_each_chunk_once:
  assumes "source_valid hash (unat chunksize) U source"
    and "mkfs_main hash chunksize epoch uuid source source_is_dir (Some blob_room) image_room = Inr (img, blob)"
  shows "\<exists>ds. distinct ds \<and> set ds = source_chunks (unat chunksize) source \<and> blob = concat (map padded ds) \<and>
    length blob = (\<Sum>c \<in> source_chunks (unat chunksize) source. length c + pad_len (length c) 4096)"
proof -
  obtain inodes bw final l iroom image where cs: "4096 \<le> unat chunksize" "is_power_of_two chunksize"
    and bt: "build_tree hash source (blob_writer_new blob_room chunksize) = Inr (inodes, bw)"
    and "layout_image inodes epoch (trailing_zeros chunksize) = Inr (final, l)"
    and "write_image \<lparr>sink_data = [], sink_room = iroom\<rparr> (lay_buf l) (ucast (ii_nid (final ! 0)))
      (word_of_nat (length inodes)) epoch (bw_total_blocks bw) uuid = Inr image"
    and out: "img = sink_data image" "blob = sink_data (bw_file bw)"
    using assms(2) by (rule mkfs_main_Inr)
  have "0 < unat chunksize" using cs(1) by simp
  from build_stores [OF assms(1) this bt] obtain ds
    where p: "packed hash ds bw" and ds: "set ds = source_chunks (unat chunksize) source" by blast
  have d: "distinct ds" using p by (auto simp: packed_def distinct_map)
  have blob: "blob = concat (map padded ds)" using p by (simp add: packed_def out)
  have "length blob = sum_list (map (\<lambda>c. length c + pad_len (length c) 4096) ds)"
    unfolding blob by (simp add: length_concat padded_def comp_def)
  also have "\<dots> = (\<Sum>c \<in> source_chunks (unat chunksize) source. length c + pad_len (length c) 4096)"
    using d by (simp add: sum_list_distinct_conv_sum_set ds)
  finally show ?thesis using d ds blob by blast
qed

end
