(* ===== verification/Image_Account.thy ===== *)
theory Image_Account
  imports Blob_Content Roundtrip Fuse
begin

text \<open>
  What an image says about itself. The walk makes one inode for every node of the source, and one
  for all the links to a file; the superblock counts these and the blocks of the image, and the
  server passes both on.
\<close>

unbundle bit_operations_syntax

subsection \<open>Inodes of a source\<close>

definition own_inode :: "src \<Rightarrow> bool" where
  "own_inode n \<longleftrightarrow> (case src_stat n of Some meta \<Rightarrow> link_key meta = None | None \<Rightarrow> False)"

definition link_keys :: "src list \<Rightarrow> (u64 \<times> u64) set" where
  "link_keys ns = {key. \<exists>n \<in> set ns. \<exists>meta. src_stat n = Some meta \<and> link_key meta = Some key}"

definition inode_count :: "src \<Rightarrow> nat" where
  "inode_count source = length (filter own_inode (src_nodes source)) + card (link_keys (src_nodes source))"

lemma link_keys_simps [simp]:
  "link_keys [] = {}" "link_keys (ns @ ms) = link_keys ns \<union> link_keys ms"
  by (auto simp: link_keys_def)

lemma link_keys_finite [simp]: "finite (link_keys ns)"
proof -
  have "link_keys ns \<subseteq> (\<lambda>n. the (link_key (the (src_stat n)))) ` set ns"
    by (force simp: link_keys_def)
  then show ?thesis by (rule finite_subset) simp
qed

lemma dir_no_key: "is_dir meta \<Longrightarrow> link_key meta = None"
  by (simp add: link_key_def)

definition below :: "src \<Rightarrow> src list" where
  "below n = tl (src_nodes n)"

lemma src_nodes_below: "src_nodes n = n # below n"
  by (simp add: below_def src_nodes.simps [of n])

lemma below_leaf: "src_stat n = Some meta \<Longrightarrow> \<not> is_dir meta \<Longrightarrow> below n = []"
  by (simp add: below_def src_nodes.simps [of n])

lemma below_dir:
  "src_stat n = Some meta \<Longrightarrow> is_dir meta \<Longrightarrow> src_entries n = Some es \<Longrightarrow>
     below n = concat (map (\<lambda>e. src_nodes (snd e)) es)"
  by (simp add: below_def src_nodes.simps [of n])

subsection \<open>The walk\<close>

definition owns :: "src list \<Rightarrow> nat" where "owns ns = length (filter own_inode ns)"

definition entries_amount :: "(u8 list \<times> src) list \<Rightarrow> nat \<times> (u64 \<times> u64) set" where
  "entries_amount es =
     (sum_list (map (\<lambda>e. owns (src_nodes (snd e))) es), \<Union>e \<in> set es. link_keys (src_nodes (snd e)))"

definition node_amount :: "src \<Rightarrow> nat \<times> (u64 \<times> u64) set" where
  "node_amount n = (Suc (owns (below n)), link_keys (below n))"

definition counts :: "nat \<times> (u64 \<times> u64) set \<Rightarrow> 'h build_state \<Rightarrow> 'h build_state \<Rightarrow> bool" where
  "counts = (\<lambda>(a, K) st st'.
     length (bs_inodes st') = length (bs_inodes st) + a + card (K - dom (bs_hardlink_map st)) \<and>
     dom (bs_hardlink_map st') = dom (bs_hardlink_map st) \<union> K)"

lemma counts_trans:
  assumes "counts (a, K) st st1" and "counts (b, L) st1 st2" and "finite K" and "finite L"
  shows "counts (a + b, K \<union> L) st st2"
proof -
  let ?D = "dom (bs_hardlink_map st)"
  have "card (K \<union> L - ?D) = card ((K - ?D) \<union> (L - (?D \<union> K)))" by (rule arg_cong [of _ _ card]) blast
  also have "\<dots> = card (K - ?D) + card (L - (?D \<union> K))" using assms(3,4) by (intro card_Un_disjoint) auto
  finally show ?thesis using assms(1,2) by (auto simp: counts_def)
qed

lemma entries_amount_by_name: "entries_amount (by_name es) = entries_amount es"
proof -
  have "mset (map (\<lambda>e. owns (src_nodes (snd e))) (by_name es)) = mset (map (\<lambda>e. owns (src_nodes (snd e))) es)"
    by (simp add: by_name_def)
  then have "sum_list (map (\<lambda>e. owns (src_nodes (snd e))) (by_name es)) = sum_list (map (\<lambda>e. owns (src_nodes (snd e))) es)"
    by (metis sum_mset_sum_list)
  then show ?thesis by (simp add: entries_amount_def by_name_def)
qed

lemma owns_concat: "owns (concat nss) = sum_list (map owns nss)"
  by (induction nss) (simp_all add: owns_def)

lemma link_keys_concat: "link_keys (concat nss) = (\<Union>ns \<in> set nss. link_keys ns)"
  by (induction nss) simp_all

lemma node_amount_dir:
  "src_stat n = Some meta \<Longrightarrow> is_dir meta \<Longrightarrow> src_entries n = Some es \<Longrightarrow>
     node_amount n = (Suc (fst (entries_amount es)), snd (entries_amount es))"
  by (simp add: node_amount_def below_dir owns_concat link_keys_concat entries_amount_def comp_def)

lemma counts_leaf:
  assumes meta: "src_stat n = Some meta" "\<not> is_dir meta" and run: "build_tree_recursive hash n st = Inr (k, st')"
  shows "counts (node_amount n) st st'"
proof -
  note step = run [unfolded build_tree_recursive.simps meta ok_or_simps and_then_simps Let_def]
  have "length (bs_inodes st') = Suc (length (bs_inodes st)) \<and> bs_hardlink_map st' = bs_hardlink_map st"
    using step meta(2) by (auto simp: and_then_Inr_iff push_inode_def Let_def split: if_splits)
  then show ?thesis by (simp add: counts_def node_amount_def below_leaf [OF meta] owns_def)
qed

lemma counts_child:
  assumes c: "src_stat c = Some meta" "Option.bind (link_key meta) (bs_hardlink_map st) = None"
    and first: "counts (node_amount c) st st1" and rest: "counts (entries_amount es) (add_link (link_key meta) k st1) st'"
  shows "counts (entries_amount ((name, c) # es)) st st'"
proof -
  have "counts (owns (src_nodes c), link_keys (src_nodes c)) st (add_link (link_key meta) k st1)"
  proof (cases "link_key meta")
    case None
    then show ?thesis
      using first c(1) by (simp add: src_nodes_below counts_def node_amount_def owns_def own_inode_def add_link_def link_keys_def)
  next
    case (Some key)
    then have "below c = []" by (intro below_leaf [OF c(1)]) (auto simp: dir_no_key)
    moreover have "link_keys [c] = {key}" "owns [c] = 0" using Some c(1) by (auto simp: link_keys_def owns_def own_inode_def)
    moreover have "{key} - dom (bs_hardlink_map st) = {key}" using c(2) Some by (auto simp: domIff)
    ultimately show ?thesis
      using first Some by (simp add: src_nodes_below counts_def node_amount_def add_link_def owns_def)
  qed
  from counts_trans [OF this rest [unfolded entries_amount_def]] show ?thesis by (simp add: entries_amount_def)
qed

lemma counts_linked:
  assumes c: "src_stat c = Some meta" "link_key meta = Some key" "bs_hardlink_map st key = Some k"
    and rest: "counts (entries_amount es) st st'"
  shows "counts (entries_amount ((name, c) # es)) st st'"
proof -
  have "below c = []" using c(1,2) by (intro below_leaf [OF c(1)]) (auto simp: dir_no_key)
  moreover have "link_keys [c] = {key}" "owns [c] = 0" using c(1,2) by (auto simp: link_keys_def owns_def own_inode_def)
  moreover have "key \<in> dom (bs_hardlink_map st)" using c(3) by (rule domI)
  ultimately show ?thesis using rest by (auto simp: counts_def entries_amount_def src_nodes_below insert_absorb)
qed

interpretation inode_account: walk_account hash counts node_amount entries_amount "\<lambda>_. True"
  for hash :: "u8 list \<Rightarrow> 'h"
proof unfold_locales
  fix n meta es and ch :: "dir_entry list" and st st2 :: "'h build_state"
  assume n: "src_stat n = Some meta" "is_dir meta" "src_entries n = Some es"
    and kids: "counts (entries_amount (by_name es)) (dir_pushed n meta st) st2"
  have "length (bs_inodes (set_children (length (bs_inodes st)) ch st2)) = length (bs_inodes st2)"
    by (simp add: set_children_def Let_def split: inode_data.split)
  then show "counts (node_amount n) st (set_children (length (bs_inodes st)) ch st2)"
    using kids by (simp add: counts_def node_amount_dir [OF n] entries_amount_by_name split: prod.splits)
next
  show "counts (entries_amount []) st st" for st :: "'h build_state" by (simp add: counts_def entries_amount_def)
qed (auto intro: counts_leaf counts_linked counts_child)

lemma inodes_counted:
  assumes "build_tree hash source bw = Inr (inodes, bw')" and "src_stat source = Some meta" and "is_dir meta"
  shows "length inodes = inode_count source"
proof -
  obtain st where st: "counts (node_amount source)
      \<lparr>bs_blob = bw, bs_inodes = [], bs_ino_counter = 0, bs_hardlink_map = (\<lambda>_. None)\<rparr> st"
    and i: "inodes = bs_inodes st" and "bw' = bs_blob st"
    by (rule inode_account.build_accounts [OF TrueI assms(1)])
  have "own_inode source" "link_keys (source # ns) = link_keys ns" for ns
    using assms(2,3) by (auto simp: own_inode_def link_keys_def dir_no_key)
  then show ?thesis
    using st by (simp add: i counts_def node_amount_def inode_count_def src_nodes_below owns_def)
qed

lemma inodes_take_bytes: "length inodes \<le> metadata_bound inodes"
proof (induction inodes)
  case Nil
  then show ?case by simp
next
  case (Cons i "is")
  have "1 \<le> slot_size i" by (cases "ii_data i") (simp_all add: slot_size_def inode_meta_size_def inode_base_def Let_def)
  then show ?case using Cons by (simp add: metadata_bound_bytes)
qed

subsection \<open>The device slot\<close>

definition slot_blocks :: "erofs_device_slot \<Rightarrow> u64" where
  "slot_blocks slot = push_bit 32 (ucast (get_u32 (ds_blocks_hi slot))) OR ucast (get_u32 (ds_blocks_lo slot))"

definition first_slot :: "u8 list \<Rightarrow> erofs_superblock \<Rightarrow> erofs_device_slot" where
  \<comment> \<open>the device slot the superblock points to\<close>
  "first_slot img sb = device_slot_view (drop (EROFS_DEVICESLOT_SIZE * unat (get_u16 (sb_devt_slotoff sb))) img)"

lemma first_slot_image:
  assumes "length uuid = 16"
  shows "first_slot (image_bytes buf root_nid inos epoch blocks uuid) (image_superblock len root_nid inos epoch uuid) =
    device_slot_new blocks"
proof -
  have "EROFS_DEVICESLOT_SIZE * unat (get_u16 (sb_devt_slotoff (image_superblock len root_nid inos epoch uuid))) = 1152"
    by (simp add: image_superblock_def superblock_new_def devt_slotoff_def)
  then show ?thesis
    using device_slot_codec.view_enc [OF device_slot_new_ok]
    by (simp add: first_slot_def image_bytes_def block0_image_def length_superblock_bytes [OF assms])
qed

subsection \<open>Properties\<close>

text \<open>C13: The image describes itself. For the image the builder writes for a valid source, the statistics of
  the server give its size in blocks and the number of its inodes, which is one for every node of the
  source and one for all the links to a file; its size stays below the bound computed from the
  source, up to two blocks; and the device slot that the superblock points to gives the size of the
  blob in blocks.\<close>

theorem statistics_describe_image:
  assumes src: "source_valid hash (unat chunksize) U source" and uuid: "length uuid = 16" and room: "blob_room \<le> 2 ^ 60"
    and fits: "metadata_size (unat chunksize) source + 8192 \<le> 2 ^ 44"
    and run: "mkfs_main hash chunksize epoch uuid source source_is_dir (Some blob_room) image_room = Inr (img, blob)"
  shows "length img < metadata_size (unat chunksize) source + 8192 \<and>
    (\<exists>r st. reader_open (Some img) (Some (Some blob)) = Inr r \<and> fs_statfs (fs_new r) = Inr st \<and>
      f_bsize st = 4096 \<and> 4096 * unat (f_blocks st) = length img \<and> unat (f_files st) = inode_count source \<and>
      4096 * unat (slot_blocks (first_slot img (reader_sb r))) = length blob)"
proof -
  from run obtain inodes bw final l iroom image where cs: "4096 \<le> unat chunksize" "is_power_of_two chunksize"
    and bt: "build_tree hash source (blob_writer_new blob_room chunksize) = Inr (inodes, bw)"
    and lay: "layout_image inodes epoch (trailing_zeros chunksize) = Inr (final, l)"
    and w: "write_image \<lparr>sink_data = [], sink_room = iroom\<rparr> (lay_buf l) (ucast (ii_nid (final ! 0)))
      (word_of_nat (length inodes)) epoch (bw_total_blocks bw) uuid = Inr image"
    and out: "img = sink_data image" "blob = sink_data (bw_file bw)"
    by (rule mkfs_main_Inr)
  have pos: "0 < unat chunksize" using cs(1) by simp
  have size: "metadata_bound inodes \<le> metadata_size (unat chunksize) source" by (rule tree_within_size [OF bt pos])
  then have bound: "metadata_bound inodes \<le> 2 ^ 59" using fits by simp
  have laid: "laid_out inodes final (lay_buf l) epoch (trailing_zeros chunksize)"
    using layout_image_laid_out [OF build_layout_ok(1) [OF src cs(1) room bt bound]] lay by (metis Inr_inject prod.inject)
  let ?im = "image_bytes (lay_buf l) (ucast (ii_nid (final ! 0))) (word_of_nat (length inodes)) epoch (bw_total_blocks bw) uuid"
  let ?r = "image_reader ?im (Some blob)" and ?n = "1 + div_ceil (length (lay_buf l)) 4096"
  have img: "img = ?im" using write_image_Inr [OF uuid w] by (simp add: out(1))
  then have len: "length img = 4096 * ?n" by (simp only: length_image_bytes [OF uuid])
  have "length (lay_buf l) \<le> metadata_bound inodes" using laid by (simp add: laid_out_def)
  moreover have "4096 * ?n < length (lay_buf l) + 8192"
    using div_ceil_mult [of 4096 "length (lay_buf l)"] pad_len_less [of 4096 "length (lay_buf l)"] by simp
  ultimately have le: "length img < metadata_size (unat chunksize) source + 8192" using size len by simp
  have n: "?n < 2 ^ 32" using le fits len by simp
  obtain meta where "src_stat source = Some meta" "is_dir meta" using src unfolding source_valid_def by blast
  then have count: "length inodes = inode_count source" by (rule inodes_counted [OF bt])
  have "inode_count source < 2 ^ 64" using inodes_take_bytes [of inodes] bound count by simp
  moreover have "reader_open (Some img) (Some (Some blob)) = Inr ?r"
    using reader_open_image [OF uuid, where b = "Some blob"] by (simp add: img)
  moreover have "unat (ucast (ucast (1 + word_of_nat (div_ceil (length (lay_buf l)) 4096) :: u64) :: u32) :: u64) = ?n"
    using n by (simp add: unsigned_ucast_eq unsigned_take_bit_eq unat_word_ariths unat_of_nat take_bit_nat_eq_self)
  moreover have "0 < chunksize" using pos by (simp add: word_less_nat_alt)
  then have "4096 * unat (slot_blocks (first_slot img (reader_sb ?r))) = length blob"
    using build_tree_valid(7) [OF src _ room bt]
    by (simp add: img image_reader_sb [OF uuid] first_slot_image [OF uuid] slot_blocks_def device_slot_blocks out(2))
  ultimately show ?thesis
    using le len
    by (simp add: fs_statfs_def fs_block_size_def fs_new_def image_reader_sb [OF uuid] image_superblock_def count unat_of_nat
        push_bit_eq_mult)
qed

end
