(* ===== verification/Applications.thy ===== *)
theory Applications
  imports Sample_Mounted Mount Reader_Safe Fuse_Clients Build_Order Image_Account
begin

text \<open>
  The properties of the components applied to the sample source: every hypothesis they have holds
  for a source tree, the image the builder makes of it and the server that runs on that image.
\<close>

unbundle bit_operations_syntax

subsection \<open>The sample, mounted\<close>

lemma sample_built:
  obtains bw where "build_tree sample_hash sample_root (blob_writer_new 8192 4096) = Inr (sample_inodes, bw)"
    and "layout_ok sample_inodes" and "\<forall>i \<in> set sample_inodes. inode_ok i" and "tree_like sample_inodes"
    and "represents 4096 (blob_fetch bw) sample_inodes sample_root 0" and "length (sink_data (bw_file bw)) \<le> 2 ^ 60"
proof -
  obtain bw where b: "build_tree sample_hash sample_root (blob_writer_new 8192 4096) = Inr (sample_inodes, bw)"
    using sample_build by blast
  have v: "source_valid sample_hash (unat (4096 :: u32)) sample_nodes sample_root" using sample_valid by simp
  have r: "4096 \<le> unat (4096 :: u32)" "(8192 :: nat) \<le> 2 ^ 60" by simp_all
  note ok = build_layout_ok [OF v r b sample_metadata [OF b]]
  show ?thesis using that [OF b ok(1-3) _ ok(5)] ok(4) by simp
qed

lemma sample_inode_nth:
  "length sample_inodes = 4"
  "sample_inodes ! 2 = new_inode (sample_stat 2 0x81A4 2 3) 3 3 (RegularFile sample_refs) [(1, [107], [7, 8])]"
  by (simp_all add: sample_inodes_def Let_def)

lemma sample_file_stored:
  assumes "represents 4096 fetch sample_inodes sample_root 0"
  shows "file_stored fetch 4096 sample_refs [1, 2, 3]"
proof -
  have "represents 4096 fetch sample_inodes sample_file 2"
    using assms
    by (cases rule: represents.cases)
      (auto simp: sample_stats sample_kinds sample_sources sample_by_name sample_inodes_def Let_def new_inode_def)
  then have "leaf_inode 4096 fetch sample_file (sample_stat 2 0x81A4 2 3) (sample_inodes ! 2)"
    using represents_leaf_inode sample_stats(2) sample_kinds(3) by blast
  then obtain ino sz dat where i: "sample_inodes ! 2 = new_inode (sample_stat 2 0x81A4 2 3) ino sz dat (read_xattrs_from_path sample_file)"
    and d: "leaf_data 4096 fetch sample_file (sample_stat 2 0x81A4 2 3) sz dat"
    by (auto simp: leaf_inode_def)
  have "dat = RegularFile sample_refs" using arg_cong [OF i, of ii_data] by (simp add: sample_inode_nth(2))
  moreover have "st_size (sample_stat 2 0x81A4 2 3) = 3" by (simp add: sample_stat_def)
  ultimately show ?thesis using d by (simp add: leaf_data_def sample_kinds sample_sources)
qed

lemma sample_mounted_root:
  obtains r final and bw :: "u8 list blob_writer" where "mounted r sample_inodes final bw 1700000000 12" and "length final = 4"
    and "file_stored (blob_fetch bw) 4096 sample_refs [1, 2, 3]"
    and "superblock_root_nid (reader_sb r) = 0" and "ii_nid (final ! 0) = 0"
proof -
  obtain bw where "build_tree sample_hash sample_root (blob_writer_new 8192 4096) = Inr (sample_inodes, bw)"
    and b: "layout_ok sample_inodes" "\<forall>i \<in> set sample_inodes. inode_ok i" "tree_like sample_inodes"
    "represents 4096 (blob_fetch bw) sample_inodes sample_root 0" "length (sink_data (bw_file bw)) \<le> 2 ^ 60"
    by (rule sample_built)
  obtain final l where "layout_image sample_inodes 1700000000 12 = Inr (final, l)"
    and lay: "laid_out sample_inodes final (lay_buf l) 1700000000 12"
    by (rule layout_image_laid_out [OF b(1)])
  have "(2 :: nat) ^ 16 \<le> 2 ^ 59" by simp
  then have bound: "metadata_bound sample_inodes \<le> 2 ^ 59" using sample_bound le_trans by blast
  have u: "length sample_uuid = 16" "12 \<le> unat (12 :: u32)" "unat (12 :: u32) < 32" by (simp_all add: sample_uuid_def)
  note m = mounted_image [OF lay b(3,2) bound u b(5), of 0 0 0]
  have root: "superblock_root_nid (reader_sb (image_reader (image_bytes (lay_buf l) 0 0 1700000000 0 sample_uuid) blob)) = 0" for blob
    by (simp add: image_reader_sb [OF u(1)] image_superblock_def)
  have "length final = 4" using lay sample_inode_nth(1) by (simp add: laid_out_def)
  moreover have "ii_nid (final ! 0) = 0" using lay by (simp add: laid_out_def)
  ultimately show ?thesis using that [OF m _ sample_file_stored [OF b(4)] root] by blast
qed

lemma sample_mounted:
  obtains r final and bw :: "u8 list blob_writer" where "mounted r sample_inodes final bw 1700000000 12" and "length final = 4"
    and "file_stored (blob_fetch bw) 4096 sample_refs [1, 2, 3]"
  by (rule sample_mounted_root) (rule that)

text \<open>The inode of the file, as the image holds it.\<close>

lemma sample_file_mounted:
  obtains r j where "stored r (nid_to_offset r (ii_nid j)) (inode_image j 1700000000 12)"
    and "unat (nid_to_offset r (ii_nid j)) + 64 \<le> length (rd_mmap r)"
    and "xattrs_fit j" and "size_fits j" and "ii_data j = RegularFile sample_refs" and "ii_size j = 3"
    and "ii_xattrs j = [(1, [107], [7, 8])]"
    and "sb_blkszbits (reader_sb r) = EROFS_BLKSZBITS" and "refs_hold r 4096 sample_refs [1, 2, 3]" and "mapped r"
proof -
  obtain r final and bw :: "u8 list blob_writer" where m: "mounted r sample_inodes final bw 1700000000 12" and len: "length final = 4"
    and st: "file_stored (blob_fetch bw) 4096 sample_refs [1, 2, 3]"
    by (rule sample_mounted)
  let ?j = "final ! 2"
  have b: "built_from (sample_inodes ! 2) ?j" and ok: "inode_ok (sample_inodes ! 2)"
    and h: "stored r (nid_to_offset r (ii_nid ?j)) (inode_image ?j 1700000000 12)"
      "unat (nid_to_offset r (ii_nid ?j)) + 64 \<le> length (rd_mmap r)"
    and r: "mapped r" "rd_blob_mmap r = Some (sink_data (bw_file bw))" "sb_blkszbits (reader_sb r) = EROFS_BLKSZBITS"
    using m len sample_inode_nth(1) by (auto simp: mounted_def holds_image_def)
  have j: "ii_data ?j = RegularFile sample_refs" "ii_size ?j = 3" "ii_xattrs ?j = [(1, [107], [7, 8])]"
    "xattrs_fit ?j"
    using b built_from_fits [OF b ok] by (simp_all add: built_from_def sample_inode_nth is_directory_def)
  have "refs_hold r (2 ^ unat (12 :: u32)) sample_refs [1, 2, 3]"
    by (rule file_stored_refs_hold [OF r(1,2)]) (use st in simp_all)
  then have rf: "refs_hold r 4096 sample_refs [1, 2, 3]" by simp
  have "size_fits ?j" by (simp add: size_fits_def j)
  then show ?thesis using that [OF h j(4) _ j(1-3) r(3) rf r(1)] by blast
qed

subsection \<open>The builder\<close>

lemma sample_chunk_pos: "0 < bw_chunksize (blob_writer_new 8192 4096 :: u8 list blob_writer)"
  by (simp add: blob_writer_new_def)

theorem stored_files_stay_witness:
  "\<exists>bw1 bw2 refs1 refs2.
     write_file_chunks sample_hash (blob_writer_new 8192 4096) (Some [1, 2, 3]) 3 = Inr (refs1, bw1) \<and>
     write_file_chunks sample_hash bw1 (Some [4, 5]) 2 = Inr (refs2, bw2) \<and>
     file_stored (blob_fetch bw2) 4096 refs1 [1, 2, 3] \<and> file_stored (blob_fetch bw2) 4096 refs2 [4, 5]"
proof -
  let ?bw = "blob_writer_new 8192 4096 :: u8 list blob_writer"
  have one: "split_chunks 4096 [4, 5 :: u8] = [[4, 5]]" by (simp add: split_chunks.simps)
  have bw: "bw_chunksize ?bw = 4096" "sink_room (bw_file ?bw) = 8192" by (simp_all add: blob_writer_new_def)
  have u: "unat (3 :: u64) = 3" "unat (2 :: u64) = 2" "unat (4096 :: u32) = 4096" by simp_all
  have "chunks_need (unat (bw_chunksize ?bw)) (take (unat (3 :: u64)) [1, 2, 3]) = 4096"
    unfolding bw u by (simp add: chunks_need_def sample_chunks pad_len_def)
  then obtain refs1 bw1 where w1: "write_file_chunks sample_hash ?bw (Some [1, 2, 3]) 3 = Inr (refs1, bw1)"
    and c1: "bw_chunksize bw1 = 4096" and r1: "4096 \<le> sink_room (bw_file bw1)"
    using write_file_room [OF sample_chunk_pos, of 3 "[1, 2, 3]" sample_hash] bw by auto
  have "chunks_need (unat (bw_chunksize bw1)) (take (unat (2 :: u64)) [4, 5]) = 4096"
    unfolding c1 u by (simp add: chunks_need_def one pad_len_def)
  then obtain refs2 bw2 where w2: "write_file_chunks sample_hash bw1 (Some [4, 5]) 2 = Inr (refs2, bw2)"
    using write_file_room [of bw1 2 "[4, 5]" sample_hash] c1 r1 by auto
  have inv: "blob_inv sample_hash UNIV ?bw"
    by (simp add: blob_inv_def blob_writer_new_def sink_capacity_def sample_hash_def inj_on_def)
  note s = stored_files_stay [OF inv sample_chunk_pos subset_UNIV subset_UNIV w1 w2]
  then show ?thesis using w1 w2 bw by auto
qed

theorem walk_represents_source_witness:
  "\<exists>inodes bw. build_tree sample_hash sample_root (blob_writer_new 8192 4096) = Inr (inodes, bw) \<and>
     represents 4096 (blob_fetch bw) inodes sample_root 0"
proof -
  obtain bw where b: "build_tree sample_hash sample_root (blob_writer_new 8192 4096) = Inr (sample_inodes, bw)"
    using sample_build by blast
  have v: "source_valid sample_hash (unat (4096 :: u32)) sample_nodes sample_root" "0 < (4096 :: u32)" "(8192 :: nat) \<le> 2 ^ 60"
    using sample_valid by simp_all
  show ?thesis using walk_represents_source [OF v b] b by auto
qed

theorem walk_builds_tree_witness:
  "\<exists>inodes bw. build_tree sample_hash sample_root (blob_writer_new 8192 4096) = Inr (inodes, bw) \<and>
     tree_like inodes \<and> is_directory (inodes ! 0)"
proof -
  obtain bw where b: "build_tree sample_hash sample_root (blob_writer_new 8192 4096) = Inr (sample_inodes, bw)"
    using sample_build by blast
  have v: "source_valid sample_hash (unat (4096 :: u32)) sample_nodes sample_root" "0 < (4096 :: u32)" "(8192 :: nat) \<le> 2 ^ 60"
    using sample_valid by simp_all
  show ?thesis using walk_builds_tree [OF v b] b by blast
qed

theorem layout_holds_everything_witness:
  "\<exists>final l. layout_image sample_inodes 1700000000 12 = Inr (final, l) \<and>
     laid_out sample_inodes final (lay_buf l) 1700000000 12"
proof -
  obtain bw where "build_tree sample_hash sample_root (blob_writer_new 8192 4096) = Inr (sample_inodes, bw)"
    and b: "layout_ok sample_inodes" "\<forall>i \<in> set sample_inodes. inode_ok i" "tree_like sample_inodes"
    "represents 4096 (blob_fetch bw) sample_inodes sample_root 0" "length (sink_data (bw_file bw)) \<le> 2 ^ 60"
    by (rule sample_built)
  from layout_holds_everything [OF b(1)] show ?thesis .
qed

text \<open>The chunk array of a file with attributes is not aligned. For an extended inode with one attribute
  whose area takes 20 bytes, the array of chunk indexes starts at byte 84 of the inode, right after the
  attributes, and not at the next multiple of the size of an index.\<close>

lemma chunk_array_unaligned:
  "\<exists>bs. serialize_inode (sample_inodes ! 2) 1700000000 12 = Inr bs \<and>
     drop 84 bs = chunk_index_as_bytes (chunk_index_new 0 1) \<and> \<not> 8 dvd length (take 84 bs)"
proof -
  let ?i = "sample_inodes ! 2"
  have xs: "ii_xattrs ?i = [(1, [107], [7, 8])]" "ii_data ?i = RegularFile sample_refs" "ii_is_extended ?i"
    by (simp_all add: sample_inode_nth(2)) (simp add: new_inode_def sample_stat_def)
  have sm: "xattrs_small ?i" by (simp add: xattrs_small_def xs xattr_small_def xattr_entry_size_def)
  have "length (inode_bytes (disk_inode ?i 1700000000 12)) = 64"
    by (simp add: disk_inode_def length_header inode_base_def xs)
  moreover have "length (xattr_area (ii_xattrs ?i)) = 20"
    using sm by (simp add: length_xattr_area xattrs_small_def xs sample_xattr_area)
  moreover have "inode_payload (ii_data ?i) = chunk_index_as_bytes (chunk_index_new 0 1)"
    by (simp add: xs sample_refs_def)
  ultimately show ?thesis
    by (simp add: serialize_inode_image [OF sm] inode_image_def)
qed

subsection \<open>The reader\<close>

theorem file_content_roundtrip_witness:
  "\<exists>r nid. and_then (reader_inode r nid) (\<lambda>i. read_file_data r nid i 1 5) = Inr [2, 3]"
proof -
  obtain r j where j: "stored r (nid_to_offset r (ii_nid j)) (inode_image j 1700000000 12)"
    "unat (nid_to_offset r (ii_nid j)) + 64 \<le> length (rd_mmap r)"
    "xattrs_fit j" "size_fits j" "ii_data j = RegularFile sample_refs" "ii_size j = 3"
    "ii_xattrs j = [(1, [107], [7, 8])]"
    "sb_blkszbits (reader_sb r) = EROFS_BLKSZBITS" "refs_hold r 4096 sample_refs [1, 2, 3]" "mapped r"
    by (rule sample_file_mounted)
  have u: "unat (ii_size j) = length [1, 2, 3 :: u8]" "12 \<le> unat (12 :: u32)" "unat (12 :: u32) < 44"
    "refs_hold r (2 ^ unat (12 :: u32)) sample_refs [1, 2, 3]"
    using j(6,9) by simp_all
  have b: "bytes_at (unat (1 :: u64)) (unat (5 :: u32)) [1, 2, 3] = [2, 3 :: u8]" by (simp add: bytes_at_def)
  show ?thesis by (intro exI) (rule file_content_roundtrip [OF j(1-5) u(1) j(8) u(2-4), of 1 5, unfolded b])
qed

theorem write_agrees_with_read_witness:
  "\<exists>r i. mapped r \<and> reader_inode r (ii_nid i) = Inr (disk_inode i 1700000000 12) \<and>
     write_file_data_to r (ii_nid i) (disk_inode i 1700000000 12) 0 9 \<lparr>sink_data = [], sink_room = 9\<rparr> =
       and_then (read_file_data_sync r (ii_nid i) (disk_inode i 1700000000 12) 0 9)
         (\<lambda>bs. Inr (word_of_nat (length bs), emit bs \<lparr>sink_data = [], sink_room = 9\<rparr>))"
proof -
  obtain r j where j: "stored r (nid_to_offset r (ii_nid j)) (inode_image j 1700000000 12)"
    "unat (nid_to_offset r (ii_nid j)) + 64 \<le> length (rd_mmap r)"
    "xattrs_fit j" "size_fits j" "ii_data j = RegularFile sample_refs" "ii_size j = 3"
    "ii_xattrs j = [(1, [107], [7, 8])]"
    "sb_blkszbits (reader_sb r) = EROFS_BLKSZBITS" "refs_hold r 4096 sample_refs [1, 2, 3]" "mapped r"
    by (rule sample_file_mounted)
  have room: "unat (9 :: u32) \<le> sink_room \<lparr>sink_data = [], sink_room = 9\<rparr>" by simp
  from write_agrees_with_read [OF j(10) room] show ?thesis
    using j(10) reader_inode_stored [OF j(1,2)] by blast
qed

theorem xattrs_roundtrip_witness:
  "\<exists>r nid. and_then (reader_inode r nid) (read_xattrs r nid) = Inr [(bytes ''user.k'', [7, 8])]"
proof -
  obtain r j where j: "stored r (nid_to_offset r (ii_nid j)) (inode_image j 1700000000 12)"
    "unat (nid_to_offset r (ii_nid j)) + 64 \<le> length (rd_mmap r)"
    "xattrs_fit j" "size_fits j" "ii_data j = RegularFile sample_refs" "ii_size j = 3"
    "ii_xattrs j = [(1, [107], [7, 8])]"
    "sb_blkszbits (reader_sb r) = EROFS_BLKSZBITS" "refs_hold r 4096 sample_refs [1, 2, 3]" "mapped r"
    by (rule sample_file_mounted)
  have name: "xattr_full_name 1 [107] = bytes ''user.k''" by code_simp
  have "serialize_inode j 1700000000 12 = Inr (inode_image j 1700000000 12)"
    by (rule serialize_inode_image [OF xattrs_fit_small [OF j(3)]])
  with xattrs_roundtrip [OF j(3), of 1700000000 12] j(1,2,7) name show ?thesis
    by (auto intro!: exI [of _ r] exI [of _ "ii_nid j"])
qed

theorem attribute_scan_ends_witness:
  "\<exists>r nid i. reader_inode r nid = Inr i \<and>
     ((\<exists>xs. read_xattrs r nid i = Inr xs) \<or> (\<exists>e. no_panic (Inl e :: error + unit) \<and> read_xattrs r nid i = Inl e))"
proof -
  obtain r j where j: "stored r (nid_to_offset r (ii_nid j)) (inode_image j 1700000000 12)"
    "unat (nid_to_offset r (ii_nid j)) + 64 \<le> length (rd_mmap r)"
    "xattrs_fit j" "size_fits j" "ii_data j = RegularFile sample_refs" "ii_size j = 3"
    "ii_xattrs j = [(1, [107], [7, 8])]"
    "sb_blkszbits (reader_sb r) = EROFS_BLKSZBITS" "refs_hold r 4096 sample_refs [1, 2, 3]" "mapped r"
    by (rule sample_file_mounted)
  have len: "length (rd_mmap r) < 2 ^ 64" using j(10) by (simp add: mapped_def)
  from attribute_scan_ends [OF len, of "ii_nid j" "disk_inode j 1700000000 12"] show ?thesis
    using reader_inode_stored [OF j(1,2)] by blast
qed

theorem flat_data_refines_addresses_witness:
  "\<exists>r i. reader_inode r 36 = Inr i \<and> read_flat_data_vec r 36 i 0 (inode_size i) = Inl (Panic CapacityOverflow) \<and>
     no_panic (read_flat_data_vec r 36 i 0 1)"
proof -
  let ?r = "image_reader huge_target_image None"
  obtain i where i: "reader_inode ?r 36 = Inr i" "huge_tail i" using huge_target(5) by blast
  have len: "length (rd_mmap ?r) < 2 ^ 64" using huge_target(2) by (simp add: mapped_def)
  have all: "unat (0 :: u64) + unat (inode_size i) < 2 ^ 64" using unat_lt [of "inode_size i"] by simp
  have one: "unat (0 :: u64) + unat (1 :: u64) < 2 ^ 64" by simp
  from flat_data_refines_addresses [OF len all, of i 36] have "read_flat_data_vec ?r 36 i 0 (inode_size i) = Inl (Panic CapacityOverflow)"
    using i(2) by (simp add: huge_tail_spans spans_tail_def inline_blocks_size_eq)
  moreover from flat_data_refines_addresses [OF len one, of i 36] have "no_panic (read_flat_data_vec ?r 36 i 0 1)"
    by simp
  ultimately show ?thesis using i(1) by blast
qed

subsection \<open>The server\<close>

lemma sample_root_dir:
  obtains fs i ents where "serves_source sample_hash sample_root fs" and "fs = fs_new (fs_reader fs)"
    and "reader_inode (fs_reader fs) 0 = Inr i" and "(ucast (inode_mode i) :: u32) AND 0xF000 = 0x4000"
    and "read_dir_cached (fs_reader fs) 0 i = Inr ents" and "length ents = 6"
proof -
  obtain fs where f: "serves_source sample_hash sample_root fs" "fs = fs_new (fs_reader fs)" by (rule sample_served)
  note s = serves_presents [OF f(1)]
  obtain i ents es meta where st: "src_stat sample_root = Some meta" and es: "src_entries sample_root = Some es"
    and i: "node_shown (fs_reader fs) sample_root 0 meta i"
    and rd: "read_dir_cached (fs_reader fs) 0 i = Inr ((bytes ''.'', 0, EROFS_FT_DIR) # (bytes ''..'', 0, EROFS_FT_DIR) # ents)"
    and rel: "list_all2 (\<lambda>e x. fst x = from_utf8_lossy (fst e) \<and>
       ((\<exists>m. src_stat (snd e) = Some m \<and> snd (snd x) = mode_to_file_type (ucast (st_mode m))) \<and>
        presents (fs_reader fs) 0 (snd e) (fst (snd x)))) (by_name es) ents"
    by (rule presents_dirD [OF s(1) sample_resolve(6)])
  have "length ents = 4" using list_all2_lengthD [OF rel] es by (auto simp: sample_sources by_name_def)
  moreover have "meta = sample_stat 1 0x41ED 3 0" using st sample_stats(1) by simp
  then have "st_mode meta AND 0xF000 = 0x4000" by (simp add: sample_stat_def)
  then have "(ucast (inode_mode i) :: u32) AND 0xF000 = 0x4000"
    using i directory_mode [of "st_mode meta"] by (simp add: node_shown_def stat_shown_def)
  ultimately show ?thesis using i rd by (intro that [OF f]) (auto simp: node_shown_def)
qed
text \<open>Two workers open the root; the one that draws second inserts first, and its handle is released.\<close>

lemma sample_run:
  obtains r dh s where "length (dh_entries dh) = 6"
    and "server_run (server_start r) ([Draw 1 1 dh, Draw 1 2 dh, Insert 2 dh] @ Insert 1 dh # [Release 2]) s"
proof -
  obtain fs i ents where f: "serves_source sample_hash sample_root fs" "fs = fs_new (fs_reader fs)"
    and i: "reader_inode (fs_reader fs) 0 = Inr i" "(ucast (inode_mode i) :: u32) AND 0xF000 = 0x4000"
    and rd: "read_dir_cached (fs_reader fs) 0 i = Inr ents" "length ents = 6"
    by (rule sample_root_dir)
  let ?r = "fs_reader fs" and ?dh = "\<lparr>dh_entries = ents\<rparr>"
  have root: "fs_root_nid fs = 0" by (rule serves_presents [OF f(1)])
  have draw: "server_step s (Draw 1 h ?dh)
      (s\<lparr>sv_fs := snd (draw_handle (sv_fs s)), sv_pending := (h, ?dh) # sv_pending s\<rparr>)"
    if "fs_reader (sv_fs s) = ?r" "fs_next_dir_handle (sv_fs s) = h" for s h
    by (rule server_step.draw [where vi = i])
      (use that i rd root in \<open>simp_all add: to_nid_def draw_handle_def\<close>)
  let ?s0 = "server_start ?r"
  let ?s1 = "?s0\<lparr>sv_fs := snd (draw_handle (sv_fs ?s0)), sv_pending := (1, ?dh) # sv_pending ?s0\<rparr>"
  let ?s2 = "?s1\<lparr>sv_fs := snd (draw_handle (sv_fs ?s1)), sv_pending := (2, ?dh) # sv_pending ?s1\<rparr>"
  let ?s3 = "?s2\<lparr>sv_fs := insert_handle 2 ?dh (sv_fs ?s2), sv_pending := remove1 (2, ?dh) (sv_pending ?s2)\<rparr>"
  let ?s4 = "?s3\<lparr>sv_fs := insert_handle 1 ?dh (sv_fs ?s3), sv_pending := remove1 (1, ?dh) (sv_pending ?s3)\<rparr>"
  have st1: "server_step ?s0 (Draw 1 1 ?dh) ?s1"
    by (rule draw) (simp_all add: server_start_def fs_new_def)
  have st2: "server_step ?s1 (Draw 1 2 ?dh) ?s2"
    by (rule draw) (simp_all add: server_start_def fs_new_def draw_handle_def)
  have st3: "server_step ?s2 (Insert 2 ?dh) ?s3" by (rule server_step.insert) simp
  have st4: "server_step ?s3 (Insert 1 ?dh) ?s4" by (rule server_step.insert) simp
  have st5: "server_step ?s4 (Release 2) (?s4\<lparr>sv_fs := release_handle 2 (sv_fs ?s4)\<rparr>)"
    by (rule server_step.release) (rule fs_releasedir_release)
  note server_run.cons [OF st1 server_run.cons [OF st2 server_run.cons [OF st3
    server_run.cons [OF st4 server_run.cons [OF st5 server_run.nil]]]]]
  then show ?thesis using that [of ?dh] rd(2) by simp
qed

theorem handles_unique_witness:
  "\<exists>r dh s. server_run (server_start r) ([Draw 1 1 dh, Draw 1 2 dh, Insert 2 dh] @ Insert 1 dh # [Release 2]) s \<and>
     map fst (drawn ([Draw 1 1 dh, Draw 1 2 dh, Insert 2 dh] @ Insert 1 dh # [Release 2])) =
       map (\<lambda>i. 1 + word_of_nat i) [0 ..< 2]"
proof -
  obtain r dh s where "length (dh_entries dh) = 6"
    and run: "server_run (server_start r) ([Draw 1 1 dh, Draw 1 2 dh, Insert 2 dh] @ Insert 1 dh # [Release 2]) s"
    by (rule sample_run)
  have two: "length (drawn ([Draw 1 1 dh, Draw 1 2 dh, Insert 2 dh] @ Insert 1 dh # [Release 2])) = 2" by simp
  from handles_unique [OF run] run show ?thesis unfolding two by blast
qed

theorem handle_snapshot_witness:
  "\<exists>r dh s. server_run (server_start r) ([Draw 1 1 dh, Draw 1 2 dh, Insert 2 dh] @ Insert 1 dh # [Release 2]) s \<and>
     get_dir_handle (sv_fs s) 1 = Inr dh \<and> length (dh_entries dh) = 6"
proof -
  obtain r dh s where len: "length (dh_entries dh) = 6"
    and run: "server_run (server_start r) ([Draw 1 1 dh, Draw 1 2 dh, Insert 2 dh] @ Insert 1 dh # [Release 2]) s"
    by (rule sample_run)
  have few: "length (drawn ([Draw 1 1 dh, Draw 1 2 dh, Insert 2 dh] @ Insert 1 dh # [Release 2])) \<le> 2 ^ 64"
    "Release 1 \<notin> set [Release 2]" by simp_all
  from handle_snapshot [OF run few] run len show ?thesis by blast
qed

theorem walk_sees_cached_entries_witness:
  "\<exists>r i es. read_dir_cached r 0 i = Inr es \<and> length es = 6 \<and>
     for_each_dir_entry r 0 i (lookup_cb (bytes ''g'')) None = visit (lookup_cb (bytes ''g'')) es None"
proof -
  obtain fs i ents where "serves_source sample_hash sample_root fs" "fs = fs_new (fs_reader fs)"
    "reader_inode (fs_reader fs) 0 = Inr i" "(ucast (inode_mode i) :: u32) AND 0xF000 = 0x4000"
    and rd: "read_dir_cached (fs_reader fs) 0 i = Inr ents" "length ents = 6"
    by (rule sample_root_dir)
  show ?thesis by (intro exI conjI) (rule rd(1), rule rd(2), rule walk_sees_cached_entries [OF rd(1)])
qed

theorem listing_complete_witness:
  "\<exists>fs dh. get_dir_handle fs 1 = Inr dh \<and> length (dh_entries dh) = 6 \<and>
     list_dir fs 1 (\<lambda>d. 24 + length (dr_name d) mod 256) 4096 7 0 = Inr (replies fs (List.enumerate 0 (dh_entries dh)))"
proof -
  obtain r dh s where len: "length (dh_entries dh) = 6"
    and run: "server_run (server_start r) ([Draw 1 1 dh, Draw 1 2 dh, Insert 2 dh] @ Insert 1 dh # [Release 2]) s"
    by (rule sample_run)
  have "fs_dir_handles (sv_fs s) 1 = Some dh"
    unfolding run_table [OF run] by (simp add: insert_handle_def release_handle_def)
  then have h: "get_dir_handle (sv_fs s) 1 = Inr dh" by (simp add: get_dir_handle_def)
  let ?d = "\<lambda>d. 24 + length (dr_name d) mod 256"
  have d: "0 < ?d d \<and> ?d d \<le> 4096" for d
  proof -
    have "length (dr_name d) mod 256 < 256" by simp
    then show ?thesis by linarith
  qed
  have hyps: "length (dh_entries dh) < 2 ^ 64" "\<forall>d. 0 < ?d d \<and> ?d d \<le> 4096" "length (dh_entries dh) < 7"
    by (simp add: len) (rule allI, rule d, simp add: len)
  show ?thesis by (intro exI conjI) (rule h, rule len, rule listing_complete [OF h hyps])
qed

theorem async_read_same_witness:
  "\<exists>fs. serves_source sample_hash sample_root fs \<and>
     async_read (\<lambda>bs w. and_then (write_all bs w) (\<lambda>w. Inr (word_of_nat (length bs), w))) fs 5
       \<lparr>sink_data = [], sink_room = 8\<rparr> 8 0 = fs_read fs 5 \<lparr>sink_data = [], sink_room = 8\<rparr> 8 0"
proof -
  obtain fs where f: "serves_source sample_hash sample_root fs" "fs = fs_new (fs_reader fs)" by (rule sample_served)
  have room: "unat (8 :: u32) \<le> sink_room \<lparr>sink_data = [], sink_room = 8\<rparr>" by simp
  from async_read_same [OF serves_presents(2) [OF f(1)] room] f(1) show ?thesis by blast
qed

subsection \<open>Clients\<close>

text \<open>Two clients open the root; the second draws later, inserts first and releases its handle.\<close>

lemma sample_clients:
  obtains r es s where "clients_run (clients_start r) es s" and "draws es = 2"
    and "map fst (trace_of 0 es) = [Opendir 1, Readdir 0 0 2]" and "map fst (trace_of 1 es) = [Opendir 1, Releasedir 0]"
proof -
  obtain fs i ents where f: "serves_source sample_hash sample_root fs" "fs = fs_new (fs_reader fs)"
    and i: "reader_inode (fs_reader fs) 0 = Inr i" "(ucast (inode_mode i) :: u32) AND 0xF000 = 0x4000"
    and rd: "read_dir_cached (fs_reader fs) 0 i = Inr ents" "length ents = 6"
    by (rule sample_root_dir)
  let ?r = "fs_reader fs" and ?dh = "\<lparr>dh_entries = ents\<rparr>"
  have root: "fs_root_nid fs = 0" by (rule serves_presents [OF f(1)])
  have draw: "clients_step s None
      (s\<lparr>cl_fs := snd (draw_handle (cl_fs s)), cl_opening := (cl_opening s)(c \<mapsto> (1, h, ?dh))\<rparr>)"
    if "fs_reader (cl_fs s) = ?r" "fs_next_dir_handle (cl_fs s) = h" "cl_opening s c = None" for s h c
    by (rule clients_step.open_draws [where vi = i])
      (use that i rd root in \<open>simp_all add: to_nid_def draw_handle_def\<close>)
  let ?opened = "\<lambda>c. Some (c, Opendir 1, OpenedDir (Inr {CACHE_DIR, KEEP_CACHE}))"
  have ins: "clients_step s (?opened c)
      (s\<lparr>cl_fs := insert_handle h ?dh (cl_fs s), cl_handles := (cl_handles s)(c := cl_handles s c @ [h]),
         cl_opening := (cl_opening s)(c := None)\<rparr>)"
    if "cl_opening s c = Some (1, h, ?dh)" for s c h
    using that by (rule clients_step.open_inserts)
  have call: "clients_step s (Some (c, call, fst (serve call (cl_handles s c, cl_fs s))))
      (s\<lparr>cl_fs := snd (snd (serve call (cl_handles s c, cl_fs s))),
         cl_handles := (cl_handles s)(c := fst (snd (serve call (cl_handles s c, cl_fs s))))\<rparr>)"
    if "cl_opening s c = None" "\<And>ino. call \<noteq> Opendir ino" for s c call
    using that by (intro clients_step.atomic) simp_all
  let ?s0 = "clients_start ?r"
  define s1 where "s1 = ?s0\<lparr>cl_fs := snd (draw_handle (cl_fs ?s0)), cl_opening := (cl_opening ?s0)(0 \<mapsto> (1, 1, ?dh))\<rparr>"
  define s2 where "s2 = s1\<lparr>cl_fs := snd (draw_handle (cl_fs s1)), cl_opening := (cl_opening s1)(1 \<mapsto> (1, 2, ?dh))\<rparr>"
  define s3 where "s3 = s2\<lparr>cl_fs := insert_handle 2 ?dh (cl_fs s2), cl_handles := (cl_handles s2)(1 := cl_handles s2 1 @ [2]),
    cl_opening := (cl_opening s2)(1 := None)\<rparr>"
  define s4 where "s4 = s3\<lparr>cl_fs := insert_handle 1 ?dh (cl_fs s3), cl_handles := (cl_handles s3)(0 := cl_handles s3 0 @ [1]),
    cl_opening := (cl_opening s3)(0 := None)\<rparr>"
  define s5 where "s5 = s4\<lparr>cl_fs := snd (snd (serve (Releasedir 0) (cl_handles s4 1, cl_fs s4))),
    cl_handles := (cl_handles s4)(1 := fst (snd (serve (Releasedir 0) (cl_handles s4 1, cl_fs s4))))\<rparr>"
  have st1: "clients_step ?s0 None s1"
    unfolding s1_def by (rule draw) (simp_all add: clients_start_def fs_new_def)
  have st2: "clients_step s1 None s2"
    unfolding s2_def by (rule draw) (simp_all add: s1_def clients_start_def fs_new_def draw_handle_def)
  have st3: "clients_step s2 (?opened 1) s3"
    unfolding s3_def by (rule ins) (simp add: s2_def)
  have st4: "clients_step s3 (?opened 0) s4"
    unfolding s4_def by (rule ins) (simp add: s3_def s2_def s1_def)
  have free: "cl_opening s4 c = None" for c by (simp add: s4_def s3_def s2_def s1_def clients_start_def)
  note st5 = call [of s4 1 "Releasedir 0", OF free, folded s5_def, simplified]
  have "cl_opening s5 0 = None" by (simp add: s5_def free)
  note st6 = call [of s5 0 "Readdir 0 0 2", OF this, simplified]
  note clients_run.cons [OF st1 clients_run.cons [OF st2 clients_run.cons [OF st3 clients_run.cons [OF st4
    clients_run.cons [OF st5 clients_run.cons [OF st6 clients_run.nil]]]]]]
  then show ?thesis by (rule that) simp_all
qed

theorem clients_do_not_interfere_witness:
  "\<exists>r es s. clients_run (clients_start r) es s \<and> map fst (trace_of 0 es) = [Opendir 1, Readdir 0 0 2] \<and>
     map fst (trace_of 1 es) = [Opendir 1, Releasedir 0] \<and>
     map snd (trace_of 0 es) = alone [Opendir 1, Readdir 0 0 2] ([], fs_new r)"
proof -
  obtain r es s where run: "clients_run (clients_start r) es s" and d: "draws es = 2"
    and t: "map fst (trace_of 0 es) = [Opendir 1, Readdir 0 0 2]" "map fst (trace_of 1 es) = [Opendir 1, Releasedir 0]"
    by (rule sample_clients)
  have "draws es \<le> 2 ^ 64" by (simp add: d)
  from clients_do_not_interfere [OF run this, of 0] run t show ?thesis by metis
qed

subsection \<open>Arbitrary inodes\<close>

theorem file_operations_never_panic_witness:
  "\<exists>fs :: erofs_fs. reader_open (Some huge_target_image) None = Inr (fs_reader fs) \<and>
     fs_readlink fs 37 = Inl (Panic CapacityOverflow) \<and>
     settles (fs_read fs 37 \<lparr>sink_data = [], sink_room = 8\<rparr> 4096 7) \<and> settles (fs_listxattr fs 37 4096)"
proof -
  let ?fs = "fs_new (image_reader huge_target_image None)"
  have h: "mapped (fs_reader ?fs)" "4 \<le> unat (sb_blkszbits (reader_sb (fs_reader ?fs)))"
    "unat (sb_blkszbits (reader_sb (fs_reader ?fs))) \<le> 32"
    using huge_target(2,3) by (simp_all add: fs_new_def)
  let ?add = "\<lambda>d (s :: unit). Inr (0 :: nat, s)" and ?plus = "\<lambda>d e (s :: unit). Inr (0 :: nat, s)"
    and ?send = "\<lambda>bs (w :: unit). Inr (0 :: u64, w)"
  have cb: "settles (?add d s)" "settles (?plus d e s)" "settles (?send bs s)" for d e bs s by simp_all
  have "to_nid ?fs 37 = 36" using huge_target(4) by (simp add: fs_new_def to_nid_def)
  then have huge: "\<exists>i. reader_inode (fs_reader ?fs) (to_nid ?fs 37) = Inr i \<and> huge_tail i"
    using huge_target(5) by (simp add: fs_new_def)
  have "reader_open (Some huge_target_image) None = Inr (fs_reader ?fs)" using huge_target(1) by (simp add: fs_new_def)
  with file_operations_never_panic [OF h, of ?add ?plus ?send, OF cb, of 37 0 "\<lparr>sink_data = [], sink_room = 8\<rparr>" 4096 7] huge
  show ?thesis by (intro exI [of _ ?fs]) simp
qed


subsection \<open>What the builder writes\<close>

definition sample_relisted :: src where
  \<comment> \<open>the sample, listed in another order\<close>
  "sample_relisted = Src (Some (sample_stat 1 0x41ED 3 0)) (Some [])
     (Some [([103], sample_file), ([108], sample_link), ([102], sample_file), ([100], sample_subdir)]) None None"

lemma sample_same_listing: "same_listing sample_relisted sample_root"
proof -
  have f: "same_listing sample_file sample_file" by (rule same_listing.closed) (simp_all add: sample_file_def)
  have l: "same_listing sample_link sample_link" by (rule same_listing.closed) (simp_all add: sample_link_def)
  have d: "same_listing sample_subdir sample_subdir"
    by (rule same_listing.listed [where es = "[]" and es' = "[]" and ds = "[]"]) (simp_all add: sample_subdir_def)
  let ?es = "[([103], sample_file), ([108], sample_link), ([102], sample_file), ([100], sample_subdir)]"
  show ?thesis
    by (rule same_listing.listed [where es = ?es and ds = ?es, OF _ _ _ _ _ sample_sources(1)])
      (use f l d in \<open>simp_all add: sample_relisted_def sample_root_def\<close>)
qed

theorem build_ignores_listing_order_witness:
  "sample_relisted \<noteq> sample_root \<and>
   (\<exists>img blob. mkfs_main sample_hash 4096 1700000000 sample_uuid sample_relisted True (Some 8192) (Some 131072) = Inr (img, blob) \<and>
      mkfs_main sample_hash 4096 1700000000 sample_uuid sample_root True (Some 8192) (Some 131072) = Inr (img, blob))"
proof -
  have "src_entries sample_relisted \<noteq> src_entries sample_root" by (simp add: sample_relisted_def sample_sources)
  moreover obtain img blob where
    "mkfs_main sample_hash 4096 1700000000 sample_uuid sample_root True (Some 8192) (Some 131072) = Inr (img, blob)"
    by (rule sample_mkfs)
  ultimately show ?thesis
    using build_ignores_listing_order [OF sample_same_listing, of sample_hash 4096 1700000000 sample_uuid True "Some 8192" "Some 131072"]
    by auto
qed

lemma sample_src_nodes:
  "src_nodes sample_root = [sample_root, sample_file, sample_subdir, sample_link, sample_file]"
  by (simp add: src_nodes.simps [of sample_root] src_nodes.simps [of sample_file] src_nodes.simps [of sample_link]
      src_nodes.simps [of sample_subdir] sample_stats sample_kinds sample_sources)

lemma sample_source_chunks: "source_chunks 4096 sample_root = {[1, 2, 3]}"
proof -
  have "src_content n = None" if "n \<in> {sample_root, sample_subdir, sample_link}" for n
    using that by (auto simp: sample_defs)
  then have "node_chunks 4096 n = {}" if "n \<in> {sample_root, sample_subdir, sample_link}" for n
    using that by (auto simp: node_chunks_def split: option.split)
  moreover have "node_chunks 4096 sample_file = {[1, 2, 3]}"
    by (simp add: node_chunks_def sample_stats sample_sources sample_kinds) (simp add: sample_stat_def sample_chunks)
  ultimately show ?thesis by (simp add: source_chunks_def sample_src_nodes)
qed

theorem blob_holds_each_chunk_once_witness:
  "\<exists>img blob. mkfs_main sample_hash 4096 1700000000 sample_uuid sample_root True (Some 8192) (Some 131072) = Inr (img, blob) \<and>
     length blob = 4096"
proof -
  obtain img blob where run:
    "mkfs_main sample_hash 4096 1700000000 sample_uuid sample_root True (Some 8192) (Some 131072) = Inr (img, blob)"
    by (rule sample_mkfs)
  have v: "source_valid sample_hash (unat (4096 :: u32)) sample_nodes sample_root" using sample_valid by simp
  have "source_chunks (unat (4096 :: u32)) sample_root = {[1, 2, 3]}" using sample_source_chunks by simp
  then have "length blob = 4096" using blob_holds_each_chunk_once [OF v run] by (auto simp: pad_len_def)
  then show ?thesis using run by blast
qed

lemma sample_inode_count: "inode_count sample_root = 4"
proof -
  have "link_keys (src_nodes sample_root) = {(1, 2)}"
    by (auto simp: link_keys_def sample_src_nodes sample_stats sample_link_keys)
  then show ?thesis by (simp add: inode_count_def sample_src_nodes own_inode_def sample_stats sample_link_keys)
qed

theorem statistics_describe_image_witness:
  "\<exists>img blob r st. mkfs_main sample_hash 4096 1700000000 sample_uuid sample_root True (Some 8192) (Some 131072) = Inr (img, blob) \<and>
     reader_open (Some img) (Some (Some blob)) = Inr r \<and> fs_statfs (fs_new r) = Inr st \<and> unat (f_files st) = 4"
proof -
  obtain img blob where run:
    "mkfs_main sample_hash 4096 1700000000 sample_uuid sample_root True (Some 8192) (Some 131072) = Inr (img, blob)"
    by (rule sample_mkfs)
  have v: "source_valid sample_hash (unat (4096 :: u32)) sample_nodes sample_root" using sample_valid by simp
  have h: "length sample_uuid = 16" "(8192 :: nat) \<le> 2 ^ 60" "metadata_size (unat (4096 :: u32)) sample_root + 8192 \<le> 2 ^ 44"
    using sample_tree_size by (simp_all add: sample_uuid_def)
  from statistics_describe_image [OF v h run] run show ?thesis unfolding sample_inode_count by blast
qed

end
