(* ===== verification/Spec2Isabelle.thy ===== *)
theory Spec2Isabelle
  imports Applications Mkfs_Layout Layout Utf8
begin

text \<open>
  Verification of the EROFS tools: \<^verbatim>\<open>erofs-mkfs\<close>, which builds a read-only image and a blob device
  from a source directory, and \<^verbatim>\<open>erofs-fuse\<close>, which serves the files of such an image to the kernel.

  \<^bold>\<open>The program.\<close> \<^verbatim>\<open>src/src/metadata\<close> declares the on-disk structures and the allocator of the
  metadata area; \<^verbatim>\<open>src/src/build\<close> walks the source, stores file chunks in the blob once per distinct
  content, serialises inodes and directories and assembles the image; \<^verbatim>\<open>src/src/fs\<close> opens an image and
  reads inodes, directories, attributes and file data from the mapped bytes, and implements the FUSE
  operations on top; the two programs in \<^verbatim>\<open>src/src/bin\<close> tie these together.

  \<^bold>\<open>Theories and sources.\<close>
  \<^item> \<open>Prelude\<close>: machine integers as words, errors and panics as values of a sum, checked slices, sinks,
    little-endian arrays, the interface \<open>codec\<close> of an on-disk structure.
  \<^item> \<open>Metadata\<close> (\<^verbatim>\<open>metadata/mod.rs\<close>), \<open>Superblock\<close>, \<open>Inode_Format\<close>, \<open>Dirent_Format\<close>, \<open>Chunk_Format\<close>
    (the files of the same names), \<open>Layout\<close> (\<^verbatim>\<open>metadata/layout.rs\<close>, with the interface \<open>allocator\<close>,
    interpreted for inode slots and for directory blocks).
  \<^item> \<open>Build_Dir\<close> (\<^verbatim>\<open>build/dir.rs\<close>), \<open>Blob_Writer\<close> (\<^verbatim>\<open>build/blobchunk.rs\<close>, with the interface
    \<open>content_store\<close>), \<open>Build_Inode\<close> and \<open>Build_Tree\<close> (\<^verbatim>\<open>build/inode.rs\<close>: serialisation and the walk),
    \<open>Image\<close> (\<^verbatim>\<open>build/image.rs\<close>), \<open>Mkfs\<close> (\<^verbatim>\<open>bin/erofs-mkfs.rs\<close>).
  \<^item> \<open>Reader\<close> (\<^verbatim>\<open>fs/mod.rs\<close>, with the interface \<open>byte_source\<close>, interpreted for the image and the blob),
    \<open>Dir_Parse\<close> and \<open>Reader_Meta\<close> (\<^verbatim>\<open>fs/meta.rs\<close>), \<open>Reader_Data\<close> (\<^verbatim>\<open>fs/data.rs\<close>), \<open>Fuse\<close>
    (\<^verbatim>\<open>fs/fuse.rs\<close>, both interfaces), \<open>Mount\<close> (\<^verbatim>\<open>bin/erofs-fuse.rs\<close>). \<open>Utf8\<close> is the lossy decoding of
    names of the standard library.
  \<^item> \<open>Mkfs_Layout\<close>, \<open>Build_Spec\<close>, \<open>Build_Walk\<close> (induction over the walk: the interface \<open>tree_walk\<close>,
    interpreted for representation and shape of the list, and \<open>walk_account\<close>, which gives it, interpreted
    for bytes of metadata, chunks and inodes), \<open>Build_Size\<close>, \<open>Blob_Content\<close>, \<open>Image_Account\<close>, \<open>Build_Order\<close>,
    \<open>Build_Progress\<close>, \<open>Roundtrip\<close>, \<open>Dir_Visit\<close>, \<open>Reader_Safe\<close>, \<open>Fuse_Handles\<close>, \<open>Fuse_Clients\<close>, \<open>Fuse_Image\<close>, \<open>Fuse_Props\<close>: what these parts promise, and proofs that
    they keep it. \<open>Sample\<close>, \<open>Sample_Mounted\<close> and
    \<open>Applications\<close> apply the properties to a concrete source tree.

  A structure of the code is a record with its fields, an enum a datatype, \<^verbatim>\<open>Result\<close> is
  \<^typ>\<open>error + 'a\<close>; a panic (slice out of range, division by zero, failed assertion) is the error
  \<open>Panic\<close>, so that a theorem with a result \<open>Inr\<close> also excludes panics. The capacity overflow of a vector
  that is allocated with a size from the image is such a panic; an allocation below that limit succeeds,
  and the other buffers of the reader have at most the 32-bit size of a request. Integers have the width of the
  code and wrap around as in a release build; lengths of vectors in memory are natural numbers.

  \<^bold>\<open>What is shown.\<close> The end of this theory states the properties that span both programs. The
  specification is the relation \<open>presents\<close> of \<open>Roundtrip\<close>: through the operations of the reader
  alone, every node of a source tree shows with its metadata, attributes, contents and entries. It is
  reached in steps, each a property of its own: the walk produces a list that \<open>represents\<close> the source
  (\<open>Build_Spec\<close>; the invariant \<open>tree_inv\<close> covers hard links and the growing blob) and links it as a tree;
  the phases of the builder lay the list out (\<open>Mkfs_Layout\<close>); the image holds it and the reader reads
  it back (\<open>Roundtrip\<close>); the server translates between its numbers and the image's (\<open>Fuse_Image\<close>).
  \<open>Build_Progress\<close> shows that the builder does succeed, with room computed from the source alone:
  \<open>Build_Size\<close> bounds the metadata by \<open>metadata_size\<close>, and \<open>needs\<close> bounds the blob. What is written is
  determined by the source: the blob is exactly the distinct chunks of its files (\<open>Blob_Content\<close>), the
  image has one inode for every node and for all links to a file, and says so (\<open>Image_Account\<close>), and
  neither depends on the order in which directories are listed (\<open>Build_Order\<close>). For arbitrary images,
  damaged ones included, \<open>Reader_Meta\<close>, \<open>Reader_Data\<close>, \<open>Dir_Visit\<close> and \<open>Fuse_Props\<close> show that reads return
  the bytes of the image at their addresses, end, and agree between the synchronous, asynchronous and
  writing variants, and that a directory walk does not depend on its callback. \<open>Reader_Safe\<close> shows which
  operations report every damage as an error and never panic: all that work on files, for block sizes
  from 16 bytes on, and all that work on directories where the stored offsets are sound, with one exact
  exception: a link or directory whose inode states inline data of more than \<^verbatim>\<open>isize::MAX\<close> bytes with a
  tail (\<open>huge_tail\<close>) makes the copying reads of \<^verbatim>\<open>readlink\<close>, \<^verbatim>\<open>lookup\<close> and \<^verbatim>\<open>opendir\<close> panic. The theory
  also holds concrete images on which the reader panics.

  \<open>Fuse_Handles\<close> is a step relation in which worker threads interleave; its invariants say that
  directory handles are unique and are snapshots. \<open>Fuse_Clients\<close> runs whole clients against it: each
  gets the answers it would get alone, up to the numbers of its handles. \<open>Mount\<close> composes opening,
  starting the workers and the end of the session; it records every call the program makes, so that its
  properties say which calls are made, in which order, and with which channel and server each worker
  starts, up to the first call that fails. The last properties of this theory join it to the builder.

  \<^bold>\<open>Bounds and fuel.\<close> The blob holds at most \<open>2 ^ 60\<close> bytes, which is what a 48-bit block address
  reaches, and the metadata, as \<open>metadata_size\<close> computes it from the source, at most \<open>2 ^ 59\<close>; the
  block count of the superblock, which has 32 bits, is right up to \<open>2 ^ 44\<close> bytes. \<open>node_ok\<close> states what the format holds and Linux
  guarantees: names of 1 to 255 bytes, targets below 4096 bytes, attributes that fit their fields,
  directories of less than \<open>2 ^ 20 - 2\<close> entries, link counts from 1 to \<open>2 ^ 32 - 1\<close>. Chunk loops end by a
  measure on what remains. The scan of an attribute area has the length of the area plus one as fuel,
  and the walk over directory blocks ends by the length of the directory; running out would be the
  error \<open>Diverged\<close>, which the theorems about these loops exclude. The client \<open>list_dir\<close> that pages
  through a directory needs one request more than there are entries.

  \<^bold>\<open>Parameters.\<close> The hash function is any function; where contents matter it is assumed injective on
  the chunks of the source. The clock, the UUID, the source file system (a value of type \<open>src\<close> that does
  not change during the walk), the room on the output devices, the callbacks and reply writers of the
  FUSE library, and the session of the mount program with its runtime, threads, channels and the wait
  for a signal, are arguments.

  \<^bold>\<open>Not modelled.\<close> Argument parsing, logging, progress output and the unsafe casts behind
  \<^verbatim>\<open>cast_ref\<close> (a view of the bytes is used instead); \<^verbatim>\<open>cast_mut\<close>, which the program does not call; the
  empty operations \<^verbatim>\<open>forget\<close> and \<^verbatim>\<open>destroy\<close>; flushing of buffered writers; changes of the source
  during the walk; the FUSE library, the kernel and the thread scheduler beyond the interleaving of
  atomic steps.
\<close>

unbundle bit_operations_syntax

subsection \<open>What the server shows of a served source\<close>

lemma presents_stat:
  assumes "presents (fs_reader fs) p n nid" and "fs_root_nid fs = 0" and "src_stat n = Some meta"
  obtains i where "fs_getattr fs (to_ino fs nid) = Inr (make_stat fs nid i, EROFS_FUSE_TIMEOUT)"
    and "stat_shown (fs_reader fs) meta i" and "is_file meta \<longrightarrow> inode_size i = st_size meta"
proof -
  obtain m i where i: "src_stat n = Some m" "node_shown (fs_reader fs) n nid m i" using assms(1) by (rule presents_node)
  have "inode_size i = st_size meta" if "is_file meta"
  proof -
    have "\<not> is_dir meta" using that by (auto simp: is_file_def is_dir_def)
    then obtain j where "node_shown (fs_reader fs) n nid meta j" "content_shown (fs_reader fs) n nid meta j"
      by (rule presents_leafD [OF assms(1,3)])
    then show ?thesis using i that by (simp add: node_shown_def content_shown_def)
  qed
  then show ?thesis
    using that i assms(2,3) by (simp add: node_shown_def fs_getattr_def to_nid_root_0 Let_def)
qed


lemma related_names:
  "list_all2 (\<lambda>e x. fst x = f (fst e) \<and> Q e x) es xs \<Longrightarrow> map fst xs = map (\<lambda>e. f (fst e)) es"
  by (induction rule: list_all2_induct) auto

subsection \<open>End-to-end properties\<close>

text \<open>C1: The image presents the source. Whatever the builder writes for a valid source directory, the
  reader opens, with the blob as its device, and finds from the root on the whole source tree: the
  metadata and attributes of every node, the entries of every directory in order under their names, the
  contents of every file at every offset and size, the targets of symbolic links and device numbers.\<close>

theorem image_presents_source:
  assumes "source_valid hash (unat chunksize) U source" and "length uuid = 16" and "blob_room \<le> 2 ^ 60"
    and "metadata_size (unat chunksize) source \<le> 2 ^ 59"
    and "mkfs_main hash chunksize epoch uuid source source_is_dir (Some blob_room) image_room = Inr (img, blob)"
  shows "\<exists>r. reader_open (Some img) (Some (Some blob)) = Inr r \<and> superblock_root_nid (reader_sb r) = 0 \<and>
    mapped r \<and> presents r 0 source 0"
proof -
  obtain r where "reader_open (Some img) (Some (Some blob)) = Inr r"
    "presents r (superblock_root_nid (reader_sb r)) source (superblock_root_nid (reader_sb r))"
    "mapped r" "superblock_root_nid (reader_sb r) = 0"
    by (rule mkfs_presents [OF assms(1-3,5,4)])
  then show ?thesis by auto
qed

text \<open>C2: The builder succeeds. When the source is valid and readable, the chunk size is a power of two of
  at least 4096, the blob device has room for the padded chunks and the image device for the metadata,
  the program returns an image and a blob; no step of it fails or panics. The hash function may be any that
  gives different chunks of the source different digests, as a valid source requires.\<close>

theorem mkfs_succeeds:
  assumes "source_valid hash (unat chunksize) U source" and "4096 \<le> unat chunksize" and "is_power_of_two chunksize"
    and "length uuid = 16" and "needs (unat chunksize) source k" and "k \<le> blob_room" and "blob_room \<le> 2 ^ 60"
    and "metadata_size (unat chunksize) source \<le> 2 ^ 59" and "metadata_size (unat chunksize) source + 8192 \<le> image_room"
  shows "\<exists>img blob. mkfs_main hash chunksize epoch uuid source True (Some blob_room) (Some image_room) = Inr (img, blob)"
proof -
  have pos: "0 < unat chunksize" using assms(2) by simp
  obtain inodes bw where run: "build_tree hash source (blob_writer_new blob_room chunksize) = Inr (inodes, bw)"
    using tree_is_built [OF assms(5) pos assms(6)] by blast
  have "metadata_bound inodes \<le> metadata_size (unat chunksize) source" by (rule tree_within_size [OF run pos])
  then show ?thesis
    using assms(8,9) by (intro mkfs_main_ok [OF assms(1-4,7) _ run]) simp_all
qed

text \<open>C6: Paths resolve. On a served source, the lookups the kernel sends for a path of the source reach
  an inode whose attributes are those of the node: type and permissions, owners, link count, the size
  of a file, and the modification time, unless the inode is too far from the build time.\<close>

theorem paths_resolve:
  assumes "serves_source hash source fs" and "\<forall>name \<in> set path. plain_name name" and "resolve source path = Some n"
    and "src_stat n = Some meta"
  shows "\<exists>ino st. fs_walk fs FUSE_ROOT_ID path = Inr ino \<and> fs_getattr fs ino = Inr (st, EROFS_FUSE_TIMEOUT) \<and>
    s64_ino st = ino \<and> s64_mode st = take_bit 16 (st_mode meta) \<and> s64_uid st = st_uid meta \<and>
    s64_gid st = st_gid meta \<and> s64_nlink st = take_bit 32 (st_nlink meta) \<and>
    (is_file meta \<longrightarrow> s64_size st = st_size meta) \<and>
    (unat (st_mtime meta - superblock_epoch (reader_sb (fs_reader fs))) < 2 ^ 32 \<longrightarrow> s64_mtime st = st_mtime meta)"
proof -
  note s = serves_presents [OF assms(1)]
  obtain p nid where w: "fs_walk fs FUSE_ROOT_ID path = Inr (to_ino fs nid)" "presents (fs_reader fs) p n nid"
    by (rule serves_walk [OF assms(1-3)])
  obtain i where i: "fs_getattr fs (to_ino fs nid) = Inr (make_stat fs nid i, EROFS_FUSE_TIMEOUT)"
    "stat_shown (fs_reader fs) meta i" "is_file meta \<longrightarrow> inode_size i = st_size meta"
    by (rule presents_stat [OF w(2) s(3) assms(4)])
  have "(ucast (ucast (st_mode meta) :: u16) :: u32) = take_bit 16 (st_mode meta)"
    and "(ucast (ucast (st_nlink meta) :: u32) :: u64) = take_bit 32 (st_nlink meta)"
    by (rule bit_word_eqI, auto simp: bit_simps)+
  then show ?thesis
    using i w(1) by (intro exI [of _ "to_ino fs nid"] exI [of _ "make_stat fs nid i"])
      (simp add: stat_shown_def make_stat_def Let_def)
qed

text \<open>C3: Files read back. On a served source, reading a file through its path, at any offset and with
  any size, appends to the reply exactly the requested part of its contents, clipped at its end, and
  returns the number of bytes, whatever the chunk size and however much was stored only once.\<close>

theorem files_read_back:
  assumes "serves_source hash source fs" and "\<forall>name \<in> set path. plain_name name" and "resolve source path = Some n"
    and "src_stat n = Some meta" and "is_file meta" and "src_content n = Some f" and "unat (st_size meta) = length f"
    and "unat sz \<le> sink_room w"
  shows "\<exists>ino k. fs_walk fs FUSE_ROOT_ID path = Inr ino \<and>
    fs_read fs ino w sz offset = Inr (k, emit (bytes_at (unat offset) (unat sz) f) w) \<and>
    unat k = length (bytes_at (unat offset) (unat sz) f)"
proof -
  note s = serves_presents [OF assms(1)]
  obtain p nid where w: "fs_walk fs FUSE_ROOT_ID path = Inr (to_ino fs nid)" "presents (fs_reader fs) p n nid"
    by (rule serves_walk [OF assms(1-3)])
  from presents_read [OF w(2) s(3,2) assms(4-6,8,7)] show ?thesis using w(1) by blast
qed

text \<open>C14: Missing names are reported as missing. On a served source, looking up a name that no child of a
  directory shows under fails with the error for a missing entry, after the whole directory is searched.\<close>

theorem missing_names_fail:
  assumes "serves_source hash source fs" and "\<forall>name \<in> set path. plain_name name" and "resolve source path = Some n"
    and "src_is_dir n" and "plain_name name" and "src_child n name = None"
  shows "\<exists>ino. fs_walk fs FUSE_ROOT_ID path = Inr ino \<and> fs_lookup fs ino name = Inl ENOENT"
proof -
  note s = serves_presents [OF assms(1)]
  obtain p nid where w: "fs_walk fs FUSE_ROOT_ID path = Inr (to_ino fs nid)" "presents (fs_reader fs) p n nid"
    by (rule serves_walk [OF assms(1-3)])
  from presents_lookup(1) [OF w(2) assms(4) s(3) assms(5,6)] show ?thesis using w(1) by blast
qed

text \<open>C16: Symbolic links are read. On a served source, the target of a symbolic link comes back as it is.\<close>

theorem targets_read_back:
  assumes "serves_source hash source fs" and "\<forall>name \<in> set path. plain_name name" and "resolve source path = Some n"
    and "src_stat n = Some meta" and "is_symlink meta" and "src_target n = Some t"
  shows "\<exists>ino. fs_walk fs FUSE_ROOT_ID path = Inr ino \<and> fs_readlink fs ino = Inr t"
proof -
  note s = serves_presents [OF assms(1)]
  obtain p nid where w: "fs_walk fs FUSE_ROOT_ID path = Inr (to_ino fs nid)" "presents (fs_reader fs) p n nid"
    by (rule serves_walk [OF assms(1-3)])
  from presents_readlink [OF w(2) s(3) assms(4-6)] show ?thesis using w(1) by blast
qed

text \<open>C15: Attributes are served. On a served source, a query for an attribute of a node answers from the
  attributes that the builder read and that have a supported prefix: no data for any other name, the
  length when asked with size 0, a range error when the buffer is too small, and otherwise the value.\<close>

theorem attributes_served:
  assumes "serves_source hash source fs" and "\<forall>name \<in> set path. plain_name name" and "resolve source path = Some n"
  shows "\<exists>ino. fs_walk fs FUSE_ROOT_ID path = Inr ino \<and>
    (\<forall>name sz. fs_getxattr fs ino name sz =
       (case map_of (xattr_pairs (read_xattrs_from_path n)) name of
          None \<Rightarrow> Inl ENODATA
        | Some v \<Rightarrow> if sz = 0 then Inr (XattrCount (word_of_nat (length v)))
                    else if unat sz < length v then Inl ERANGE else Inr (XattrValue v)))"
proof -
  note s = serves_presents [OF assms(1)]
  obtain p nid where w: "fs_walk fs FUSE_ROOT_ID path = Inr (to_ino fs nid)" "presents (fs_reader fs) p n nid"
    by (rule serves_walk [OF assms(1-3)])
  show ?thesis using w(1) presents_xattr [OF w(2) s(3)] find_xattr_map_of by metis
qed


text \<open>C12: Types are respected. On a served source, a node opens as a file exactly when it is one and no
  access for writing is asked for, and as a directory exactly when it is one; the errors say which
  rule was broken; and a listing gives for every entry the type bits of its mode.\<close>

theorem types_respected:
  assumes "serves_source hash source fs" and "\<forall>name \<in> set path. plain_name name" and "resolve source path = Some n"
    and "src_stat n = Some meta"
  shows "\<exists>ino. fs_walk fs FUSE_ROOT_ID path = Inr ino \<and>
    (\<forall>flags. fs_open fs ino flags =
       (if flags AND 3 \<noteq> 0 then Inl ERR_EROFS
        else if is_file meta then Inr (Some (to_nid fs ino), {KEEP_CACHE}, None) else Inl EISDIR)) \<and>
    (if is_dir meta then
       \<exists>es h opts fs' ds. src_entries n = Some es \<and> fs_opendir fs ino = Inr ((Some h, opts), fs') \<and>
         fs_readdir fs' h 0 (\<lambda>d s. Inr (1, s @ [d])) [] = Inr ds \<and>
         map dr_type ds = 4 # 4 # map (\<lambda>e. type_bits (ucast (st_mode (the (src_stat (snd e)))))) (by_name es)
     else fs_opendir fs ino = Inl ENOTDIR)"
proof -
  note s = serves_presents [OF assms(1)]
  obtain p nid where w: "fs_walk fs FUSE_ROOT_ID path = Inr (to_ino fs nid)" "presents (fs_reader fs) p n nid"
    by (rule serves_walk [OF assms(1-3)])
  note o = presents_open [OF w(2) s(3) assms(4)]
  have dir: "\<exists>es h opts fs' ds. src_entries n = Some es \<and> fs_opendir fs (to_ino fs nid) = Inr ((Some h, opts), fs') \<and>
      fs_readdir fs' h 0 (\<lambda>d s. Inr (1, s @ [d])) [] = Inr ds \<and>
      map dr_type ds = 4 # 4 # map (\<lambda>e. type_bits (ucast (st_mode (the (src_stat (snd e)))))) (by_name es)"
    if d: "is_dir meta"
  proof -
    have dn: "src_is_dir n" using d assms(4) by (simp add: src_is_dir_def)
    obtain es ents fs' where es: "src_entries n = Some es"
      and h: "fs_opendir fs (to_ino fs nid) = Inr ((Some (fs_next_dir_handle fs), {CACHE_DIR, KEEP_CACHE}), fs')"
      and g: "get_dir_handle fs' (fs_next_dir_handle fs) =
        Inr \<lparr>dh_entries = (bytes ''.'', nid, EROFS_FT_DIR) # (bytes ''..'', p, EROFS_FT_DIR) # ents\<rparr>"
      and rel: "list_all2 (\<lambda>e x. fst x = from_utf8_lossy (fst e) \<and>
        (\<exists>m. src_stat (snd e) = Some m \<and> snd (snd x) = mode_to_file_type (ucast (st_mode m)))) (by_name es) ents"
      and "fs_reader fs' = fs_reader fs" and "\<forall>x \<in> set ents. \<exists>i. reader_inode (fs_reader fs) (fst (snd x)) = Inr i"
      by (rule presents_opendir [OF w(2) s(3) dn]) (rule that, assumption+)
    let ?all = "(bytes ''.'', nid, EROFS_FT_DIR) # (bytes ''..'', p, EROFS_FT_DIR) # ents"
    obtain ds where ds: "readdir_loop fs' (\<lambda>d s. Inr (1, s @ [d])) (List.enumerate 0 ?all) [] = Inr ds"
      "map dr_type ds = map (\<lambda>e. erofs_ft_to_dt (snd (snd e))) ?all"
      using readdir_types [of fs' 0 ?all "[]"] unfolding append_Nil by blast
    have "erofs_ft_to_dt EROFS_FT_DIR = 4" by (simp add: erofs_ft_to_dt_def)
    then have "map dr_type ds = 4 # 4 # map (\<lambda>e. type_bits (ucast (st_mode (the (src_stat (snd e)))))) (by_name es)"
      using ds(2) listed_types [OF rel] by simp
    moreover have "fs_readdir fs' (fs_next_dir_handle fs) 0 (\<lambda>d s. Inr (1, s @ [d])) [] = Inr ds"
      using ds(1) by (simp add: fs_readdir_def g Let_def)
    ultimately show ?thesis using es h by (intro exI conjI) assumption+
  qed
  show ?thesis
    using w(1) o dir by (intro exI [of _ "to_ino fs nid"]) (simp add: to_nid_root_0 [OF s(3)])
qed

text \<open>C8: Listings with attributes agree with the other calls. On a served source, a listing with attributes
  of an opened directory succeeds, names the same entries as a plain listing, and gives for each of
  them the inode number of the entry and exactly the attributes that asking for that number gives.\<close>

theorem readdirplus_agrees:
  assumes "serves_source hash source fs" and "\<forall>name \<in> set path. plain_name name" and "resolve source path = Some n"
    and "src_is_dir n" and "src_entries n = Some es"
  shows "\<exists>ino h opts fs' rs. fs_walk fs FUSE_ROOT_ID path = Inr ino \<and> fs_opendir fs ino = Inr ((Some h, opts), fs') \<and>
    fs_readdirplus fs' h 0 (\<lambda>d e s. Inr (1, s @ [(d, e)])) [] = Inr rs \<and>
    map (\<lambda>(d, e). dr_name d) rs = bytes ''.'' # bytes ''..'' # map (\<lambda>e. from_utf8_lossy (fst e)) (by_name es) \<and>
    (\<forall>(d, e) \<in> set rs. en_inode e = dr_ino d \<and> fs_getattr fs' (dr_ino d) = Inr (en_attr e, EROFS_FUSE_TIMEOUT))"
proof -
  note s = serves_presents [OF assms(1)]
  obtain p nid pi where w: "fs_walk fs FUSE_ROOT_ID path = Inr (to_ino fs nid)" "presents (fs_reader fs) p n nid"
    and up: "reader_inode (fs_reader fs) p = Inr pi"
    by (rule serves_walk_parent [OF assms(1-3)])
  let ?h = "fs_next_dir_handle fs"
  obtain es' ents fs' where es': "src_entries n = Some es'"
    and o: "fs_opendir fs (to_ino fs nid) = Inr ((Some ?h, {CACHE_DIR, KEEP_CACHE}), fs')"
    and g: "get_dir_handle fs' ?h =
      Inr \<lparr>dh_entries = (bytes ''.'', nid, EROFS_FT_DIR) # (bytes ''..'', p, EROFS_FT_DIR) # ents\<rparr>"
    and r: "fs_reader fs' = fs_reader fs"
    and rel: "list_all2 (\<lambda>e x. fst x = from_utf8_lossy (fst e) \<and>
       (\<exists>m. src_stat (snd e) = Some m \<and> snd (snd x) = mode_to_file_type (ucast (st_mode m)))) (by_name es') ents"
    and rd: "\<forall>x \<in> set ents. \<exists>i. reader_inode (fs_reader fs) (fst (snd x)) = Inr i"
    by (rule presents_opendir [OF w(2) s(3) assms(4)])
  let ?all = "(bytes ''.'', nid, EROFS_FT_DIR) # (bytes ''..'', p, EROFS_FT_DIR) # ents"
  obtain m i where "node_shown (fs_reader fs) n nid m i" using w(2) by (rule presents_node)
  then have ok: "\<forall>x \<in> set ?all. \<exists>i. reader_inode (fs_reader fs') (fst (snd x)) = Inr i"
    using rd up by (simp add: r node_shown_def)
  have root: "fs_root_nid fs' = 0" using s(3) by (simp add: r)
  from readdirplus_all [OF ok root, of 0 "[]"] obtain rs
    where rs: "readdirplus_loop fs' (\<lambda>d e s. Inr (1, s @ [(d, e)])) (List.enumerate 0 ?all) [] = Inr rs"
      and nm: "map (\<lambda>(d, e). dr_name d) rs = map fst ?all"
      and at: "\<forall>(d, e) \<in> set rs. en_inode e = dr_ino d \<and> fs_getattr fs' (dr_ino d) = Inr (en_attr e, EROFS_FUSE_TIMEOUT)"
    unfolding append_Nil by blast
  have "fs_readdirplus fs' ?h 0 (\<lambda>d e s. Inr (1, s @ [(d, e)])) [] = Inr rs"
    using rs by (simp add: fs_readdirplus_def g Let_def)
  moreover have "es' = es" using es' assms(5) by simp
  then have "map (\<lambda>(d, e). dr_name d) rs = bytes ''.'' # bytes ''..'' # map (\<lambda>e. from_utf8_lossy (fst e)) (by_name es)"
    using nm related_names [OF rel] by simp
  ultimately show ?thesis using w(1) o at by (intro exI conjI) assumption+
qed

text \<open>C4: Reads are right under concurrency. On a server started on a served source, whatever any number of
  clients request and however their requests interleave, every read of a file through its path is
  answered with exactly the requested part of its contents.\<close>

theorem concurrent_reads_correct:
  assumes "serves_source hash source fs" and "\<forall>name \<in> set path. plain_name name" and "resolve source path = Some n"
    and "src_stat n = Some meta" and "is_file meta" and "src_content n = Some f" and "unat (st_size meta) = length f"
    and "clients_run (clients_start (fs_reader fs)) es s"
    and "(Read ino sz offset room, reply) \<in> set (trace_of c es)" and "fs_walk fs FUSE_ROOT_ID path = Inr ino"
    and "unat sz \<le> room"
  shows "\<exists>k. reply = Data (Inr (k, \<lparr>sink_data = bytes_at (unat offset) (unat sz) f,
      sink_room = room - length (bytes_at (unat offset) (unat sz) f)\<rparr>)) \<and>
    unat k = length (bytes_at (unat offset) (unat sz) f)"
proof -
  note s = serves_presents [OF assms(1)]
  obtain p nid where w: "fs_walk fs FUSE_ROOT_ID path = Inr (to_ino fs nid)" "presents (fs_reader fs) p n nid"
    by (rule serves_walk [OF assms(1-3)])
  have r: "fs_reader (fs_new (fs_reader fs)) = fs_reader fs" by (simp add: fs_new_def)
  have "reply = Data (fs_read fs ino \<lparr>sink_data = [], sink_room = room\<rparr> sz offset)"
    using run_reads [OF assms(8,9)] fs_read_same [OF r] by (simp add: clients_start_def r)
  moreover have "ino = to_ino fs nid" using assms(10) w(1) by simp
  moreover have "unat sz \<le> sink_room \<lparr>sink_data = [], sink_room = room\<rparr>" using assms(11) by simp
  note presents_read [OF w(2) s(3,2) assms(4-6) this assms(7), of offset]
  ultimately show ?thesis by (auto simp: emit_def)
qed

text \<open>C5: Mounting a built image serves its source. When the builder wrote an image and a blob for a valid
  source, the mount program opens both and makes exactly the planned calls, in order: it mounts a new
  session, starts each worker from 0 to the number of threads minus one, with a channel of its own and all
  on one server, which serves the source, and after the signal unmounts the session and wakes the workers.
  It ends without an error when all calls succeed; otherwise it stops at the first call that fails, with an
  error. When the mount point is not a directory it calls nothing and fails with \<^verbatim>\<open>EINVAL\<close>.\<close>

theorem mount_serves_built_image:
  assumes "source_valid hash (unat chunksize) U source" and "length uuid = 16" and "blob_room \<le> 2 ^ 60"
    and "metadata_size (unat chunksize) source \<le> 2 ^ 59"
    and "mkfs_main hash chunksize epoch uuid source source_is_dir (Some blob_room) image_room = Inr (img, blob)"
  shows "\<exists>server. serves_source hash source server \<and>
    (\<forall>se threads.
       (let plan = [BuildRuntime, NewSession, MountSession] @
              concat (map (\<lambda>i. [NewChannel i, SpawnWorker i (sc_channel se i) server]) [0 ..< unat threads]) @
              [NewSignals, AwaitSignal, Umount, Wake]
        in fuse_main True (Some img) (Some (Some blob)) se threads =
             (if \<forall>c \<in> set plan. call_succeeds se c then (plan, Inr ())
              else (takeWhile (call_succeeds se) plan @ [hd (dropWhile (call_succeeds se) plan)], Inl SessionFailed))) \<and>
       fuse_main False (Some img) (Some (Some blob)) se threads = ([], Inl (Errno 22)))"
proof -
  obtain r where r: "reader_open (Some img) (Some (Some blob)) = Inr r"
    "presents r (superblock_root_nid (reader_sb r)) source (superblock_root_nid (reader_sb r))"
    "mapped r" "superblock_root_nid (reader_sb r) = 0"
    by (rule mkfs_presents [OF assms(1-3,5,4)])
  have "serves_source hash source (fs_new r)"
    by (rule serves_sourceI [OF assms(1-5)]) (simp add: fs_new_def r(1))
  moreover have "fuse_main True (Some img) (Some (Some blob)) se threads =
      run_plan se (mount_plan se (fs_new r) (unat threads)) []" for se :: "'d session" and threads
    by (simp add: fuse_main_calls r(1))
  ultimately show ?thesis
    unfolding run_plan_def mount_plan_def worker_calls_def Let_def append_Nil
    by (intro exI [of _ "fs_new r"] conjI allI) (assumption, blast, rule fuse_main_no_dir)
qed

subsection \<open>Applications to the sample\<close>

lemma sample_paths:
  "\<forall>name \<in> set []. plain_name name" "\<forall>name \<in> set [[102]]. plain_name name"
  "\<forall>name \<in> set [[108]]. plain_name name" "\<forall>name \<in> set [[100]]. plain_name name"
  using sample_plain by simp_all

theorem image_presents_source_witness:
  "\<exists>img blob r. mkfs_main sample_hash 4096 1700000000 sample_uuid sample_root True (Some 8192) (Some 131072) = Inr (img, blob) \<and>
     reader_open (Some img) (Some (Some blob)) = Inr r \<and> presents r 0 sample_root 0"
proof -
  obtain img blob where run:
    "mkfs_main sample_hash 4096 1700000000 sample_uuid sample_root True (Some 8192) (Some 131072) = Inr (img, blob)"
    by (rule sample_mkfs)
  have v: "source_valid sample_hash (unat (4096 :: u32)) sample_nodes sample_root" "length sample_uuid = 16"
    "(8192 :: nat) \<le> 2 ^ 60"
    using sample_valid by (simp_all add: sample_uuid_def)
  from image_presents_source [OF v sample_fits run] run show ?thesis by blast
qed

theorem mkfs_succeeds_witness:
  "\<exists>img blob. mkfs_main sample_hash 4096 7 sample_uuid sample_root True (Some 8192) (Some 131072) = Inr (img, blob)"
proof -
  have v: "source_valid sample_hash (unat (4096 :: u32)) sample_nodes sample_root" "4096 \<le> unat (4096 :: u32)"
    "is_power_of_two (4096 :: u32)" "length sample_uuid = 16" "needs (unat (4096 :: u32)) sample_root 8192"
    "(8192 :: nat) \<le> 8192" "(8192 :: nat) \<le> 2 ^ 60"
    using sample_valid sample_power sample_needs by (simp_all add: sample_uuid_def)
  have l: "metadata_size (unat (4096 :: u32)) sample_root + 8192 \<le> 131072" using sample_tree_size by simp
  show ?thesis by (rule mkfs_succeeds [OF v sample_fits l])
qed

theorem paths_resolve_witness:
  "\<exists>fs ino st. serves_source sample_hash sample_root fs \<and> fs_walk fs FUSE_ROOT_ID [[102]] = Inr ino \<and>
     fs_getattr fs ino = Inr (st, EROFS_FUSE_TIMEOUT) \<and> s64_mode st = 0x81A4 \<and> s64_nlink st = 2 \<and> s64_size st = 3"
proof -
  obtain fs where f: "serves_source sample_hash sample_root fs" "fs = fs_new (fs_reader fs)" by (rule sample_served)
  have m: "take_bit 16 (st_mode (sample_stat 2 0x81A4 2 3)) = 0x81A4" "take_bit 32 (st_nlink (sample_stat 2 0x81A4 2 3)) = 2"
    "st_size (sample_stat 2 0x81A4 2 3) = 3"
    by (simp_all add: sample_stat_def)
  from paths_resolve [OF f(1) sample_paths(2) sample_resolve(2) sample_stats(2)] f(1) show ?thesis
    unfolding m using sample_kinds(4) by blast
qed

theorem types_respected_witness:
  "\<exists>fs ino. serves_source sample_hash sample_root fs \<and> fs_walk fs FUSE_ROOT_ID [[102]] = Inr ino \<and>
     is_ok (fs_open fs ino 0) \<and> fs_open fs ino 2 = Inl ERR_EROFS \<and> fs_opendir fs ino = Inl ENOTDIR"
proof -
  obtain fs where f: "serves_source sample_hash sample_root fs" "fs = fs_new (fs_reader fs)" by (rule sample_served)
  from types_respected [OF f(1) sample_paths(2) sample_resolve(2) sample_stats(2)] obtain ino
    where w: "fs_walk fs FUSE_ROOT_ID [[102]] = Inr ino"
      and o: "\<forall>flags. fs_open fs ino flags =
        (if flags AND 3 \<noteq> 0 then Inl ERR_EROFS else Inr (Some (to_nid fs ino), {KEEP_CACHE}, None))"
      and d: "fs_opendir fs ino = Inl ENOTDIR"
    by (simp only: sample_kinds if_True if_False) blast
  have "is_ok (fs_open fs ino 0)" "fs_open fs ino 2 = Inl ERR_EROFS" by (simp_all add: o is_ok_def)
  then show ?thesis using f(1) w d by blast
qed

theorem files_read_back_witness:
  "\<exists>fs ino k. serves_source sample_hash sample_root fs \<and> fs_walk fs FUSE_ROOT_ID [[102]] = Inr ino \<and>
     fs_read fs ino \<lparr>sink_data = [], sink_room = 9\<rparr> 9 1 = Inr (k, emit [2, 3] \<lparr>sink_data = [], sink_room = 9\<rparr>) \<and> unat k = 2"
proof -
  obtain fs where f: "serves_source sample_hash sample_root fs" "fs = fs_new (fs_reader fs)" by (rule sample_served)
  have h: "unat (st_size (sample_stat 2 0x81A4 2 3)) = length [1, 2, 3 :: u8]"
    "unat (9 :: u32) \<le> sink_room \<lparr>sink_data = [], sink_room = 9\<rparr>"
    by (simp_all add: sample_stat_def)
  have b: "bytes_at (unat (1 :: u64)) (unat (9 :: u32)) [1, 2, 3] = [2, 3 :: u8]" "length [2, 3 :: u8] = 2"
    by (simp_all add: bytes_at_def)
  from files_read_back [OF f(1) sample_paths(2) sample_resolve(2) sample_stats(2) sample_kinds(4) sample_sources(3) h, of 1]
    f(1)
  show ?thesis unfolding b by blast
qed

theorem missing_names_fail_witness:
  "\<exists>fs. serves_source sample_hash sample_root fs \<and>
     (\<exists>ino. fs_walk fs FUSE_ROOT_ID [[100]] = Inr ino \<and> fs_lookup fs ino [102] = Inl ENOENT)"
proof -
  obtain fs where f: "serves_source sample_hash sample_root fs" "fs = fs_new (fs_reader fs)" by (rule sample_served)
  from missing_names_fail [OF f(1) sample_paths(4) sample_resolve(4,8) sample_plain(1) sample_resolve(7)] f(1)
  show ?thesis by blast
qed

theorem targets_read_back_witness:
  "\<exists>fs. serves_source sample_hash sample_root fs \<and>
     (\<exists>ino. fs_walk fs FUSE_ROOT_ID [[108]] = Inr ino \<and> fs_readlink fs ino = Inr [102])"
proof -
  obtain fs where f: "serves_source sample_hash sample_root fs" "fs = fs_new (fs_reader fs)" by (rule sample_served)
  from targets_read_back [OF f(1) sample_paths(3) sample_resolve(3) sample_stats(3) sample_kinds(7) sample_sources(4)] f(1)
  show ?thesis by blast
qed

theorem attributes_served_witness:
  "\<exists>fs ino. serves_source sample_hash sample_root fs \<and> fs_walk fs FUSE_ROOT_ID [[102]] = Inr ino \<and>
     fs_getxattr fs ino (bytes ''user.k'') 1 = Inl ERANGE \<and> fs_getxattr fs ino (bytes ''user.n'') 1 = Inl ENODATA"
proof -
  obtain fs where f: "serves_source sample_hash sample_root fs" "fs = fs_new (fs_reader fs)" by (rule sample_served)
  have x: "xattr_pairs (read_xattrs_from_path sample_file) = [(bytes ''user.k'', [7, 8])]" by code_simp
  have ne: "bytes ''user.k'' \<noteq> bytes ''user.n''" by code_simp
  from attributes_served [OF f(1) sample_paths(2) sample_resolve(2)] obtain ino
    where "fs_walk fs FUSE_ROOT_ID [[102]] = Inr ino"
      and g: "\<forall>name sz. fs_getxattr fs ino name sz =
       (case map_of [(bytes ''user.k'', [7, 8])] name of
          None \<Rightarrow> Inl ENODATA
        | Some v \<Rightarrow> if sz = 0 then Inr (XattrCount (word_of_nat (length v)))
                    else if unat sz < length v then Inl ERANGE else Inr (XattrValue v))"
    unfolding x by blast
  moreover have "fs_getxattr fs ino (bytes ''user.k'') 1 = Inl ERANGE" by (simp add: g)
  moreover have "fs_getxattr fs ino (bytes ''user.n'') 1 = Inl ENODATA" using ne by (simp add: g)
  ultimately show ?thesis using f(1) by blast
qed


theorem readdirplus_agrees_witness:
  "\<exists>fs. serves_source sample_hash sample_root fs \<and>
     (\<exists>ino h opts fs' rs. fs_walk fs FUSE_ROOT_ID [] = Inr ino \<and> fs_opendir fs ino = Inr ((Some h, opts), fs') \<and>
        fs_readdirplus fs' h 0 (\<lambda>d e s. Inr (1, s @ [(d, e)])) [] = Inr rs \<and>
        map (\<lambda>(d, e). dr_name d) rs = [bytes ''.'', bytes ''..'', [100], [102], [103], [108]] \<and>
        (\<forall>(d, e) \<in> set rs. en_inode e = dr_ino d \<and> fs_getattr fs' (dr_ino d) = Inr (en_attr e, EROFS_FUSE_TIMEOUT)))"
proof -
  obtain fs where f: "serves_source sample_hash sample_root fs" "fs = fs_new (fs_reader fs)" by (rule sample_served)
  let ?es = "[([102], sample_file), ([100], sample_subdir), ([108], sample_link), ([103], sample_file)]"
  have n: "map (\<lambda>e. from_utf8_lossy (fst e)) (by_name ?es) = [[100], [102], [103], [108]]"
    by (simp add: sample_by_name sample_lossy)
  show ?thesis
    by (rule exI [of _ fs], rule conjI [OF f(1)])
      (rule readdirplus_agrees [OF f(1) sample_paths(1) sample_resolve(1,6) sample_sources(1), unfolded n])
qed

theorem concurrent_reads_correct_witness:
  "\<exists>fs ino es s reply k. serves_source sample_hash sample_root fs \<and> clients_run (clients_start (fs_reader fs)) es s \<and>
     (Read ino 8 1 8, reply) \<in> set (trace_of 3 es) \<and> fs_walk fs FUSE_ROOT_ID [[102]] = Inr ino \<and>
     reply = Data (Inr (k, \<lparr>sink_data = [2, 3], sink_room = 6\<rparr>))"
proof -
  obtain fs where f: "serves_source sample_hash sample_root fs" "fs = fs_new (fs_reader fs)" by (rule sample_served)
  obtain p nid where w: "fs_walk fs FUSE_ROOT_ID [[102]] = Inr (to_ino fs nid)"
    by (rule serves_walk [OF f(1) sample_paths(2) sample_resolve(2)])
  let ?s = "clients_start (fs_reader fs)" and ?call = "Read (to_ino fs nid) 8 1 8"
  let ?reply = "answer (cl_fs ?s) [] ?call"
  have "clients_step ?s (Some (3, ?call, ?reply)) (?s\<lparr>cl_fs := cl_fs ?s, cl_handles := (cl_handles ?s)(3 := [])\<rparr>)"
    by (rule clients_step.atomic) (simp_all add: clients_start_def)
  note run = clients_run.cons [OF this clients_run.nil]
  have t: "(?call, ?reply) \<in> set (trace_of 3 [Some (3, ?call, ?reply)])" by simp
  have sz: "unat (st_size (sample_stat 2 0x81A4 2 3)) = length [1, 2, 3 :: u8]" by (simp add: sample_stat_def)
  have room: "unat (8 :: u32) \<le> 8" by simp
  have b: "bytes_at (unat (1 :: u64)) (unat (8 :: u32)) [1, 2, 3 :: u8] = [2, 3]" by (simp add: bytes_at_def)
  from concurrent_reads_correct [OF f(1) sample_paths(2) sample_resolve(2) sample_stats(2) sample_kinds(4)
      sample_sources(3) sz run t w room, unfolded b]
  obtain k where "?reply = Data (Inr (k, \<lparr>sink_data = [2, 3], sink_room = 8 - length [2, 3 :: u8]\<rparr>))" by blast
  then have "?reply = Data (Inr (k, \<lparr>sink_data = [2, 3], sink_room = 6\<rparr>))" by simp
  then show ?thesis using f(1) run t w by blast
qed

theorem mount_serves_built_image_witness:
  "\<exists>img blob server. mkfs_main sample_hash 4096 1700000000 sample_uuid sample_root True (Some 8192) (Some 131072) = Inr (img, blob) \<and>
     serves_source sample_hash sample_root server \<and>
     fuse_main True (Some img) (Some (Some blob)) \<lparr>sc_succeeds = (\<lambda>c. c \<noteq> Wake), sc_channel = (\<lambda>i. 10 + i)\<rparr> 2 =
       ([BuildRuntime, NewSession, MountSession, NewChannel 0, SpawnWorker 0 10 server, NewChannel 1,
         SpawnWorker 1 11 server, NewSignals, AwaitSignal, Umount, Wake], Inl SessionFailed) \<and>
     fuse_main True (Some img) (Some (Some blob)) \<lparr>sc_succeeds = (\<lambda>c. True), sc_channel = (\<lambda>i. 10 + i)\<rparr> 2 =
       ([BuildRuntime, NewSession, MountSession, NewChannel 0, SpawnWorker 0 10 server, NewChannel 1,
         SpawnWorker 1 11 server, NewSignals, AwaitSignal, Umount, Wake], Inr ())"
proof -
  let ?fail = "\<lparr>sc_succeeds = (\<lambda>c. c \<noteq> Wake), sc_channel = (\<lambda>i. 10 + i :: nat)\<rparr>"
    and ?fine = "\<lparr>sc_succeeds = (\<lambda>c. True), sc_channel = (\<lambda>i. 10 + i :: nat)\<rparr>"
  obtain img blob where run:
    "mkfs_main sample_hash 4096 1700000000 sample_uuid sample_root True (Some 8192) (Some 131072) = Inr (img, blob)"
    by (rule sample_mkfs)
  have v: "source_valid sample_hash (unat (4096 :: u32)) sample_nodes sample_root" "length sample_uuid = 16"
    "(8192 :: nat) \<le> 2 ^ 60"
    using sample_valid by (simp_all add: sample_uuid_def)
  have up: "[0 ..< unat (2 :: u32)] = [0, 1]" by (simp add: upt_rec)
  obtain server where server: "serves_source sample_hash sample_root server"
    and mounts: "\<And>se :: nat session. let plan = [BuildRuntime, NewSession, MountSession] @
        concat (map (\<lambda>i. [NewChannel i, SpawnWorker i (sc_channel se i) server]) [0 ..< unat (2 :: u32)]) @
        [NewSignals, AwaitSignal, Umount, Wake]
      in fuse_main True (Some img) (Some (Some blob)) se 2 =
        (if \<forall>c \<in> set plan. call_succeeds se c then (plan, Inr ())
         else (takeWhile (call_succeeds se) plan @ [hd (dropWhile (call_succeeds se) plan)], Inl SessionFailed))"
    using mount_serves_built_image [OF v sample_fits run] by blast
  show ?thesis
    using server run mounts [of ?fail, unfolded up] mounts [of ?fine, unfolded up]
    by (intro exI [of _ img] exI [of _ blob] exI [of _ server]) (simp add: call_succeeds_def)
qed

end
